(* ===== verification/Prelude.thy ===== *)
theory Prelude
  imports Complex_Main "HOL-Library.Word" "HOL-Library.Char_ord" "HOL-Library.List_Lexorder"
    "HOL-Library.Product_Lexorder" "HOL-Library.Option_ord"
begin

text \<open>
  What the component theories share: the machine integers of the Rust code with their saturating
  and converting operations, the floating-point numbers, results, the ordered maps and sets of
  \<^verbatim>\<open>std::collections\<close> with the laws the components use, and the string
  functions of the standard library on UTF-8 byte strings.

  \<^item> \<open>u8\<close>, \<open>u32\<close> and \<open>u64\<close> are words, so that their ranges are part of their type; a \<open>usize\<close>
    that counts elements in memory is a \<open>nat\<close>; an \<open>i64\<close> is an \<open>int\<close>, and every operation
    that can leave the range says what happens there.
  \<^item> An \<open>f64\<close> is NaN, an infinity or a rational number; every arithmetic result is rounded to
    the nearest double, ties to even. The sign of zero is not modelled (no operation used here
    tells the two zeros apart).
  \<^item> A \<open>BTreeMap\<close> is an association list in the order of its keys, a \<open>BTreeSet\<close> an ordered list.
    The laws of look-up hold for every list; \<open>bm_wf\<close> says that the list is ordered.
  \<^item> A \<open>String\<close> is the list of its UTF-8 bytes.
\<close>

named_theorems bmap_simps \<open>look-up, insertion and removal in ordered maps and sets\<close>
named_theorems sat_simps \<open>saturating machine arithmetic read as natural numbers\<close>

section \<open>Results\<close>

type_synonym ('e, 'a) result = "'e + 'a"

abbreviation Err :: "'e \<Rightarrow> ('e, 'a) result" where
  "Err \<equiv> Inl"

abbreviation Ok :: "'a \<Rightarrow> ('e, 'a) result" where
  "Ok \<equiv> Inr"

definition bind_r :: "('e, 'a) result \<Rightarrow> ('a \<Rightarrow> ('e, 'b) result) \<Rightarrow> ('e, 'b) result" where
  "bind_r r f = (case r of Inl e \<Rightarrow> Inl e | Inr x \<Rightarrow> f x)"

lemma bind_r_simps [simp]:
  "bind_r (Err e) f = Err e"
  "bind_r (Ok x) f = f x"
  by (simp_all add: bind_r_def)

lemma bind_r_eq_Ok: "bind_r r f = Ok y \<longleftrightarrow> (\<exists>x. r = Ok x \<and> f x = Ok y)"
  by (cases r) simp_all

text \<open>A loop whose body may return early with an error.\<close>

fun fold_r :: "('x \<Rightarrow> 's \<Rightarrow> ('e, 's) result) \<Rightarrow> 'x list \<Rightarrow> 's \<Rightarrow> ('e, 's) result" where
  "fold_r f [] s = Ok s"
| "fold_r f (x # xs) s = bind_r (f x s) (fold_r f xs)"

lemma fold_r_invariant:
  assumes "\<And>x s s'. x \<in> set xs \<Longrightarrow> P s \<Longrightarrow> f x s = Ok s' \<Longrightarrow> P s'" and "P s" and "fold_r f xs s = Ok s'"
  shows "P s'"
  using assms
proof (induction xs arbitrary: s)
  case (Cons x xs)
  then obtain s1 where "f x s = Ok s1" and "fold_r f xs s1 = Ok s'" by (auto simp: bind_r_eq_Ok)
  moreover have "P s1" using Cons.prems calculation(1) by auto
  ultimately show ?case using Cons.IH [of s1] Cons.prems(1) by auto
qed simp

text \<open>\<open>Option::is_some_and\<close>, \<open>is_none_or\<close>, \<open>unwrap_or\<close> and \<open>or\<close>.\<close>

fun is_some_and :: "'a option \<Rightarrow> ('a \<Rightarrow> bool) \<Rightarrow> bool" where
  "is_some_and None p = False"
| "is_some_and (Some x) p = p x"

fun is_none_or :: "'a option \<Rightarrow> ('a \<Rightarrow> bool) \<Rightarrow> bool" where
  "is_none_or None p = True"
| "is_none_or (Some x) p = p x"

fun unwrap_or :: "'a option \<Rightarrow> 'a \<Rightarrow> 'a" where
  "unwrap_or None d = d"
| "unwrap_or (Some x) d = x"

fun opt_or :: "'a option \<Rightarrow> 'a option \<Rightarrow> 'a option" where
  "opt_or None y = y"
| "opt_or (Some x) y = Some x"

lemma is_some_none: "is_some_and x p \<longleftrightarrow> \<not> is_none_or x (\<lambda>y. \<not> p y)"
  by (cases x) simp_all

section \<open>Machine integers\<close>

type_synonym u8 = "8 word"
type_synonym u32 = "32 word"
type_synonym u64 = "64 word"
type_synonym i64 = int

definition sat_add :: "'a::len word \<Rightarrow> 'a word \<Rightarrow> 'a word" where
  "sat_add a b = (if unat a + unat b < 2 ^ LENGTH('a) then a + b else - 1)"

definition sat_sub :: "'a::len word \<Rightarrow> 'a word \<Rightarrow> 'a word" where
  "sat_sub a b = (if b \<le> a then a - b else 0)"

definition sat_mul :: "'a::len word \<Rightarrow> 'a word \<Rightarrow> 'a word" where
  "sat_mul a b = (if unat a * unat b < 2 ^ LENGTH('a) then a * b else - 1)"

lemma unat_sat_add [sat_simps]:
  "unat (sat_add a b) = min (unat a + unat b) (2 ^ LENGTH('a) - 1)" for a b :: "'a::len word"
  by (auto simp: sat_add_def unat_word_ariths unsigned_minus_1_eq_mask mask_eq_exp_minus_1)

lemma unat_sat_sub [sat_simps]: "unat (sat_sub a b) = unat a - unat b"
  by (auto simp: sat_sub_def word_le_nat_alt unat_sub)

lemma unat_sat_mul [sat_simps]:
  "unat (sat_mul a b) = min (unat a * unat b) (2 ^ LENGTH('a) - 1)" for a b :: "'a::len word"
  by (auto simp: sat_mul_def unat_word_ariths unsigned_minus_1_eq_mask mask_eq_exp_minus_1)

lemma unat_le_max: "unat a \<le> 2 ^ LENGTH('a) - 1" for a :: "'a::len word"
proof -
  have "unat a < 2 ^ LENGTH('a)" by simp
  then show ?thesis by linarith
qed

lemma sat_add_ge_left: "a \<le> sat_add a b"
  using unat_le_max [of a] by (simp add: word_le_nat_alt unat_sat_add)

lemma sat_add_ge_right: "b \<le> sat_add a b"
  using unat_le_max [of b] by (simp add: word_le_nat_alt unat_sat_add)

lemma sat_add_commute: "sat_add a b = sat_add b a"
  by (simp add: sat_add_def add.commute)

lemma sat_add_assoc: "sat_add (sat_add a b) c = sat_add a (sat_add b c)"
  for a b c :: "'a::len word"
proof -
  have "unat (sat_add (sat_add a b) c) = unat (sat_add a (sat_add b c))"
    unfolding unat_sat_add using unat_le_max [of a] unat_le_max [of c] by linarith
  then show ?thesis by (simp add: word_unat_eq_iff)
qed

lemma sat_add_zero [simp]: "sat_add a 0 = a" "sat_add 0 a = a"
  by (simp_all add: sat_add_def)

lemma sat_add_mono: "a \<le> a' \<Longrightarrow> b \<le> b' \<Longrightarrow> sat_add a b \<le> sat_add a' b'"
  by (auto simp: word_le_nat_alt unat_sat_add)

lemma sat_add_le_iff_sum:
  "unat l < 2 ^ LENGTH('a) - 1 \<Longrightarrow> sat_add a b \<le> l \<longleftrightarrow> unat a + unat b \<le> unat l"
  for a b l :: "'a::len word"
  by (auto simp: word_le_nat_alt unat_sat_add)

text \<open>\<open>i64\<close>: the bounds, saturation, and the wrapping cast from \<open>u64\<close>.\<close>

definition i64_max :: int where
  "i64_max = 9223372036854775807"

definition i64_min :: int where
  "i64_min = - 9223372036854775808"

definition i64_sat :: "int \<Rightarrow> i64" where
  "i64_sat x = max i64_min (min i64_max x)"

definition i64_sat_add :: "i64 \<Rightarrow> i64 \<Rightarrow> i64" where
  "i64_sat_add a b = i64_sat (a + b)"

definition u64_as_i64 :: "u64 \<Rightarrow> i64" where
  "u64_as_i64 w = sint w"

definition is_i64 :: "int \<Rightarrow> bool" where
  "is_i64 x \<longleftrightarrow> i64_min \<le> x \<and> x \<le> i64_max"

lemma is_i64_sat [simp]: "is_i64 (i64_sat x)"
  by (simp add: is_i64_def i64_sat_def i64_min_def i64_max_def)

lemma i64_sat_id: "is_i64 x \<Longrightarrow> i64_sat x = x"
  by (simp add: is_i64_def i64_sat_def)

lemma i64_sat_add_mono: "a \<le> a' \<Longrightarrow> b \<le> b' \<Longrightarrow> i64_sat_add a b \<le> i64_sat_add a' b'"
  by (simp add: i64_sat_add_def i64_sat_def)

lemma i64_sat_add_ge: "is_i64 a \<Longrightarrow> 0 \<le> b \<Longrightarrow> a \<le> i64_sat_add a b"
  by (simp add: i64_sat_add_def i64_sat_def is_i64_def)

section \<open>Floating-point numbers\<close>

datatype f64 = NaN | NegInf | Fin rat | PosInf

text \<open>
  \<open>log2_floor q\<close> is the exponent of the largest power of two not above \<open>q\<close>, found from the
  binary lengths of numerator and denominator; \<open>round_even\<close> rounds to an integer, ties to even;
  \<open>f64_round\<close> rounds a rational to the nearest double: a significand of 53 bits, subnormals
  below \<open>2 ^ -1022\<close>, infinity from \<open>2 ^ 1024\<close> on.
\<close>

fun bit_len :: "nat \<Rightarrow> nat" where
  "bit_len n = (if n = 0 then 0 else Suc (bit_len (n div 2)))"

declare bit_len.simps [simp del]

definition pow2 :: "int \<Rightarrow> rat" where
  "pow2 e = (if 0 \<le> e then 2 ^ nat e else 1 / 2 ^ nat (- e))"

definition log2_floor :: "rat \<Rightarrow> int" where
  "log2_floor q =
     (let (n, d) = quotient_of q; e = int (bit_len (nat n)) - int (bit_len (nat d))
      in if pow2 e \<le> q then e else e - 1)"

definition round_even :: "rat \<Rightarrow> int" where
  "round_even q =
     (let m = floor q; r = q - of_int m
      in if r < 1 / 2 \<or> (r = 1 / 2 \<and> even m) then m else m + 1)"

definition f64_round :: "rat \<Rightarrow> f64" where
  "f64_round q =
     (if q = 0 then Fin 0
      else let ulp = pow2 (max (log2_floor \<bar>q\<bar> - 52) (- 1074));
               a = of_int (round_even (\<bar>q\<bar> / ulp)) * ulp
           in if pow2 1024 \<le> a then (if 0 < q then PosInf else NegInf)
              else Fin (sgn q * a))"

fun f64_neg :: "f64 \<Rightarrow> f64" where
  "f64_neg NaN = NaN"
| "f64_neg NegInf = PosInf"
| "f64_neg PosInf = NegInf"
| "f64_neg (Fin q) = Fin (- q)"

fun f64_add :: "f64 \<Rightarrow> f64 \<Rightarrow> f64" where
  "f64_add (Fin a) (Fin b) = f64_round (a + b)"
| "f64_add NaN b = NaN"
| "f64_add a NaN = NaN"
| "f64_add PosInf NegInf = NaN"
| "f64_add NegInf PosInf = NaN"
| "f64_add PosInf b = PosInf"
| "f64_add NegInf b = NegInf"
| "f64_add a PosInf = PosInf"
| "f64_add a NegInf = NegInf"

definition f64_sub :: "f64 \<Rightarrow> f64 \<Rightarrow> f64" where
  "f64_sub a b = f64_add a (f64_neg b)"

fun f64_sgn :: "f64 \<Rightarrow> rat" where
  "f64_sgn NaN = 0"
| "f64_sgn NegInf = - 1"
| "f64_sgn PosInf = 1"
| "f64_sgn (Fin q) = sgn q"

fun f64_mul :: "f64 \<Rightarrow> f64 \<Rightarrow> f64" where
  "f64_mul (Fin a) (Fin b) = f64_round (a * b)"
| "f64_mul NaN b = NaN"
| "f64_mul a NaN = NaN"
| "f64_mul a b =
     (let s = f64_sgn a * f64_sgn b
      in if s = 0 then NaN else if 0 < s then PosInf else NegInf)"

text \<open>The comparisons of \<open>PartialOrd\<close>: every one with a NaN is false.\<close>

fun f64_lt :: "f64 \<Rightarrow> f64 \<Rightarrow> bool" where
  "f64_lt NaN b = False"
| "f64_lt a NaN = False"
| "f64_lt (Fin a) (Fin b) = (a < b)"
| "f64_lt PosInf b = False"
| "f64_lt a NegInf = False"
| "f64_lt NegInf b = True"
| "f64_lt a PosInf = True"

definition f64_eq :: "f64 \<Rightarrow> f64 \<Rightarrow> bool" where
  "f64_eq a b \<longleftrightarrow> a \<noteq> NaN \<and> a = b"

definition f64_le :: "f64 \<Rightarrow> f64 \<Rightarrow> bool" where
  "f64_le a b \<longleftrightarrow> f64_lt a b \<or> f64_eq a b"

text \<open>\<open>f64::clamp\<close>, \<open>f64::floor\<close>, and the casts \<open>u64 as f64\<close> and (saturating) \<open>f64 as u64\<close>.\<close>

definition f64_clamp :: "f64 \<Rightarrow> f64 \<Rightarrow> f64 \<Rightarrow> f64" where
  "f64_clamp x lo hi = (if f64_lt x lo then lo else if f64_lt hi x then hi else x)"

fun f64_floor :: "f64 \<Rightarrow> f64" where
  "f64_floor (Fin q) = Fin (of_int (floor q))"
| "f64_floor x = x"

definition u64_as_f64 :: "u64 \<Rightarrow> f64" where
  "u64_as_f64 w = f64_round (of_nat (unat w))"

fun f64_as_u64 :: "f64 \<Rightarrow> u64" where
  "f64_as_u64 NaN = 0"
| "f64_as_u64 NegInf = 0"
| "f64_as_u64 PosInf = - 1"
| "f64_as_u64 (Fin q) =
     (let n = (if q < 0 then 0 else nat (floor q)) in if n < 2 ^ 64 then of_nat n else - 1)"

lemma f64_round_0 [simp]: "f64_round 0 = Fin 0"
  by (simp add: f64_round_def)

lemma f64_le_refl [simp]: "f64_le x x \<longleftrightarrow> x \<noteq> NaN"
  by (cases x) (simp_all add: f64_le_def f64_eq_def)

lemma not_f64_lt_iff: "x \<noteq> NaN \<Longrightarrow> y \<noteq> NaN \<Longrightarrow> \<not> f64_lt y x \<longleftrightarrow> f64_le x y"
  by (cases x; cases y) (auto simp: f64_le_def f64_eq_def)

section \<open>Ordered maps and sets\<close>

type_synonym ('k, 'v) bmap = "('k \<times> 'v) list"

type_synonym 'k bset = "'k list"

definition bm_get :: "('k, 'v) bmap \<Rightarrow> 'k \<Rightarrow> 'v option" where
  "bm_get m k = map_of m k"

definition bm_contains :: "('k, 'v) bmap \<Rightarrow> 'k \<Rightarrow> bool" where
  "bm_contains m k \<longleftrightarrow> bm_get m k \<noteq> None"

definition bm_remove :: "'k \<Rightarrow> ('k, 'v) bmap \<Rightarrow> ('k, 'v) bmap" where
  "bm_remove k m = filter (\<lambda>p. fst p \<noteq> k) m"

definition bm_insert :: "'k::linorder \<Rightarrow> 'v \<Rightarrow> ('k, 'v) bmap \<Rightarrow> ('k, 'v) bmap" where
  "bm_insert k v m = insort_key fst (k, v) (bm_remove k m)"

definition bm_keys :: "('k, 'v) bmap \<Rightarrow> 'k list" where
  "bm_keys m = map fst m"

definition bm_values :: "('k, 'v) bmap \<Rightarrow> 'v list" where
  "bm_values m = map snd m"

definition bm_of_list :: "('k::linorder \<times> 'v) list \<Rightarrow> ('k, 'v) bmap" where
  "bm_of_list ps = fold (\<lambda>(k, v). bm_insert k v) ps []"

definition bm_wf :: "('k::linorder, 'v) bmap \<Rightarrow> bool" where
  "bm_wf m \<longleftrightarrow> sorted (map fst m) \<and> distinct (map fst m)"

definition bs_insert :: "'k::linorder \<Rightarrow> 'k bset \<Rightarrow> 'k bset" where
  "bs_insert x s = (if x \<in> set s then s else insort x s)"

definition bs_remove :: "'k \<Rightarrow> 'k bset \<Rightarrow> 'k bset" where
  "bs_remove x s = filter (\<lambda>y. y \<noteq> x) s"

definition bs_of_list :: "'k::linorder list \<Rightarrow> 'k bset" where
  "bs_of_list xs = fold bs_insert xs []"

definition bs_wf :: "'k::linorder bset \<Rightarrow> bool" where
  "bs_wf s \<longleftrightarrow> sorted s \<and> distinct s"

lemma map_of_insort_key:
  "k \<notin> fst ` set m \<Longrightarrow> map_of (insort_key fst (k, v) m) = (map_of m)(k \<mapsto> v)"
  by (induction m) (auto simp: fun_eq_iff)

lemma bm_get_remove [bmap_simps]: "bm_get (bm_remove k m) k' = (if k' = k then None else bm_get m k')"
  by (induction m) (auto simp: bm_get_def bm_remove_def)

lemma bm_get_insert [bmap_simps]:
  "bm_get (bm_insert k v m) k' = (if k' = k then Some v else bm_get m k')"
proof -
  have "k \<notin> fst ` set (bm_remove k m)"
    by (auto simp: bm_remove_def)
  then show ?thesis
    using bm_get_remove [of k m k'] by (simp add: bm_insert_def bm_get_def map_of_insort_key)
qed

lemma bm_get_empty [bmap_simps]: "bm_get [] k = None"
  by (simp add: bm_get_def)

lemma bm_contains_simps [bmap_simps]:
  "bm_contains [] k \<longleftrightarrow> False"
  "bm_contains (bm_insert k v m) k' \<longleftrightarrow> k' = k \<or> bm_contains m k'"
  "bm_contains (bm_remove k m) k' \<longleftrightarrow> k' \<noteq> k \<and> bm_contains m k'"
  by (simp_all add: bm_contains_def bmap_simps)

lemma bm_contains_keys: "bm_contains m k \<longleftrightarrow> k \<in> set (bm_keys m)"
  by (simp add: bm_contains_def bm_get_def bm_keys_def map_of_eq_None_iff)

lemma bm_keys_insert [bmap_simps]: "set (bm_keys (bm_insert k v m)) = insert k (set (bm_keys m))"
  by (auto simp: bm_keys_def bm_insert_def bm_remove_def set_insort_key)

lemma bm_keys_remove [bmap_simps]: "set (bm_keys (bm_remove k m)) = set (bm_keys m) - {k}"
  by (auto simp: bm_keys_def bm_remove_def)

lemma map_fst_remove: "map fst (bm_remove k m) = filter (\<lambda>x. x \<noteq> k) (map fst m)"
  by (induction m) (auto simp: bm_remove_def)

lemma map_fst_insort: "map fst (insort_key fst p m) = insort (fst p) (map fst m)"
  by (induction m) auto

lemma bm_wf_empty [simp]: "bm_wf []"
  by (simp add: bm_wf_def)

lemma bm_wf_remove: "bm_wf m \<Longrightarrow> bm_wf (bm_remove k m)"
  by (simp add: bm_wf_def map_fst_remove sorted_filter [where f = id, simplified])

lemma bm_wf_insert: "bm_wf m \<Longrightarrow> bm_wf (bm_insert k v m)"
  by (auto simp: bm_wf_def bm_insert_def map_fst_insort map_fst_remove sorted_insort
      distinct_insort sorted_filter [where f = id, simplified])

lemma bm_wf_of_list: "bm_wf (bm_of_list ps)"
proof -
  have "bm_wf m \<Longrightarrow> bm_wf (fold (\<lambda>(k, v). bm_insert k v) ps m)" for m :: "('a, 'b) bmap"
    by (induction ps arbitrary: m) (auto simp: bm_wf_insert)
  then show ?thesis by (simp add: bm_of_list_def)
qed

lemma bm_get_Some_iff: "bm_wf m \<Longrightarrow> bm_get m k = Some v \<longleftrightarrow> (k, v) \<in> set m"
  by (simp add: bm_wf_def bm_get_def)

lemma set_bs_insert [bmap_simps]: "set (bs_insert x s) = insert x (set s)"
  by (auto simp: bs_insert_def set_insort_key)

lemma set_bs_remove [bmap_simps]: "set (bs_remove x s) = set s - {x}"
  by (auto simp: bs_remove_def)

lemma bs_wf_insert: "bs_wf s \<Longrightarrow> bs_wf (bs_insert x s)"
  by (auto simp: bs_wf_def bs_insert_def sorted_insort distinct_insort)

lemma bs_wf_remove: "bs_wf s \<Longrightarrow> bs_wf (bs_remove x s)"
  by (auto simp: bs_wf_def bs_remove_def sorted_filter [where f = id, simplified])

lemma set_bs_of_list [bmap_simps]: "set (bs_of_list xs) = set xs"
proof -
  have "set (fold bs_insert xs s) = set s \<union> set xs" for s :: "'a bset"
    by (induction xs arbitrary: s) (auto simp: bmap_simps)
  then show ?thesis by (simp add: bs_of_list_def)
qed

lemma bs_wf_of_list: "bs_wf (bs_of_list xs)"
proof -
  have "bs_wf s \<Longrightarrow> bs_wf (fold bs_insert xs s)" for s :: "'a bset"
    by (induction xs arbitrary: s) (auto simp: bs_wf_insert)
  then show ?thesis by (simp add: bs_of_list_def bs_wf_def)
qed

text \<open>Sums over the entries of a map, used for totals of reservations and of permits.\<close>

lemma sum_list_bm_insert:
  "sum_list (map f (bm_insert k v m)) = f (k, v) + sum_list (map f (bm_remove k m))"
  for f :: "_ \<Rightarrow> nat"
proof -
  have "sum_list (map f (insort_key fst p xs)) = f p + sum_list (map f xs)" for p xs
    by (induction xs) auto
  then show ?thesis by (simp add: bm_insert_def)
qed

lemma sum_list_bm_remove_le: "sum_list (map f (bm_remove k m)) \<le> sum_list (map f m)"
  for f :: "_ \<Rightarrow> nat"
  by (induction m) (auto simp: bm_remove_def)

lemma sum_list_bm_get_le:
  "bm_get m k = Some v \<Longrightarrow> f (k, v) + sum_list (map f (bm_remove k m)) \<le> sum_list (map f m)"
  for f :: "_ \<Rightarrow> nat"
proof (induction m)
  case (Cons p m)
  then show ?case
    using sum_list_bm_remove_le [of f k m]
    by (cases p) (auto simp: bm_get_def bm_remove_def split: if_splits)
qed (simp add: bm_get_def)

lemma bm_remove_absent: "bm_get m k = None \<Longrightarrow> bm_remove k m = m"
  by (induction m) (auto simp: bm_get_def bm_remove_def split: if_splits)

lemma sum_list_bm_remove:
  "bm_wf m \<Longrightarrow> bm_get m k = Some v \<Longrightarrow>
   sum_list (map f m) = f (k, v) + sum_list (map f (bm_remove k m))"
  for f :: "_ \<Rightarrow> nat"
proof (induction m)
  case (Cons p m)
  have wf: "bm_wf m" and fresh: "fst p \<notin> fst ` set m"
    using Cons.prems(1) by (auto simp: bm_wf_def)
  show ?case
  proof (cases "fst p = k")
    case True
    then have "bm_get m k = None"
      using fresh by (auto simp: bm_get_def map_of_eq_None_iff)
    with True Cons.prems(2) show ?thesis
      by (cases p) (simp add: bm_get_def bm_remove_def bm_remove_absent [unfolded bm_remove_def bm_get_def])
  next
    case False
    with Cons.prems(2) have "bm_get m k = Some v"
      by (cases p) (simp add: bm_get_def)
    with Cons.IH [OF wf] False show ?thesis
      by (simp add: bm_remove_def)
  qed
qed (simp add: bm_get_def)

text \<open>
  The interface the components rely on, with its laws; the list implementation above provides it.
\<close>

locale ordered_map =
  fixes empty :: "'m"
    and get :: "'m \<Rightarrow> 'k::linorder \<Rightarrow> 'v option"
    and ins :: "'k \<Rightarrow> 'v \<Rightarrow> 'm \<Rightarrow> 'm"
    and del :: "'k \<Rightarrow> 'm \<Rightarrow> 'm"
    and keys :: "'m \<Rightarrow> 'k list"
    and wf :: "'m \<Rightarrow> bool"
  assumes get_empty: "get empty k = None"
    and get_ins: "get (ins k v m) k' = (if k' = k then Some v else get m k')"
    and get_del: "get (del k m) k' = (if k' = k then None else get m k')"
    and keys_get: "k \<in> set (keys m) \<longleftrightarrow> get m k \<noteq> None"
    and wf_empty: "wf empty"
    and wf_ins: "wf m \<Longrightarrow> wf (ins k v m)"
    and wf_del: "wf m \<Longrightarrow> wf (del k m)"
    and wf_keys: "wf m \<Longrightarrow> sorted (keys m) \<and> distinct (keys m)"
begin

lemma del_ins_fresh: "get m k = None \<Longrightarrow> get (del k (ins k v m)) = get m"
  by (auto simp: get_ins get_del fun_eq_iff split: if_splits)

lemma ins_commute: "k \<noteq> k' \<Longrightarrow> get (ins k v (ins k' v' m)) = get (ins k' v' (ins k v m))"
  by (auto simp: get_ins fun_eq_iff)

lemma keys_ins: "set (keys (ins k v m)) = insert k (set (keys m))"
  by (auto simp: keys_get get_ins split: if_splits)

lemma keys_determined: "wf m \<Longrightarrow> keys m = sorted_list_of_set {k. get m k \<noteq> None}"
proof -
  assume "wf m"
  have "{k. get m k \<noteq> None} = set (keys m)"
    by (auto simp: keys_get)
  then show ?thesis
    using wf_keys [OF \<open>wf m\<close>] by (simp add: sorted_list_of_set.idem_if_sorted_distinct)
qed

end

interpretation bmap: ordered_map "[]" bm_get bm_insert bm_remove bm_keys bm_wf
proof
  show "k \<in> set (bm_keys m) \<longleftrightarrow> bm_get m k \<noteq> None" for k :: 'a and m :: "('a, 'b) bmap"
    by (simp add: bm_contains_keys [symmetric] bm_contains_def)
  show "bm_wf m \<Longrightarrow> sorted (bm_keys m) \<and> distinct (bm_keys m)" for m :: "('a, 'b) bmap"
    by (simp add: bm_wf_def bm_keys_def)
qed (simp_all add: bmap_simps bm_wf_insert bm_wf_remove)

text \<open>A list that is already ordered is its own map.\<close>

lemma insort_key_last:
  "\<forall>p \<in> set xs. fst p < k \<Longrightarrow> insort_key fst (k, v) xs = xs @ [(k, v)]"
  by (induction xs) auto

lemma bm_of_list_id: "bm_wf m \<Longrightarrow> bm_of_list m = m"
proof -
  have "bm_wf (acc @ ps) \<Longrightarrow> fold (\<lambda>(k, v). bm_insert k v) ps acc = acc @ ps"
    for acc ps :: "('a, 'b) bmap"
  proof (induction ps arbitrary: acc)
    case (Cons p ps)
    obtain k v where p: "p = (k, v)" by (cases p)
    have lt: "\<forall>q \<in> set acc. fst q < k"
      using Cons.prems by (auto simp: p bm_wf_def sorted_append less_le)
    then have "bm_remove k acc = acc"
      by (auto simp: bm_remove_def filter_id_conv)
    with lt have "bm_insert k v acc = acc @ [(k, v)]"
      by (simp add: bm_insert_def insort_key_last)
    with Cons.IH [of "acc @ [(k, v)]"] Cons.prems show ?case
      by (simp add: p)
  qed simp
  from this [of "[]" m] show "bm_wf m \<Longrightarrow> bm_of_list m = m"
    by (simp add: bm_of_list_def)
qed

lemma bm_remove_insert: "bm_get m k = None \<Longrightarrow> bm_remove k (bm_insert k v m) = m"
proof -
  assume a: "bm_get m k = None"
  have "filter (\<lambda>p. fst p \<noteq> k) (insort_key fst (k, v) xs) = filter (\<lambda>p. fst p \<noteq> k) xs" for xs
    by (induction xs) auto
  then show ?thesis
    using bm_remove_absent [OF a] by (simp add: bm_insert_def bm_remove_def)
qed

section \<open>Counters\<close>

text \<open>A map of \<open>u32\<close> counters; a missing entry counts as zero, and \<open>+=\<close> wraps as in a release build.\<close>

definition amount_of :: "('k, u32) bmap \<Rightarrow> 'k \<Rightarrow> u32" where
  "amount_of m r = unwrap_or (bm_get m r) 0"

definition add_amount :: "('k::linorder \<times> u32) \<Rightarrow> ('k, u32) bmap \<Rightarrow> ('k, u32) bmap" where
  "add_amount claim m =
     (case claim of (resource, amount) \<Rightarrow>
        bm_insert resource (unwrap_or (bm_get m resource) 0 + amount) m)"

lemma amount_of_remove_keys: "r \<notin> fst ` set m \<Longrightarrow> amount_of m r = 0"
  using map_of_eq_None_iff [of m r] by (simp add: amount_of_def bm_get_def)

lemma amount_of_fold_add:
  "distinct (map fst claims) \<Longrightarrow>
   amount_of (fold add_amount claims m) r = amount_of m r + amount_of claims r"
proof (induction claims arbitrary: m)
  case (Cons p claims)
  obtain k a where p: "p = (k, a)" by (cases p)
  have fresh: "k \<notin> fst ` set claims" and IH: "amount_of (fold add_amount claims m') r = amount_of m' r + amount_of claims r" for m'
    using Cons by (simp_all add: p)
  have "amount_of (add_amount (k, a) m) r = amount_of m r + (if r = k then a else 0)"
    by (simp add: add_amount_def amount_of_def bm_get_insert)
  moreover have "amount_of ((k, a) # claims) r = amount_of claims r + (if r = k then a else 0)"
    using amount_of_remove_keys [OF fresh] by (auto simp: amount_of_def bm_get_def)
  ultimately show ?case by (simp add: p IH)
qed (simp add: amount_of_def bm_get_def)

text \<open>
  The contract of a pool of permits: in a state that satisfies the invariant, the claims of the
  tickets handed out stay within the limit of each resource. Then no two tickets together exceed
  a limit, and a resource with one permit has at most one holder.
\<close>

locale permit_pool =
  fixes pool_inv :: "'s \<Rightarrow> 't list \<Rightarrow> bool"
    and limit :: "'s \<Rightarrow> 'r \<Rightarrow> nat"
    and claim :: "'t \<Rightarrow> 'r \<Rightarrow> nat"
  assumes within: "pool_inv s held \<Longrightarrow> sum_list (map (\<lambda>t. claim t r) held) \<le> limit s r"
begin

lemma pair_within:
  assumes "pool_inv s held" and "i < j" and "j < length held"
  shows "claim (held ! i) r + claim (held ! j) r \<le> limit s r"
proof -
  let ?f = "\<lambda>t. claim t r"
  have "drop (Suc i) held ! (j - Suc i) = held ! j" "j - Suc i < length (drop (Suc i) held)"
    using assms(2,3) by auto
  then have "held ! j \<in> set (drop (Suc i) held)" by (metis nth_mem)
  then have "?f (held ! j) \<le> sum_list (map ?f (drop (Suc i) held))"
    by (intro member_le_sum_list) auto
  moreover have "sum_list (map ?f held) =
      sum_list (map ?f (take i held)) + (?f (held ! i) + sum_list (map ?f (drop (Suc i) held)))"
    using assms(2,3) by (subst id_take_nth_drop [of i held]) simp_all
  ultimately show ?thesis using within [OF assms(1), of r] by linarith
qed

lemma one_holder:
  assumes "pool_inv s held" and "limit s r \<le> 1" and "i < length held" and "j < length held"
    and "0 < claim (held ! i) r" and "0 < claim (held ! j) r"
  shows "i = j"
proof (rule ccontr)
  assume "i \<noteq> j"
  then consider "i < j" | "j < i" by linarith
  then have "claim (held ! i) r + claim (held ! j) r \<le> limit s r"
    using pair_within [OF assms(1), of i j r] pair_within [OF assms(1), of j i r] assms(3,4)
    by cases (simp_all add: add.commute)
  with assms show False by simp
qed

end

section \<open>Systems with an invariant\<close>

text \<open>
  The contract of a component with state: it starts in a state that satisfies the invariant, and
  every operation keeps it. The invariant then holds after every sequence of operations.
\<close>

locale invariant_system =
  fixes start :: "'s \<Rightarrow> bool"
    and step :: "'s \<Rightarrow> 's \<Rightarrow> bool"
    and inv :: "'s \<Rightarrow> bool"
  assumes start_inv: "start s \<Longrightarrow> inv s"
    and step_inv: "step s t \<Longrightarrow> inv s \<Longrightarrow> inv t"
begin

lemma steps_inv: "step\<^sup>*\<^sup>* s t \<Longrightarrow> inv s \<Longrightarrow> inv t"
  by (induction rule: rtranclp_induct) (auto intro: step_inv)

lemma reach_inv: "start s \<Longrightarrow> step\<^sup>*\<^sup>* s t \<Longrightarrow> inv t"
  by (auto intro: steps_inv start_inv)

end

end
