(* ===== verification/Rust_Strings.thy ===== *)
theory Rust_Strings
  imports Prelude
begin

text \<open>
  The functions of \<^verbatim>\<open>str\<close> and \<^verbatim>\<open>char\<close> that the components call, on
  strings as lists of UTF-8 bytes. Patterns are ASCII wherever the code uses one, so that a match
  of bytes is a match of characters; \<open>trim\<close> strips all of Unicode's white space, given by its
  UTF-8 encodings.
\<close>

section \<open>Prefixes, suffixes, occurrences\<close>

fun strip_prefix :: "string \<Rightarrow> string \<Rightarrow> string option" where
  "strip_prefix [] s = Some s"
| "strip_prefix (p # ps) [] = None"
| "strip_prefix (p # ps) (c # s) = (if p = c then strip_prefix ps s else None)"

definition starts_with :: "string \<Rightarrow> string \<Rightarrow> bool" where
  "starts_with s p \<longleftrightarrow> strip_prefix p s \<noteq> None"

definition ends_with :: "string \<Rightarrow> string \<Rightarrow> bool" where
  "ends_with s p \<longleftrightarrow> starts_with (rev s) (rev p)"

fun str_contains :: "string \<Rightarrow> string \<Rightarrow> bool" where
  "str_contains [] p = (p = [])"
| "str_contains (c # s) p = (starts_with (c # s) p \<or> str_contains s p)"

lemma strip_prefix_Some_iff: "strip_prefix p s = Some r \<longleftrightarrow> s = p @ r"
  by (induction p s rule: strip_prefix.induct) auto

lemma strip_prefix_append [simp]: "strip_prefix p (p @ r) = Some r"
  by (simp add: strip_prefix_Some_iff)

lemma starts_with_iff: "starts_with s p \<longleftrightarrow> (\<exists>r. s = p @ r)"
  by (auto simp: starts_with_def strip_prefix_Some_iff)

lemma starts_with_Nil [simp]: "starts_with s []"
  by (simp add: starts_with_def)

lemma starts_with_Cons [simp]:
  "starts_with [] (p # ps) \<longleftrightarrow> False"
  "starts_with (c # s) (p # ps) \<longleftrightarrow> p = c \<and> starts_with s ps"
  by (auto simp: starts_with_def)

lemma ends_with_iff: "ends_with s p \<longleftrightarrow> (\<exists>r. s = r @ p)"
  by (metis ends_with_def rev_append rev_rev_ident starts_with_iff)

lemma str_contains_iff: "str_contains s p \<longleftrightarrow> (\<exists>l r. s = l @ p @ r)"
proof (induction s)
  case (Cons c s)
  show ?case
    by (auto simp: Cons.IH starts_with_iff Cons_eq_append_conv)
qed simp

section \<open>Trimming\<close>

function trim_start_matches :: "string \<Rightarrow> string \<Rightarrow> string" where
  "trim_start_matches p s =
     (if p = [] then s
      else case strip_prefix p s of None \<Rightarrow> s | Some r \<Rightarrow> trim_start_matches p r)"
  by pat_completeness auto
termination
  by (relation "measure (\<lambda>(p, s). length s)") (auto simp: strip_prefix_Some_iff)

declare trim_start_matches.simps [simp del]

definition trim_end_matches :: "string \<Rightarrow> string \<Rightarrow> string" where
  "trim_end_matches p s = rev (trim_start_matches (rev p) (rev s))"

definition trim_matches :: "char \<Rightarrow> string \<Rightarrow> string" where
  "trim_matches c s = trim_end_matches [c] (trim_start_matches [c] s)"

text \<open>
  The characters with the property \<^verbatim>\<open>White_Space\<close>: U+0009 to U+000D, U+0020, U+0085,
  U+00A0, U+1680, U+2000 to U+200A, U+2028, U+2029, U+202F, U+205F and U+3000.
\<close>

definition ws_seqs :: "string list" where
  "ws_seqs = map (map (char_of :: nat \<Rightarrow> char))
     ([[9], [10], [11], [12], [13], [32], [194, 133], [194, 160], [225, 154, 128]]
      @ map (\<lambda>k. [226, 128, k]) [128..<139]
      @ [[226, 128, 168], [226, 128, 169], [226, 128, 175], [226, 129, 159], [227, 128, 128]])"

definition strip_one :: "string list \<Rightarrow> string \<Rightarrow> string option" where
  "strip_one ws s = (case find (starts_with s) ws of None \<Rightarrow> None | Some w \<Rightarrow> strip_prefix w s)"

function trim_by :: "string list \<Rightarrow> string \<Rightarrow> string" where
  "trim_by ws s =
     (case strip_one ws s of
        None \<Rightarrow> s
      | Some r \<Rightarrow> if length r < length s then trim_by ws r else s)"
  by pat_completeness auto
termination
  by (relation "measure (\<lambda>(ws, s). length s)") auto

declare trim_by.simps [simp del]

definition trim_start :: "string \<Rightarrow> string" where
  "trim_start s = trim_by ws_seqs s"

definition trim_end :: "string \<Rightarrow> string" where
  "trim_end s = rev (trim_by (map rev ws_seqs) (rev s))"

definition trim :: "string \<Rightarrow> string" where
  "trim s = trim_end (trim_start s)"

text \<open>The number of maximal runs without white space, \<open>split_whitespace().count()\<close>.\<close>

function words_from :: "bool \<Rightarrow> string \<Rightarrow> nat" where
  "words_from in_word [] = (if in_word then 1 else 0)"
| "words_from in_word (c # s) =
     (case strip_one ws_seqs (c # s) of
        Some r \<Rightarrow> (if in_word then 1 else 0)
                  + (if length r < length (c # s) then words_from False r else 0)
      | None \<Rightarrow> words_from True s)"
  by pat_completeness auto
termination
  by (relation "measure (\<lambda>(b, s). length s)") auto

definition word_count :: "string \<Rightarrow> nat" where
  "word_count s = words_from False s"

section \<open>Replacing and splitting\<close>

definition replace_char :: "char \<Rightarrow> char \<Rightarrow> string \<Rightarrow> string" where
  "replace_char c d s = map (\<lambda>x. if x = c then d else x) s"

text \<open>One pass of \<open>replace("//", "/")\<close>, and the loop that repeats it while \<open>"//"\<close> occurs.\<close>

fun replace_double_slash :: "string \<Rightarrow> string" where
  "replace_double_slash (a # b # s) =
     (if a = CHR ''/'' \<and> b = CHR ''/'' then CHR ''/'' # replace_double_slash s
      else a # replace_double_slash (b # s))"
| "replace_double_slash s = s"

lemma length_replace_double_slash: "length (replace_double_slash s) \<le> length s"
  by (induction s rule: replace_double_slash.induct) auto

lemma replace_double_slash_shrinks:
  "str_contains s ''//'' \<Longrightarrow> length (replace_double_slash s) < length s"
proof (induction s rule: replace_double_slash.induct)
  case (1 a b s)
  show ?case
  proof (cases "a = CHR ''/'' \<and> b = CHR ''/''")
    case True
    then show ?thesis using length_replace_double_slash [of s] by simp
  next
    case False
    with 1 show ?thesis by auto
  qed
qed auto

function collapse_slashes :: "string \<Rightarrow> string" where
  "collapse_slashes s =
     (if str_contains s ''//'' then collapse_slashes (replace_double_slash s) else s)"
  by pat_completeness auto
termination
  by (relation "measure length") (auto simp: replace_double_slash_shrinks)

declare collapse_slashes.simps [simp del]

lemma collapse_slashes_no_double: "\<not> str_contains (collapse_slashes s) ''//''"
  by (induction s rule: collapse_slashes.induct) (simp add: collapse_slashes.simps)

lemma collapse_slashes_id: "\<not> str_contains s ''//'' \<Longrightarrow> collapse_slashes s = s"
  by (simp add: collapse_slashes.simps)

text \<open>\<open>str::split\<close> at a character, \<open>split_once\<close> and \<open>rsplit_once\<close>.\<close>

fun split_acc :: "char \<Rightarrow> string \<Rightarrow> string \<Rightarrow> string list" where
  "split_acc c acc [] = [rev acc]"
| "split_acc c acc (x # s) = (if x = c then rev acc # split_acc c [] s else split_acc c (x # acc) s)"

definition split_char :: "char \<Rightarrow> string \<Rightarrow> string list" where
  "split_char c s = split_acc c [] s"

fun split_once :: "string \<Rightarrow> string \<Rightarrow> (string \<times> string) option" where
  "split_once p [] = (if p = [] then Some ([], []) else None)"
| "split_once p (c # s) =
     (case strip_prefix p (c # s) of
        Some r \<Rightarrow> Some ([], r)
      | None \<Rightarrow> map_option (\<lambda>(l, r). (c # l, r)) (split_once p s))"

definition rsplit_once :: "char \<Rightarrow> string \<Rightarrow> (string \<times> string) option" where
  "rsplit_once c s =
     (if c \<in> set s
      then Some (rev (tl (dropWhile (\<lambda>x. x \<noteq> c) (rev s))), rev (takeWhile (\<lambda>x. x \<noteq> c) (rev s)))
      else None)"

fun join_with :: "string \<Rightarrow> string list \<Rightarrow> string" where
  "join_with sep [] = []"
| "join_with sep [x] = x"
| "join_with sep (x # y # xs) = x @ sep @ join_with sep (y # xs)"

lemma split_acc_nonempty: "split_acc c acc s \<noteq> []"
  by (induction s arbitrary: acc) auto

lemma join_split_acc: "join_with [c] (split_acc c acc s) = rev acc @ s"
proof (induction s arbitrary: acc)
  case (Cons x s)
  obtain y ys where "split_acc c [] s = y # ys"
    using split_acc_nonempty [of c "[]" s] by (cases "split_acc c [] s") auto
  with Cons [of "[]"] Cons [of "x # acc"] show ?case by simp
qed simp

lemma join_split_char: "join_with [c] (split_char c s) = s"
  by (simp add: split_char_def join_split_acc)

lemma split_acc_no_sep: "c \<notin> set seg \<Longrightarrow> split_acc c acc seg = [rev acc @ seg]"
  by (induction seg arbitrary: acc) auto

lemma split_acc_append:
  "c \<notin> set seg \<Longrightarrow> split_acc c acc (seg @ c # s) = (rev acc @ seg) # split_acc c [] s"
  by (induction seg arbitrary: acc) auto

lemma split_join:
  "segs \<noteq> [] \<Longrightarrow> \<forall>seg \<in> set segs. c \<notin> set seg \<Longrightarrow> split_char c (join_with [c] segs) = segs"
  unfolding split_char_def
proof (induction "[c]" segs rule: join_with.induct)
  case (2 x)
  then show ?case by (simp add: split_acc_no_sep)
next
  case (3 x y xs)
  then show ?case by (simp add: split_acc_append)
qed simp

lemma split_acc_sep_free: "c \<notin> set acc \<Longrightarrow> seg \<in> set (split_acc c acc s) \<Longrightarrow> c \<notin> set seg"
proof (induction s arbitrary: acc)
  case (Cons x s)
  show ?case
    using Cons.prems Cons.IH [of "[]"] Cons.IH [of "x # acc"] by (cases "x = c") auto
qed simp

section \<open>Characters and numbers\<close>

definition is_ascii_digit :: "char \<Rightarrow> bool" where
  "is_ascii_digit c \<longleftrightarrow> CHR ''0'' \<le> c \<and> c \<le> CHR ''9''"

definition is_ascii_alphanumeric :: "char \<Rightarrow> bool" where
  "is_ascii_alphanumeric c \<longleftrightarrow>
     is_ascii_digit c \<or> (CHR ''a'' \<le> c \<and> c \<le> CHR ''z'') \<or> (CHR ''A'' \<le> c \<and> c \<le> CHR ''Z'')"

definition to_ascii_lowercase :: "string \<Rightarrow> string" where
  "to_ascii_lowercase s =
     map (\<lambda>c. if CHR ''A'' \<le> c \<and> c \<le> CHR ''Z'' then char_of ((of_char c :: nat) + 32) else c) s"

text \<open>The bytes of the first character of a string, by its leading byte.\<close>

definition first_char :: "string \<Rightarrow> string" where
  "first_char s =
     (case s of
        [] \<Rightarrow> []
      | c # _ \<Rightarrow> let b = (of_char c :: nat)
                 in take (if b < 128 then 1 else if b < 224 then 2 else if b < 240 then 3 else 4) s)"

definition digit_char :: "nat \<Rightarrow> char" where
  "digit_char d = char_of (48 + d)"

fun dec :: "nat \<Rightarrow> string" where
  "dec n = (if n < 10 then [digit_char n] else dec (n div 10) @ [digit_char (n mod 10)])"

declare dec.simps [simp del]

definition digit_val :: "char \<Rightarrow> nat" where
  "digit_val c = of_char c - 48"

definition dec_value :: "string \<Rightarrow> nat" where
  "dec_value s = foldl (\<lambda>acc c. 10 * acc + digit_val c) 0 s"

text \<open>\<open>parse\<close> of an unsigned decimal with \<open>w\<close> bits on a string of ASCII digits.\<close>

definition parse_digits :: "nat \<Rightarrow> string \<Rightarrow> nat option" where
  "parse_digits w s =
     (if s \<noteq> [] \<and> list_all is_ascii_digit s \<and> dec_value s < 2 ^ w then Some (dec_value s) else None)"

lemma of_char_digit_char: "d < 10 \<Longrightarrow> of_char (digit_char d) = (48 + d :: nat)"
  by (simp add: digit_char_def)

lemma is_ascii_digit_iff: "is_ascii_digit c \<longleftrightarrow> 48 \<le> (of_char c :: nat) \<and> (of_char c :: nat) \<le> 57"
  by (simp add: is_ascii_digit_def less_eq_char_def)

lemma dec_digits: "list_all is_ascii_digit (dec n) \<and> dec n \<noteq> [] \<and> dec_value (dec n) = n"
proof (induction n rule: dec.induct)
  case (1 n)
  show ?case
  proof (cases "n < 10")
    case True
    then show ?thesis
      by (simp add: dec.simps [of n] dec_value_def digit_val_def of_char_digit_char is_ascii_digit_iff)
  next
    case False
    with 1 show ?thesis
      by (simp add: dec.simps [of n] dec_value_def digit_val_def of_char_digit_char is_ascii_digit_iff)
  qed
qed

lemma parse_digits_dec: "n < 2 ^ w \<Longrightarrow> parse_digits w (dec n) = Some n"
  using dec_digits [of n] by (simp add: parse_digits_def)

text \<open>The bytes of a digest in lower-case hexadecimal, the format \<^verbatim>\<open>{:x}\<close>.\<close>

definition hex_digit :: "nat \<Rightarrow> char" where
  "hex_digit d = (if d < 10 then char_of (48 + d) else char_of (87 + d))"

definition hex_bytes :: "string \<Rightarrow> string" where
  "hex_bytes s = concat (map (\<lambda>c. [hex_digit (of_char c div 16), hex_digit (of_char c mod 16)]) s)"

text \<open>Trimming does not touch a string that begins and ends with a printable ASCII character.\<close>

definition printable :: "char \<Rightarrow> bool" where
  "printable c \<longleftrightarrow> 32 < (of_char c :: nat) \<and> (of_char c :: nat) < 127"

lemma ws_not_printable: "list_all (\<lambda>w. w \<noteq> [] \<and> \<not> printable (hd w) \<and> \<not> printable (last w)) ws_seqs"
  by (simp add: ws_seqs_def printable_def upt_conv_Cons)

lemma trim_by_printable:
  assumes "list_all (\<lambda>w. w \<noteq> [] \<and> \<not> printable (hd w)) ws" and "printable c"
  shows "trim_by ws (c # s) = c # s"
proof -
  have "find (starts_with (c # s)) ws = None"
    using assms by (auto simp: find_None_iff list_all_iff starts_with_iff Cons_eq_append_conv)
  then show ?thesis by (subst trim_by.simps) (simp add: strip_one_def)
qed

lemma trim_printable: "printable (hd s) \<Longrightarrow> printable (last s) \<Longrightarrow> trim s = s"
proof (cases s)
  case (Cons c r)
  assume p: "printable (hd s)" "printable (last s)"
  have "trim_start s = s"
    unfolding trim_start_def Cons using p(1) ws_not_printable
    by (intro trim_by_printable) (auto simp: Cons list_all_iff)
  moreover have "trim_by (map rev ws_seqs) (rev s) = rev s"
  proof (cases "rev s")
    case (Cons l b)
    then have "last s = l" by (metis hd_rev list.sel(1))
    then show ?thesis
      unfolding Cons using p(2) ws_not_printable by (intro trim_by_printable) (auto simp: list_all_iff hd_rev)
  qed (simp add: Cons)
  ultimately show ?thesis by (simp add: trim_def trim_end_def)
qed (simp add: trim_def trim_start_def trim_end_def trim_by.simps strip_one_def ws_seqs_def starts_with_def)
end
