(* ===== verification/Graph_Types.thy ===== *)
theory Graph_Types
  imports Rust_Strings
begin

text \<open>
  The data model of AgentGraph, \<^verbatim>\<open>agent_graph/types.rs\<close>: graph specifications with
  their nodes, edges and policies, node and run statuses, usage accounting and node outputs. Each
  struct is a record whose fields carry a prefix for the struct (record fields are global
  constants), each enum a datatype whose constructors carry a prefix for the enum. The attributes
  of \<^verbatim>\<open>serde\<close> say how the data is read and written; only the default values they name
  are part of the model. A \<^verbatim>\<open>serde_json::Value\<close> is the datatype \<open>json\<close>, an object
  being the association list of its entries in insertion order.
\<close>

section \<open>JSON values\<close>

datatype json_number = PosInt u64 | NegInt int | Float f64

datatype json =
    JNull
  | JBool bool
  | JNumber json_number
  | JString string
  | JArray "json list"
  | JObject "(string \<times> json) list"

fun json_number_eq :: "json_number \<Rightarrow> json_number \<Rightarrow> bool" where
  "json_number_eq (PosInt a) (PosInt b) = (a = b)"
| "json_number_eq (NegInt a) (NegInt b) = (a = b)"
| "json_number_eq (Float a) (Float b) = f64_eq a b"
| "json_number_eq a b = False"

text \<open>Equality of values; the order of an object's entries does not matter.\<close>

fun json_eq :: "json \<Rightarrow> json \<Rightarrow> bool"
  and json_eq_list :: "json list \<Rightarrow> json list \<Rightarrow> bool"
  and json_sub_object :: "(string \<times> json) list \<Rightarrow> (string \<times> json) list \<Rightarrow> bool" where
  "json_eq JNull JNull = True"
| "json_eq (JBool a) (JBool b) = (a = b)"
| "json_eq (JNumber a) (JNumber b) = json_number_eq a b"
| "json_eq (JString a) (JString b) = (a = b)"
| "json_eq (JArray a) (JArray b) = json_eq_list a b"
| "json_eq (JObject a) (JObject b) = (length a = length b \<and> json_sub_object a b)"
| "json_eq a b = False"
| "json_eq_list [] [] = True"
| "json_eq_list (a # as) (b # bs) = (json_eq a b \<and> json_eq_list as bs)"
| "json_eq_list as bs = False"
| "json_sub_object [] b = True"
| "json_sub_object ((k, v) # a) b =
     ((case map_of b k of None \<Rightarrow> False | Some w \<Rightarrow> json_eq v w) \<and> json_sub_object a b)"

fun json_as_object :: "json \<Rightarrow> (string \<times> json) list option" where
  "json_as_object (JObject m) = Some m"
| "json_as_object v = None"

fun json_as_array :: "json \<Rightarrow> json list option" where
  "json_as_array (JArray xs) = Some xs"
| "json_as_array v = None"

fun json_as_f64 :: "json \<Rightarrow> f64 option" where
  "json_as_f64 (JNumber (PosInt n)) = Some (u64_as_f64 n)"
| "json_as_f64 (JNumber (NegInt i)) = Some (f64_round (of_int i))"
| "json_as_f64 (JNumber (Float x)) = Some x"
| "json_as_f64 v = None"

fun json_as_u64 :: "json \<Rightarrow> u64 option" where
  "json_as_u64 (JNumber (PosInt n)) = Some n"
| "json_as_u64 v = None"

section \<open>Identifiers and constants\<close>

type_synonym node_id = string
type_synonym edge_id = string
type_synonym schema_id = string
type_synonym resource_id = string
type_synonym tool_name = string
type_synonym json_path = string

definition AGENTGRAPH_API_VERSION :: string where
  "AGENTGRAPH_API_VERSION = ''bandicot.dev/v1alpha1''"

definition AGENTGRAPH_KIND :: string where
  "AGENTGRAPH_KIND = ''AgentGraph''"

definition AGENTGRAPH_SCHEMA_VERSION :: u32 where
  "AGENTGRAPH_SCHEMA_VERSION = 1"

section \<open>Enumerations\<close>

datatype orchestration_mode = OM_Standard | OM_Ultra | OM_Swarm

datatype capability_mode = CM_ReadOnly | CM_WorktreeWrite | CM_UnisolatedWrite | CM_ExternalEffect

datatype service_tier_preference = ST_Inherit | ST_Standard | ST_Fast

datatype effective_service_tier = ET_Standard | ET_Priority | ET_Other string

datatype setting_source = SS_Default | SS_Config | SS_Session | SS_Graph | SS_Node

record resolved_service_tier =
  rst_requested :: service_tier_preference
  rst_effective :: effective_service_tier
  rst_source :: setting_source
  rst_supported :: bool
  rst_reason :: "string option"

datatype reasoning_effort =
  RE_None | RE_Minimal | RE_Low | RE_Medium | RE_High | RE_Xhigh | RE_Max

datatype node_kind =
    NK_Deterministic | NK_Agent | NK_MapAgent | NK_ReduceAgent | NK_Verifier
  | NK_Router | NK_Barrier | NK_Approval | NK_Compensation | NK_Loop

datatype edge_kind =
  EK_Data | EK_Control | EK_Conditional | EK_Failure | EK_Verification | EK_Approval | EK_Compensation

datatype join_policy =
    JP_AllSuccess | JP_AllTerminal | JP_AnySuccess | JP_FirstValid
  | JP_Quorum | JP_MinimumSuccess | JP_DeadlineBestEffort

datatype node_status =
    NS_Pending | NS_Blocked | NS_Ready | NS_Leased | NS_Starting | NS_Running
  | NS_WaitingForApproval | NS_Succeeded | NS_Failed | NS_TimedOut | NS_Cancelled
  | NS_Skipped | NS_Stale | NS_Retrying | NS_Compensating

datatype run_status =
    RS_Draft | RS_Validating | RS_Validated | RS_AwaitingApproval | RS_Running | RS_Pausing
  | RS_Paused | RS_Draining | RS_Reducing | RS_Verifying | RS_Completed | RS_PartiallyCompleted
  | RS_Failed | RS_BudgetStopped | RS_Cancelled | RS_Compensating | RS_Compensated
  | RS_CompensationFailed | RS_ManualInterventionRequired

datatype external_effect =
    EE_FileWrite | EE_Network | EE_Database | EE_Deployment | EE_Publication
  | EE_CredentialChange | EE_DestructiveAction | EE_Other string

datatype network_mode = NM_Denied | NM_Allowlisted | NM_Unrestricted

datatype idempotency_policy = IP_Idempotent | IP_NonIdempotent

datatype cache_policy = CP_Disabled | CP_ReadOnly | CP_ReadWrite

datatype failure_policy = FP_FailGraph | FP_Continue | FP_SkipDownstream | FP_Compensate

datatype resource_kind = RK_CountedPermit | RK_ExclusiveLock

datatype finding_severity = FS_Low | FS_Medium | FS_High | FS_Critical

datatype test_result = TR_Passed | TR_Failed | TR_Skipped

text \<open>\<open>CapabilityMode\<close> derives \<open>Ord\<close>: the variants are ordered as they are declared.\<close>

fun capability_rank :: "capability_mode \<Rightarrow> nat" where
  "capability_rank CM_ReadOnly = 0"
| "capability_rank CM_WorktreeWrite = 1"
| "capability_rank CM_UnisolatedWrite = 2"
| "capability_rank CM_ExternalEffect = 3"

lemma capability_rank_inject: "capability_rank a = capability_rank b \<Longrightarrow> a = b"
  by (cases a; cases b) simp_all

instantiation capability_mode :: linorder
begin

definition less_eq_capability_mode :: "capability_mode \<Rightarrow> capability_mode \<Rightarrow> bool" where
  "less_eq_capability_mode a b \<longleftrightarrow> capability_rank a \<le> capability_rank b"

definition less_capability_mode :: "capability_mode \<Rightarrow> capability_mode \<Rightarrow> bool" where
  "less_capability_mode a b \<longleftrightarrow> capability_rank a < capability_rank b"

instance
  by standard
    (auto simp: less_eq_capability_mode_def less_capability_mode_def capability_rank_inject)

end

lemma capability_gt_ReadOnly [simp]: "CM_ReadOnly < c \<longleftrightarrow> c \<noteq> CM_ReadOnly"
  by (cases c) (simp_all add: less_capability_mode_def)

lemma capability_le_ExternalEffect [simp]: "c \<le> CM_ExternalEffect"
  by (cases c) (simp_all add: less_eq_capability_mode_def)

fun node_status_is_terminal :: "node_status \<Rightarrow> bool" where
  "node_status_is_terminal s =
     (s \<in> {NS_Succeeded, NS_Failed, NS_TimedOut, NS_Cancelled, NS_Skipped, NS_Stale})"

section \<open>Predicates, policies and specifications\<close>

datatype predicate =
    P_Equals json_path json
  | P_NotEquals json_path json
  | P_Exists json_path
  | P_GreaterThan json_path f64
  | P_LessThan json_path f64
  | P_In json_path "json list"
  | P_And "predicate list"
  | P_Or "predicate list"
  | P_Not predicate
  | P_StatusIs node_id node_status
  | P_SuccessCountAtLeast "node_id list" u32
  | P_DeadlineReached

record graph_metadata =
  gm_name :: string
  gm_graph_version :: u32
  gm_labels :: "(string, string) bmap"

record execution_policy =
  ep_orchestration_policy :: orchestration_mode
  ep_max_depth :: u32
  ep_max_total_nodes :: u32
  ep_max_active_model_calls :: u32
  ep_disable_nested_bandicot_agents :: bool
  ep_disable_provider_multi_agent_for_workers :: bool

definition default_execution_policy :: execution_policy where
  "default_execution_policy =
     \<lparr>ep_orchestration_policy = OM_Standard, ep_max_depth = 1, ep_max_total_nodes = 160,
      ep_max_active_model_calls = 1, ep_disable_nested_bandicot_agents = True,
      ep_disable_provider_multi_agent_for_workers = True\<rparr>"

record graph_budgets =
  gb_max_wall_time_seconds :: "u64 option"
  gb_max_input_tokens :: "u64 option"
  gb_max_cached_input_tokens :: "u64 option"
  gb_max_cache_write_tokens :: "u64 option"
  gb_max_output_tokens :: "u64 option"
  gb_max_reasoning_tokens :: "u64 option"
  gb_max_model_calls :: "u64 option"
  gb_max_tool_calls :: "u64 option"
  gb_max_node_attempts :: "u64 option"
  gb_max_generated_dynamic_nodes :: "u64 option"
  gb_max_loop_iterations :: "u64 option"
  gb_max_estimated_cost_usd :: "f64 option"
  gb_max_provider_reported_cost_usd :: "f64 option"
  gb_max_failures :: "u64 option"
  gb_max_failure_percentage :: "f64 option"
  gb_max_rate_limited :: "u64 option"
  gb_max_rate_limited_percentage :: "f64 option"
  gb_hard_stop :: bool

definition default_graph_budgets :: graph_budgets where
  "default_graph_budgets =
     \<lparr>gb_max_wall_time_seconds = None, gb_max_input_tokens = None,
      gb_max_cached_input_tokens = None, gb_max_cache_write_tokens = None,
      gb_max_output_tokens = None, gb_max_reasoning_tokens = None, gb_max_model_calls = None,
      gb_max_tool_calls = None, gb_max_node_attempts = None,
      gb_max_generated_dynamic_nodes = None, gb_max_loop_iterations = None,
      gb_max_estimated_cost_usd = None, gb_max_provider_reported_cost_usd = None,
      gb_max_failures = None, gb_max_failure_percentage = None, gb_max_rate_limited = None,
      gb_max_rate_limited_percentage = None, gb_hard_stop = False\<rparr>"

record node_defaults =
  nd_model_selector :: "string option"
  nd_reasoning_effort :: reasoning_effort
  nd_service_tier :: service_tier_preference
  nd_capability_mode :: capability_mode
  nd_timeout_seconds :: "u64 option"
  nd_max_tool_calls :: "u32 option"
  nd_max_input_tokens :: "u64 option"
  nd_max_output_tokens :: "u64 option"

definition default_node_defaults :: node_defaults where
  "default_node_defaults =
     \<lparr>nd_model_selector = None, nd_reasoning_effort = RE_Low, nd_service_tier = ST_Inherit,
      nd_capability_mode = CM_ReadOnly, nd_timeout_seconds = None, nd_max_tool_calls = None,
      nd_max_input_tokens = None, nd_max_output_tokens = None\<rparr>"

record input_binding =
  ib_from_node :: node_id
  ib_path :: json_path
  ib_required :: bool
  ib_schema_ref :: "schema_id option"

record edge_binding =
  eb_input :: string
  eb_path :: json_path
  eb_schema_ref :: "schema_id option"

record join_spec =
  js_policy :: join_policy
  js_required :: "u32 option"
  js_deadline_seconds :: "u64 option"

record edge_spec =
  es_id :: "edge_id option"
  es_from :: node_id
  es_to :: node_id
  es_kind :: edge_kind
  es_bindings :: "edge_binding list"
  es_join :: "join_spec option"
  es_condition :: "predicate option"

record map_spec =
  ms_from_node :: node_id
  ms_path :: json_path
  ms_expected_instances :: "u32 option"
  ms_max_generated_instances :: "u32 option"
  ms_deterministic_instance_ids :: bool
  ms_item_schema_ref :: "schema_id option"
  ms_output_schema_ref :: "schema_id option"

record reduce_spec =
  rs_from_node :: node_id
  rs_fan_in :: "u32 option"

record loop_spec =
  ls_max_iterations :: "u32 option"
  ls_max_generated_nodes :: "u32 option"
  ls_max_input_tokens :: "u64 option"
  ls_max_output_tokens :: "u64 option"
  ls_max_model_calls :: "u64 option"
  ls_max_wall_time_seconds :: "u64 option"
  ls_progress_metric :: "string option"
  ls_no_progress_limit :: "u32 option"
  ls_deduplication_key :: "string option"
  ls_terminal_predicate :: "predicate option"

record route_spec =
  rt_predicate :: predicate
  rt_to :: node_id
  rt_fallback :: bool

record network_policy =
  np_mode :: network_mode
  np_allowed_hosts :: "string list"

definition default_network_policy :: network_policy where
  "default_network_policy = \<lparr>np_mode = NM_Denied, np_allowed_hosts = []\<rparr>"

record retry_policy =
  rp_max_attempts :: u32
  rp_backoff_seconds :: "u64 option"
  rp_max_backoff_seconds :: "u64 option"
  rp_schedule_to_close_seconds :: "u64 option"
  rp_max_total_retry_delay_seconds :: "u64 option"
  rp_max_equivalent_failures :: "u32 option"
  rp_max_no_progress_retries :: "u32 option"
  rp_jitter_percent :: u8

definition default_retry_policy :: retry_policy where
  "default_retry_policy =
     \<lparr>rp_max_attempts = 1, rp_backoff_seconds = None, rp_max_backoff_seconds = None,
      rp_schedule_to_close_seconds = None, rp_max_total_retry_delay_seconds = None,
      rp_max_equivalent_failures = None, rp_max_no_progress_retries = None,
      rp_jitter_percent = 20\<rparr>"

record resource_definition =
  rd_kind :: resource_kind
  rd_limit :: u32

record resource_claim =
  rc_resource :: resource_id
  rc_amount :: u32

record evidence_requirement =
  er_kind :: string
  er_required :: bool

record verification_requirement =
  vr_kind :: string
  vr_required :: bool

record node_spec =
  ns_id :: node_id
  ns_kind :: node_kind
  ns_operation :: "string option"
  ns_objective :: string
  ns_definition_of_done :: "string list"
  ns_inputs :: "(string, input_binding) bmap"
  ns_output_schema :: "json option"
  ns_output_schema_ref :: "schema_id option"
  ns_read_set :: "string list"
  ns_write_set :: "string list"
  ns_external_effects :: "external_effect list"
  ns_capability_mode :: "capability_mode option"
  ns_tool_allowlist :: "tool_name list"
  ns_tool_denylist :: "tool_name list"
  ns_network_policy :: network_policy
  ns_credential_refs :: "string list"
  ns_model_selector :: "string option"
  ns_reasoning_effort :: "reasoning_effort option"
  ns_service_tier :: "service_tier_preference option"
  ns_max_input_tokens :: "u64 option"
  ns_max_output_tokens :: "u64 option"
  ns_max_tool_calls :: "u32 option"
  ns_timeout_seconds :: "u64 option"
  ns_start_deadline_seconds :: "u64 option"
  ns_retry_policy :: retry_policy
  ns_idempotency_policy :: idempotency_policy
  ns_cache_policy :: cache_policy
  ns_resource_claims :: "resource_claim list"
  ns_evidence_requirements :: "evidence_requirement list"
  ns_verification_requirements :: "verification_requirement list"
  ns_failure_policy :: failure_policy
  ns_compensation :: "node_id option"
  ns_estimated_duration_seconds :: "u64 option"
  ns_tags :: "string list"
  ns_map :: "map_spec option"
  ns_reduce :: "reduce_spec option"
  ns_loop_policy :: "loop_spec option"
  ns_routes :: "route_spec list"

text \<open>A node with an id, a kind and an objective; every other field has its serde default.\<close>

definition minimal_node :: "node_id \<Rightarrow> node_kind \<Rightarrow> string \<Rightarrow> node_spec" where
  "minimal_node nid kind objective =
     \<lparr>ns_id = nid, ns_kind = kind, ns_operation = None, ns_objective = objective,
      ns_definition_of_done = [], ns_inputs = [], ns_output_schema = None,
      ns_output_schema_ref = None, ns_read_set = [], ns_write_set = [], ns_external_effects = [],
      ns_capability_mode = None, ns_tool_allowlist = [], ns_tool_denylist = [],
      ns_network_policy = default_network_policy, ns_credential_refs = [],
      ns_model_selector = None, ns_reasoning_effort = None, ns_service_tier = None,
      ns_max_input_tokens = None, ns_max_output_tokens = None, ns_max_tool_calls = None,
      ns_timeout_seconds = None, ns_start_deadline_seconds = None,
      ns_retry_policy = default_retry_policy, ns_idempotency_policy = IP_Idempotent,
      ns_cache_policy = CP_Disabled, ns_resource_claims = [], ns_evidence_requirements = [],
      ns_verification_requirements = [], ns_failure_policy = FP_FailGraph,
      ns_compensation = None, ns_estimated_duration_seconds = None, ns_tags = [],
      ns_map = None, ns_reduce = None, ns_loop_policy = None, ns_routes = []\<rparr>"

record graph_spec_body =
  sb_objective :: string
  sb_execution :: execution_policy
  sb_budgets :: graph_budgets
  sb_defaults :: node_defaults
  sb_schemas :: "(schema_id, json) bmap"
  sb_templates :: "string bset"
  sb_model_selectors :: "string bset"
  sb_credential_refs :: "string bset"
  sb_resources :: "(resource_id, resource_definition) bmap"
  sb_nodes :: "node_spec list"
  sb_edges :: "edge_spec list"

record graph_spec =
  gs_api_version :: string
  gs_kind :: string
  gs_metadata :: graph_metadata
  gs_spec :: graph_spec_body

definition gs_schema_version :: "graph_spec \<Rightarrow> u32" where
  "gs_schema_version spec = gm_graph_version (gs_metadata spec)"

text \<open>An edge and a graph with every optional field at its serde default.\<close>

definition minimal_edge :: "node_id \<Rightarrow> node_id \<Rightarrow> edge_kind \<Rightarrow> edge_spec" where
  "minimal_edge from to kind =
     \<lparr>es_id = None, es_from = from, es_to = to, es_kind = kind, es_bindings = [], es_join = None,
      es_condition = None\<rparr>"

definition minimal_graph :: "node_spec list \<Rightarrow> edge_spec list \<Rightarrow> graph_spec" where
  "minimal_graph nodes edges =
     \<lparr>gs_api_version = AGENTGRAPH_API_VERSION, gs_kind = AGENTGRAPH_KIND,
      gs_metadata = \<lparr>gm_name = ''graph'', gm_graph_version = AGENTGRAPH_SCHEMA_VERSION, gm_labels = []\<rparr>,
      gs_spec =
        \<lparr>sb_objective = ''objective'', sb_execution = default_execution_policy,
         sb_budgets = default_graph_budgets, sb_defaults = default_node_defaults, sb_schemas = [],
         sb_templates = [], sb_model_selectors = [], sb_credential_refs = [], sb_resources = [],
         sb_nodes = nodes, sb_edges = edges\<rparr>\<rparr>"

section \<open>Methods of nodes and edges\<close>

definition effective_capability :: "node_spec \<Rightarrow> node_defaults \<Rightarrow> capability_mode" where
  "effective_capability node defaults =
     unwrap_or (ns_capability_mode node) (nd_capability_mode defaults)"

definition node_service_tier :: "node_spec \<Rightarrow> node_defaults \<Rightarrow> service_tier_preference" where
  "node_service_tier node defaults = unwrap_or (ns_service_tier node) (nd_service_tier defaults)"

definition expected_instance_count :: "node_spec \<Rightarrow> u32" where
  "expected_instance_count node =
     (case (ns_kind node, ns_map node) of
        (NK_MapAgent, Some m) \<Rightarrow>
          unwrap_or (opt_or (ms_expected_instances m) (ms_max_generated_instances m)) 1
      | _ \<Rightarrow> 1)"

definition is_model_worker_kind :: "node_kind \<Rightarrow> bool" where
  "is_model_worker_kind k \<longleftrightarrow>
     k \<in> {NK_Agent, NK_MapAgent, NK_ReduceAgent, NK_Verifier, NK_Router, NK_Loop, NK_Compensation}"

definition is_model_worker :: "node_spec \<Rightarrow> bool" where
  "is_model_worker node \<longleftrightarrow>
     ns_kind node \<in> {NK_Agent, NK_MapAgent, NK_ReduceAgent, NK_Verifier, NK_Router, NK_Loop,
       NK_Compensation}"

text \<open>The \<open>Debug\<close> form of an edge kind, the name of the variant.\<close>

fun edge_kind_debug :: "edge_kind \<Rightarrow> string" where
  "edge_kind_debug EK_Data = ''Data''"
| "edge_kind_debug EK_Control = ''Control''"
| "edge_kind_debug EK_Conditional = ''Conditional''"
| "edge_kind_debug EK_Failure = ''Failure''"
| "edge_kind_debug EK_Verification = ''Verification''"
| "edge_kind_debug EK_Approval = ''Approval''"
| "edge_kind_debug EK_Compensation = ''Compensation''"

definition stable_id :: "edge_spec \<Rightarrow> edge_id" where
  "stable_id edge =
     unwrap_or (es_id edge)
       (es_from edge @ ''--'' @ es_to edge @ ''--'' @ edge_kind_debug (es_kind edge))"

section \<open>Usage and outputs\<close>

record usage_accounting =
  ua_input_tokens :: u64
  ua_cached_input_tokens :: u64
  ua_cache_write_tokens :: u64
  ua_output_tokens :: u64
  ua_reasoning_tokens :: u64
  ua_model_calls :: u64
  ua_tool_calls :: u64
  ua_node_attempts :: u64
  ua_generated_dynamic_nodes :: u64
  ua_loop_iterations :: u64
  ua_estimated_cost_usd :: f64
  ua_provider_reported_cost_usd :: "f64 option"
  ua_failures :: u64
  ua_rate_limited :: u64

definition default_usage :: usage_accounting where
  "default_usage =
     \<lparr>ua_input_tokens = 0, ua_cached_input_tokens = 0, ua_cache_write_tokens = 0,
      ua_output_tokens = 0, ua_reasoning_tokens = 0, ua_model_calls = 0, ua_tool_calls = 0,
      ua_node_attempts = 0, ua_generated_dynamic_nodes = 0, ua_loop_iterations = 0,
      ua_estimated_cost_usd = Fin 0, ua_provider_reported_cost_usd = None, ua_failures = 0,
      ua_rate_limited = 0\<rparr>"

record evidence_ref =
  ev_path :: string
  ev_start_line :: "u32 option"
  ev_end_line :: "u32 option"
  ev_artifact :: "string option"

record node_finding =
  nf_claim :: string
  nf_severity :: finding_severity
  nf_evidence :: "evidence_ref list"

record command_run =
  cr_command :: string
  cr_exit_code :: int

record test_run =
  tr_command :: string
  tr_result :: test_result

record artifact_ref =
  ar_path :: string
  ar_sha256 :: "string option"

record node_output =
  no_schema_version :: u32
  no_graph_run_id :: string
  no_node_instance_id :: string
  no_attempt_id :: string
  no_status :: node_status
  no_summary :: string
  no_findings :: "node_finding list"
  no_files_read :: "string list"
  no_files_changed :: "string list"
  no_commands_run :: "command_run list"
  no_tests_run :: "test_run list"
  no_artifacts :: "artifact_ref list"
  no_assumptions :: "string list"
  no_blockers :: "string list"
  no_confidence :: f64

end
