(* ===== verification/Budget.thy ===== *)
theory Budget
  imports Graph_Types
begin

text \<open>
  Run budgets, \<^verbatim>\<open>agent_graph/budget.rs\<close>: the ledger with its charged usage, its
  open reservations and its stop reason; the limit checks; estimate, reserve, reconcile, release,
  stop, snapshot and the persistent form. An operation on \<open>&mut self\<close> returns the new ledger
  with its result, since \<open>reconcile\<close> changes the ledger also when it fails. Numbers that the code
  renders into an error message are kept as numbers (\<open>shown\<close>), and a stop reason that is the text
  of an error is kept as that error.

  The lemmas show that reservations never oversubscribe a limit, what each operation does on each
  branch, that a run whose workers stay within their reservations never leaves its limits, that a
  stopped ledger stays stopped, and that the persistent form restores the ledger.
\<close>

section \<open>Data\<close>

text \<open>A reservation id is ordered by its three components in turn.\<close>

type_synonym budget_reservation_id = "string \<times> string \<times> u32"

datatype shown = ShowU64 u64 | ShowF64 f64

datatype budget_error =
    Budget_Stopped stop_reason
  | Budget_Exceeded string shown shown shown
  | Reservation_Missing
and stop_reason = Reason_Text string | Reason_Error budget_error

record budget_snapshot =
  bsn_charged :: usage_accounting
  bsn_reserved :: usage_accounting
  bsn_active_reservations :: nat
  bsn_stopped :: bool
  bsn_stop_reason :: "stop_reason option"

record budget_persistent_state =
  bps_charged :: usage_accounting
  bps_reservations :: "(budget_reservation_id \<times> usage_accounting) list"
  bps_stopped :: "stop_reason option"

record budget_ledger =
  bl_limits :: graph_budgets
  bl_charged :: usage_accounting
  bl_reservations :: "(budget_reservation_id, usage_accounting) bmap"
  bl_stopped :: "stop_reason option"

section \<open>Operations\<close>

definition add_usage :: "usage_accounting \<Rightarrow> usage_accounting \<Rightarrow> usage_accounting" where
  "add_usage left right =
     \<lparr>ua_input_tokens = sat_add (ua_input_tokens left) (ua_input_tokens right),
      ua_cached_input_tokens = sat_add (ua_cached_input_tokens left) (ua_cached_input_tokens right),
      ua_cache_write_tokens = sat_add (ua_cache_write_tokens left) (ua_cache_write_tokens right),
      ua_output_tokens = sat_add (ua_output_tokens left) (ua_output_tokens right),
      ua_reasoning_tokens = sat_add (ua_reasoning_tokens left) (ua_reasoning_tokens right),
      ua_model_calls = sat_add (ua_model_calls left) (ua_model_calls right),
      ua_tool_calls = sat_add (ua_tool_calls left) (ua_tool_calls right),
      ua_node_attempts = sat_add (ua_node_attempts left) (ua_node_attempts right),
      ua_generated_dynamic_nodes =
        sat_add (ua_generated_dynamic_nodes left) (ua_generated_dynamic_nodes right),
      ua_loop_iterations = sat_add (ua_loop_iterations left) (ua_loop_iterations right),
      ua_estimated_cost_usd = f64_add (ua_estimated_cost_usd left) (ua_estimated_cost_usd right),
      ua_provider_reported_cost_usd =
        (case (ua_provider_reported_cost_usd left, ua_provider_reported_cost_usd right) of
           (Some a, Some b) \<Rightarrow> Some (f64_add a b)
         | (Some a, None) \<Rightarrow> Some a
         | (None, Some b) \<Rightarrow> Some b
         | (None, None) \<Rightarrow> None),
      ua_failures = sat_add (ua_failures left) (ua_failures right),
      ua_rate_limited = sat_add (ua_rate_limited left) (ua_rate_limited right)\<rparr>"

text \<open>The integer limits in the order the code checks them, each with its dimension and name.\<close>

definition u64_limits ::
  "graph_budgets \<Rightarrow> (u64 option \<times> (usage_accounting \<Rightarrow> u64) \<times> string) list" where
  "u64_limits limits =
     [(gb_max_input_tokens limits, ua_input_tokens, ''input_tokens''),
      (gb_max_cached_input_tokens limits, ua_cached_input_tokens, ''cached_input_tokens''),
      (gb_max_cache_write_tokens limits, ua_cache_write_tokens, ''cache_write_tokens''),
      (gb_max_output_tokens limits, ua_output_tokens, ''output_tokens''),
      (gb_max_reasoning_tokens limits, ua_reasoning_tokens, ''reasoning_tokens''),
      (gb_max_model_calls limits, ua_model_calls, ''model_calls''),
      (gb_max_tool_calls limits, ua_tool_calls, ''tool_calls''),
      (gb_max_node_attempts limits, ua_node_attempts, ''node_attempts''),
      (gb_max_generated_dynamic_nodes limits, ua_generated_dynamic_nodes, ''generated_dynamic_nodes''),
      (gb_max_loop_iterations limits, ua_loop_iterations, ''loop_iterations''),
      (gb_max_failures limits, ua_failures, ''failures''),
      (gb_max_rate_limited limits, ua_rate_limited, ''rate_limited'')]"

fun check_u64s ::
  "(u64 option \<times> (usage_accounting \<Rightarrow> u64) \<times> string) list \<Rightarrow> usage_accounting \<Rightarrow> usage_accounting
   \<Rightarrow> usage_accounting \<Rightarrow> (budget_error, unit) result" where
  "check_u64s [] tot used requested = Ok ()"
| "check_u64s ((bound, fld, name) # ls) tot used requested =
     (case bound of
        Some limit \<Rightarrow>
          if limit < fld tot
          then Err (Budget_Exceeded name (ShowU64 limit) (ShowU64 (fld used))
                 (ShowU64 (fld requested)))
          else check_u64s ls tot used requested
      | None \<Rightarrow> check_u64s ls tot used requested)"

definition check_estimated_cost ::
  "graph_budgets \<Rightarrow> usage_accounting \<Rightarrow> usage_accounting \<Rightarrow> usage_accounting
   \<Rightarrow> (budget_error, unit) result" where
  "check_estimated_cost limits tot used requested =
     (case gb_max_estimated_cost_usd limits of
        Some limit \<Rightarrow>
          if f64_lt limit (ua_estimated_cost_usd tot)
          then Err (Budget_Exceeded ''estimated_cost_usd'' (ShowF64 limit)
                 (ShowF64 (ua_estimated_cost_usd used))
                 (ShowF64 (ua_estimated_cost_usd requested)))
          else Ok ()
      | None \<Rightarrow> Ok ())"

definition check_provider_cost ::
  "graph_budgets \<Rightarrow> usage_accounting \<Rightarrow> usage_accounting \<Rightarrow> usage_accounting
   \<Rightarrow> (budget_error, unit) result" where
  "check_provider_cost limits tot used requested =
     (case (gb_max_provider_reported_cost_usd limits, ua_provider_reported_cost_usd tot) of
        (Some limit, Some total_cost) \<Rightarrow>
          if f64_lt limit total_cost
          then Err (Budget_Exceeded ''provider_reported_cost_usd'' (ShowF64 limit)
                 (ShowF64 (unwrap_or (ua_provider_reported_cost_usd used) (Fin 0)))
                 (ShowF64 (unwrap_or (ua_provider_reported_cost_usd requested) (Fin 0))))
          else Ok ()
      | _ \<Rightarrow> Ok ())"

definition check_limits ::
  "graph_budgets \<Rightarrow> usage_accounting \<Rightarrow> usage_accounting \<Rightarrow> usage_accounting
   \<Rightarrow> (budget_error, unit) result" where
  "check_limits limits tot used requested =
     bind_r (check_u64s (u64_limits limits) tot used requested) (\<lambda>_.
     bind_r (check_estimated_cost limits tot used requested) (\<lambda>_.
     check_provider_cost limits tot used requested))"

definition new_ledger :: "graph_budgets \<Rightarrow> budget_ledger" where
  "new_ledger limits =
     \<lparr>bl_limits = limits, bl_charged = default_usage, bl_reservations = [], bl_stopped = None\<rparr>"

definition from_persistent_state :: "graph_budgets \<Rightarrow> budget_persistent_state \<Rightarrow> budget_ledger" where
  "from_persistent_state limits state =
     \<lparr>bl_limits = limits, bl_charged = bps_charged state,
      bl_reservations = bm_of_list (bps_reservations state), bl_stopped = bps_stopped state\<rparr>"

definition persistent_state :: "budget_ledger \<Rightarrow> budget_persistent_state" where
  "persistent_state l =
     \<lparr>bps_charged = bl_charged l, bps_reservations = bl_reservations l, bps_stopped = bl_stopped l\<rparr>"

definition estimate_node :: "node_spec \<Rightarrow> node_defaults \<Rightarrow> usage_accounting" where
  "estimate_node node defaults =
     (if \<not> is_model_worker node then default_usage\<lparr>ua_node_attempts := 1\<rparr>
      else default_usage
        \<lparr>ua_input_tokens :=
           unwrap_or (opt_or (ns_max_input_tokens node) (nd_max_input_tokens defaults)) 1,
         ua_output_tokens :=
           unwrap_or (opt_or (ns_max_output_tokens node) (nd_max_output_tokens defaults)) 1,
         ua_model_calls := 1,
         ua_tool_calls :=
           ucast (unwrap_or (opt_or (ns_max_tool_calls node) (nd_max_tool_calls defaults)) 0),
         ua_node_attempts := 1\<rparr>)"

definition reserved :: "budget_ledger \<Rightarrow> usage_accounting" where
  "reserved l = foldl add_usage default_usage (bm_values (bl_reservations l))"

definition reserve ::
  "budget_ledger \<Rightarrow> budget_reservation_id \<Rightarrow> usage_accounting
   \<Rightarrow> budget_ledger \<times> (budget_error, unit) result" where
  "reserve l rid requested =
     (case bl_stopped l of
        Some reason \<Rightarrow> (l, Err (Budget_Stopped reason))
      | None \<Rightarrow>
          let tot = add_usage (add_usage (bl_charged l) (reserved l)) requested
          in case check_limits (bl_limits l) tot (bl_charged l) requested of
               Inl e \<Rightarrow> (l, Err e)
             | Inr _ \<Rightarrow>
                 (l\<lparr>bl_reservations := bm_insert rid requested (bl_reservations l)\<rparr>, Ok ()))"

definition reconcile ::
  "budget_ledger \<Rightarrow> budget_reservation_id \<Rightarrow> usage_accounting option
   \<Rightarrow> budget_ledger \<times> (budget_error, usage_accounting) result" where
  "reconcile l rid actual =
     (case bm_get (bl_reservations l) rid of
        None \<Rightarrow> (l, Err Reservation_Missing)
      | Some res \<Rightarrow>
          let charged = unwrap_or actual res;
              l1 = l\<lparr>bl_reservations := bm_remove rid (bl_reservations l),
                     bl_charged := add_usage (bl_charged l) charged\<rparr>
          in case check_limits (bl_limits l1) (bl_charged l1) default_usage charged of
               Inl e \<Rightarrow> (l1\<lparr>bl_stopped := Some (Reason_Error e)\<rparr>, Err e)
             | Inr _ \<Rightarrow> (l1, Ok charged))"

definition release :: "budget_ledger \<Rightarrow> budget_reservation_id \<Rightarrow> budget_ledger \<times> bool" where
  "release l rid =
     (l\<lparr>bl_reservations := bm_remove rid (bl_reservations l)\<rparr>, bm_contains (bl_reservations l) rid)"

definition stop_ledger :: "budget_ledger \<Rightarrow> string \<Rightarrow> budget_ledger" where
  "stop_ledger l reason = l\<lparr>bl_stopped := Some (Reason_Text reason)\<rparr>"

definition snapshot :: "budget_ledger \<Rightarrow> budget_snapshot" where
  "snapshot l =
     \<lparr>bsn_charged = bl_charged l, bsn_reserved = reserved l,
      bsn_active_reservations = length (bl_reservations l),
      bsn_stopped = (bl_stopped l \<noteq> None), bsn_stop_reason = bl_stopped l\<rparr>"

section \<open>Totals in one dimension\<close>

text \<open>The twelve integer dimensions; in each, adding usages is adding with saturation.\<close>

definition u64_dims :: "(usage_accounting \<Rightarrow> u64) list" where
  "u64_dims = map (\<lambda>(_, fld, _). fld) (u64_limits default_graph_budgets)"

lemma u64_limits_dims: "(bound, d, name) \<in> set (u64_limits limits) \<Longrightarrow> d \<in> set u64_dims"
  by (auto simp: u64_dims_def u64_limits_def)

lemma dim_add_usage: "d \<in> set u64_dims \<Longrightarrow> d (add_usage a b) = sat_add (d a) (d b)"
  by (auto simp: u64_dims_def u64_limits_def add_usage_def)

lemma dim_default: "d \<in> set u64_dims \<Longrightarrow> d default_usage = 0"
  by (auto simp: u64_dims_def u64_limits_def default_usage_def)

definition total_in :: "(usage_accounting \<Rightarrow> u64) \<Rightarrow> ('k \<times> usage_accounting) list \<Rightarrow> nat" where
  "total_in d rs = sum_list (map (\<lambda>(_, u). unat (d u)) rs)"

lemma unat_dim_foldl:
  assumes "d \<in> set u64_dims"
  shows "unat (d (foldl add_usage a (map snd rs))) = min (unat (d a) + total_in d rs) (2 ^ 64 - 1)"
proof (induction rs arbitrary: a)
  case Nil
  then show ?case using unat_le_max [of "d a"] by (simp add: total_in_def)
next
  case (Cons p rs)
  show ?case
    using Cons.IH [of "add_usage a (snd p)"] dim_add_usage [OF assms, of a "snd p"]
    by (cases p) (simp add: total_in_def unat_sat_add)
qed

lemma unat_dim_reserved:
  "d \<in> set u64_dims \<Longrightarrow> unat (d (reserved l)) = min (total_in d (bl_reservations l)) (2 ^ 64 - 1)"
  using unat_dim_foldl [of d default_usage "bl_reservations l"]
  by (simp add: reserved_def bm_values_def dim_default)

text \<open>What the ledger has promised in a dimension: what is charged and what is reserved.\<close>

definition committed :: "(usage_accounting \<Rightarrow> u64) \<Rightarrow> budget_ledger \<Rightarrow> nat" where
  "committed d l = unat (d (bl_charged l)) + total_in d (bl_reservations l)"

definition within_u64 :: "graph_budgets \<Rightarrow> usage_accounting \<Rightarrow> bool" where
  "within_u64 limits u \<longleftrightarrow>
     list_all (\<lambda>(bound, d, _). is_none_or bound (\<lambda>limit. d u \<le> limit)) (u64_limits limits)"

lemma check_u64s_Ok:
  "check_u64s ls tot used requested = Ok r \<longleftrightarrow>
   list_all (\<lambda>(bound, d, _). is_none_or bound (\<lambda>limit. d tot \<le> limit)) ls"
  by (induction ls) (auto split: option.splits if_splits)

lemma check_limits_Ok_u64: "check_limits limits tot used requested = Ok r \<Longrightarrow> within_u64 limits tot"
  by (auto simp: check_limits_def bind_r_eq_Ok check_u64s_Ok within_u64_def)

text \<open>A usage within all limits, costs included: what \<open>check_limits\<close> decides.\<close>

definition within_costs :: "graph_budgets \<Rightarrow> usage_accounting \<Rightarrow> bool" where
  "within_costs limits u \<longleftrightarrow>
     is_none_or (gb_max_estimated_cost_usd limits) (\<lambda>c. \<not> f64_lt c (ua_estimated_cost_usd u)) \<and>
     is_none_or (gb_max_provider_reported_cost_usd limits) (\<lambda>c.
       is_none_or (ua_provider_reported_cost_usd u) (\<lambda>x. \<not> f64_lt c x))"

lemma check_limits_Ok:
  "check_limits limits tot used requested = Ok r \<longleftrightarrow> within_u64 limits tot \<and> within_costs limits tot"
  by (auto simp: check_limits_def bind_r_eq_Ok check_u64s_Ok within_u64_def within_costs_def
      check_estimated_cost_def check_provider_cost_def split: option.splits if_splits)

lemma within_u64_dim:
  "within_u64 limits u \<Longrightarrow> (Some limit, d, name) \<in> set (u64_limits limits) \<Longrightarrow> d u \<le> limit"
  by (auto simp: within_u64_def list_all_iff)

section \<open>The operations on the commitments\<close>

lemma total_in_insert:
  "total_in d (bm_insert rid u rs) = unat (d u) + total_in d (bm_remove rid rs)"
  by (simp add: total_in_def sum_list_bm_insert)

lemma total_in_remove_le: "total_in d (bm_remove rid rs) \<le> total_in d rs"
  by (simp add: total_in_def sum_list_bm_remove_le)

lemma total_in_remove:
  "bm_wf rs \<Longrightarrow> bm_get rs rid = Some u \<Longrightarrow> total_in d rs = unat (d u) + total_in d (bm_remove rid rs)"
  by (simp add: total_in_def sum_list_bm_remove [where f = "\<lambda>(_, u). unat (d u)"])

lemma reserve_OkE:
  assumes "reserve l rid req = (l', Ok r)"
  obtains "bl_stopped l = None"
    and "l' = l\<lparr>bl_reservations := bm_insert rid req (bl_reservations l)\<rparr>"
    and "within_u64 (bl_limits l) (add_usage (add_usage (bl_charged l) (reserved l)) req)"
    and "within_costs (bl_limits l) (add_usage (add_usage (bl_charged l) (reserved l)) req)"
  using assms
  by (auto simp: reserve_def Let_def check_limits_Ok split: option.splits sum.splits)

lemma reserve_committed:
  assumes "reserve l rid req = (l', Ok r)"
    and "(Some limit, d, name) \<in> set (u64_limits (bl_limits l))" and "limit \<noteq> - 1"
  shows "committed d l' \<le> unat limit"
proof -
  let ?c = "unat (d (bl_charged l))" and ?t = "total_in d (bl_reservations l)"
  have d: "d \<in> set u64_dims" by (rule u64_limits_dims [OF assms(2)])
  have small: "unat limit < 2 ^ 64 - 1"
    using assms(3) unat_le_max [of limit]
    by (auto simp: word_unat_eq_iff unsigned_minus_1_eq_mask mask_eq_exp_minus_1)
  have within: "d (add_usage (add_usage (bl_charged l) (reserved l)) req) \<le> limit"
    and l': "l' = l\<lparr>bl_reservations := bm_insert rid req (bl_reservations l)\<rparr>"
    using assms(1,2) by (auto elim!: reserve_OkE intro: within_u64_dim)
  have "min (min (?c + min ?t (2 ^ 64 - 1)) (2 ^ 64 - 1) + unat (d req)) (2 ^ 64 - 1) \<le> unat limit"
    using within unfolding word_le_nat_alt
    by (simp add: dim_add_usage [OF d] unat_sat_add unat_dim_reserved [OF d])
  with small have "?c + ?t + unat (d req) \<le> unat limit" by linarith
  moreover have "committed d l' \<le> ?c + (unat (d req) + ?t)"
    using total_in_remove_le [of d rid "bl_reservations l"]
    by (simp add: l' committed_def total_in_insert)
  ultimately show ?thesis by linarith
qed

lemma reserve_Err: "snd (reserve l rid req) = Err e \<Longrightarrow> fst (reserve l rid req) = l"
  by (auto simp: reserve_def Let_def split: option.splits sum.splits)

lemma check_u64s_Err: "check_u64s ls tot u0 r0 = Err e \<Longrightarrow> \<exists>d l u r. e = Budget_Exceeded d l u r"
  by (induction ls) (auto split: option.splits if_splits)

lemma reserve_error: "snd (reserve l rid req) = Err e \<Longrightarrow> (\<exists>d l u r. e = Budget_Exceeded d l u r) \<or> (\<exists>r. e = Budget_Stopped r)"
  by (auto simp: reserve_def check_limits_def check_estimated_cost_def check_provider_cost_def bind_r_def Let_def
      split: option.splits sum.splits if_splits dest: check_u64s_Err)

text \<open>A worker stays within its reservation in every integer dimension.\<close>

definition honest :: "budget_ledger \<Rightarrow> budget_reservation_id \<Rightarrow> usage_accounting option \<Rightarrow> bool" where
  "honest l rid actual \<longleftrightarrow>
     (case (bm_get (bl_reservations l) rid, actual) of
        (Some res, Some u) \<Rightarrow> list_all (\<lambda>d. d u \<le> d res) u64_dims
      | _ \<Rightarrow> True)"

lemma reconcile_fields:
  "bm_get (bl_reservations l) rid = Some res \<Longrightarrow> fst (reconcile l rid actual) = l' \<Longrightarrow>
   bl_limits l' = bl_limits l \<and>
   bl_charged l' = add_usage (bl_charged l) (unwrap_or actual res) \<and>
   bl_reservations l' = bm_remove rid (bl_reservations l)"
  by (auto simp: reconcile_def Let_def split: sum.splits)

lemma reconcile_missing: "bm_get (bl_reservations l) rid = None \<Longrightarrow> reconcile l rid actual = (l, Err Reservation_Missing)"
  by (simp add: reconcile_def)

lemma reconcile_committed:
  assumes "bm_wf (bl_reservations l)" and "honest l rid actual" and d: "d \<in> set u64_dims"
  shows "committed d (fst (reconcile l rid actual)) \<le> committed d l"
proof (cases "bm_get (bl_reservations l) rid")
  case (Some res)
  have "unat (d (unwrap_or actual res)) \<le> unat (d res)"
    using assms(2) d Some
    by (cases actual) (auto simp: honest_def list_all_iff word_le_nat_alt)
  with reconcile_fields [OF Some refl, of actual] total_in_remove [OF assms(1) Some, of d] show ?thesis
    by (simp add: committed_def dim_add_usage [OF d] unat_sat_add)
qed (simp add: reconcile_missing)

section \<open>Runs of a ledger\<close>

text \<open>One operation on the ledger; \<open>P\<close> restricts what workers may report.\<close>

inductive ledger_step ::
  "(budget_ledger \<Rightarrow> budget_reservation_id \<Rightarrow> usage_accounting option \<Rightarrow> bool)
   \<Rightarrow> budget_ledger \<Rightarrow> budget_ledger \<Rightarrow> bool"
  for P where
  step_reserve: "ledger_step P l (fst (reserve l rid req))"
| step_reconcile: "P l rid actual \<Longrightarrow> ledger_step P l (fst (reconcile l rid actual))"
| step_release: "ledger_step P l (fst (release l rid))"
| step_stop: "ledger_step P l (stop_ledger l reason)"

text \<open>What the operations leave alone.\<close>

lemma limits_kept [simp]:
  "bl_limits (fst (reserve l rid req)) = bl_limits l"
  "bl_limits (fst (reconcile l rid actual)) = bl_limits l"
  "bl_limits (fst (release l rid)) = bl_limits l"
  "bl_limits (stop_ledger l reason) = bl_limits l"
  by (simp_all add: reserve_def reconcile_def release_def stop_ledger_def Let_def
      split: option.split sum.split)

lemma reservations_wf_kept:
  assumes "bm_wf (bl_reservations l)"
  shows "bm_wf (bl_reservations (fst (reserve l rid req)))"
    and "bm_wf (bl_reservations (fst (reconcile l rid actual)))"
    and "bm_wf (bl_reservations (fst (release l rid)))"
    and "bm_wf (bl_reservations (stop_ledger l reason))"
  using assms bm_wf_insert [OF assms, of rid req] bm_wf_remove [OF assms, of rid]
  by (simp_all add: reserve_def reconcile_def release_def stop_ledger_def Let_def
      split: option.split sum.split)

lemma ledger_step_limits: "ledger_step P l l' \<Longrightarrow> bl_limits l' = bl_limits l"
  by (induction rule: ledger_step.induct) simp_all

lemma ledger_step_wf: "ledger_step P l l' \<Longrightarrow> bm_wf (bl_reservations l) \<Longrightarrow> bm_wf (bl_reservations l')"
  by (induction rule: ledger_step.induct) (simp_all add: reservations_wf_kept)

text \<open>The invariant of runs whose workers stay within their reservations.\<close>

definition committed_ok :: "graph_budgets \<Rightarrow> budget_ledger \<Rightarrow> bool" where
  "committed_ok limits l \<longleftrightarrow>
     bl_limits l = limits \<and> bm_wf (bl_reservations l) \<and>
     (\<forall>limit d name. (Some limit, d, name) \<in> set (u64_limits limits) \<longrightarrow> limit \<noteq> - 1 \<longrightarrow>
        committed d l \<le> unat limit)"

lemma committed_okD:
  "committed_ok limits l \<Longrightarrow> (Some limit, d, name) \<in> set (u64_limits limits) \<Longrightarrow> limit \<noteq> - 1 \<Longrightarrow>
   committed d l \<le> unat limit"
  unfolding committed_ok_def by blast

lemma committed_ok_step:
  assumes "ledger_step honest l l'" and "committed_ok limits l"
  shows "committed_ok limits l'"
proof -
  have inv: "bl_limits l = limits" "bm_wf (bl_reservations l)"
    using assms(2) by (simp_all add: committed_ok_def)
  have "committed d l' \<le> unat limit"
    if lim: "(Some limit, d, name) \<in> set (u64_limits limits)" "limit \<noteq> - 1" for limit d name
  proof -
    have old: "committed d l \<le> unat limit" by (rule committed_okD [OF assms(2) lim])
    have d: "d \<in> set u64_dims" by (rule u64_limits_dims [OF lim(1)])
    from assms(1) show ?thesis
    proof (cases rule: ledger_step.cases)
      case (step_reserve rid req)
      show ?thesis
      proof (cases "snd (reserve l rid req)")
        case (Inl e)
        with step_reserve old show ?thesis by (simp add: reserve_Err)
      next
        case (Inr u)
        then have "reserve l rid req = (l', Ok u)"
          by (simp add: step_reserve prod_eq_iff)
        then show ?thesis
          using lim inv(1) reserve_committed by blast
      qed
    next
      case (step_reconcile rid actual)
      with old reconcile_committed [OF inv(2) _ d] show ?thesis by (meson le_trans)
    next
      case (step_release rid)
      with old total_in_remove_le [of d rid "bl_reservations l"] show ?thesis
        by (simp add: committed_def release_def)
    next
      case (step_stop reason)
      with old show ?thesis by (simp add: committed_def stop_ledger_def)
    qed
  qed
  with ledger_step_limits [OF assms(1)] ledger_step_wf [OF assms(1) inv(2)] inv(1) show ?thesis
    by (simp add: committed_ok_def)
qed

lemma committed_ok_new: "committed_ok limits (new_ledger limits)"
proof -
  have "committed d (new_ledger limits) = 0" if "(x, d, y) \<in> set (u64_limits limits)" for x d y
    using u64_limits_dims [OF that] by (simp add: committed_def new_ledger_def dim_default total_in_def)
  then show ?thesis by (auto simp: committed_ok_def new_ledger_def)
qed

interpretation honest_ledger:
  invariant_system "\<lambda>l. l = new_ledger limits" "ledger_step honest" "committed_ok limits"
  for limits
  by unfold_locales (auto simp: committed_ok_new intro: committed_ok_step)

text \<open>The invariant of every run: a ledger that is not stopped has charged within its limits.\<close>

definition charged_ok :: "graph_budgets \<Rightarrow> budget_ledger \<Rightarrow> bool" where
  "charged_ok limits l \<longleftrightarrow>
     bl_limits l = limits \<and> bm_wf (bl_reservations l) \<and>
     (bl_stopped l = None \<longrightarrow> within_u64 limits (bl_charged l) \<and> within_costs limits (bl_charged l))"

lemma charged_kept:
  "bl_charged (fst (reserve l rid req)) = bl_charged l"
  "bl_charged (fst (release l rid)) = bl_charged l"
  "bl_stopped (fst (reserve l rid req)) = bl_stopped l"
  "bl_stopped (fst (release l rid)) = bl_stopped l"
  by (simp_all add: reserve_def release_def Let_def split: option.split sum.split)

lemma reconcile_stopped_or_within:
  assumes "bl_stopped (fst (reconcile l rid actual)) = None"
  shows "bl_stopped l = None"
    and "bm_get (bl_reservations l) rid = None \<or>
      within_u64 (bl_limits l) (bl_charged (fst (reconcile l rid actual))) \<and>
      within_costs (bl_limits l) (bl_charged (fst (reconcile l rid actual)))"
  using assms
  by (auto simp: reconcile_def Let_def check_limits_Ok split: option.splits sum.splits)

lemma charged_ok_step:
  assumes "ledger_step P l l'" and "charged_ok limits l"
  shows "charged_ok limits l'"
proof -
  have inv: "bl_limits l = limits" "bm_wf (bl_reservations l)"
    using assms(2) by (simp_all add: charged_ok_def)
  have "within_u64 limits (bl_charged l') \<and> within_costs limits (bl_charged l')"
    if none: "bl_stopped l' = None"
    using assms(1)
  proof (cases rule: ledger_step.cases)
    case (step_reconcile rid actual)
    with none reconcile_stopped_or_within [of l rid actual] assms(2) inv(1) show ?thesis
      by (auto simp: charged_ok_def reconcile_missing)
  qed (use none assms(2) in \<open>simp_all add: charged_ok_def charged_kept stop_ledger_def\<close>)
  with ledger_step_limits [OF assms(1)] ledger_step_wf [OF assms(1) inv(2)] inv(1) show ?thesis
    by (simp add: charged_ok_def)
qed

lemma within_u64_default: "within_u64 limits default_usage"
  by (auto simp: within_u64_def list_all_iff dim_default [OF u64_limits_dims] split: option.splits)
    (metis dim_default is_none_or.elims(3) u64_limits_dims word_zero_le)

lemma charged_ok_new: "within_costs limits default_usage \<Longrightarrow> charged_ok limits (new_ledger limits)"
  by (simp add: charged_ok_def new_ledger_def within_u64_default)

interpretation any_ledger:
  invariant_system "\<lambda>l. l = new_ledger limits \<and> within_costs limits default_usage" "ledger_step P"
    "charged_ok limits"
  for limits P
  by unfold_locales (auto simp: charged_ok_new intro: charged_ok_step)

lemma step_keeps_stop: "ledger_step P l l' \<Longrightarrow> bl_stopped l \<noteq> None \<Longrightarrow> bl_stopped l' \<noteq> None"
proof (induction rule: ledger_step.induct)
  case (step_reconcile l rid actual)
  then show ?case using reconcile_stopped_or_within(1) [of l rid actual] by argo
qed (simp_all add: charged_kept stop_ledger_def)

interpretation stopped_ledger:
  invariant_system "\<lambda>l. bl_stopped l \<noteq> None" "ledger_step P" "\<lambda>l. bl_stopped l \<noteq> None"
  for P
  by unfold_locales (simp_all add: step_keeps_stop)

section \<open>Properties\<close>

text \<open>A reservation id used in examples.\<close>

definition rid0 :: budget_reservation_id where
  "rid0 = (''r'', ''n'', 0)"

text \<open>
  C24. A successful reservation never oversubscribes. In every integer dimension with a limit below
  \<open>u64::MAX\<close> (which is no limit for saturating sums), what the run has been charged plus all open
  reservations, the new one included and counted without saturation, is at most the limit. The
  estimated cost and the cost the provider reports, summed as the code sums them in floating point
  (charged, then open, then requested), are not above their limits.
\<close>

theorem reserve_no_oversubscription:
  assumes "reserve l rid requested = (l', Ok ())"
  shows "(\<forall>(bound, d, name) \<in> set (u64_limits (bl_limits l)). is_none_or bound (\<lambda>limit.
        limit = - 1 \<or> unat (d (bl_charged l')) + total_in d (bl_reservations l') \<le> unat limit)) \<and>
    is_none_or (gb_max_estimated_cost_usd (bl_limits l)) (\<lambda>limit.
        \<not> f64_lt limit (f64_add (f64_add (ua_estimated_cost_usd (bl_charged l)) (ua_estimated_cost_usd (reserved l)))
          (ua_estimated_cost_usd requested))) \<and>
    is_none_or (gb_max_provider_reported_cost_usd (bl_limits l)) (\<lambda>limit.
        is_none_or (ua_provider_reported_cost_usd (add_usage (add_usage (bl_charged l) (reserved l)) requested))
          (\<lambda>cost. \<not> f64_lt limit cost)) \<and>
    bl_charged l' = bl_charged l \<and> bm_get (bl_reservations l') rid = Some requested"
proof -
  have "limit = - 1 \<or> unat (d (bl_charged l')) + total_in d (bl_reservations l') \<le> unat limit"
    if "(Some limit, d, name) \<in> set (u64_limits (bl_limits l))" for limit d name
    using reserve_committed [OF assms that] by (auto simp: committed_def)
  then have "is_none_or bound (\<lambda>limit. limit = - 1 \<or> unat (d (bl_charged l')) + total_in d (bl_reservations l') \<le> unat limit)"
    if "(bound, d, name) \<in> set (u64_limits (bl_limits l))" for bound d name
    using that by (cases bound) auto
  moreover have "within_costs (bl_limits l) (add_usage (add_usage (bl_charged l) (reserved l)) requested)"
    and "l' = l\<lparr>bl_reservations := bm_insert rid requested (bl_reservations l)\<rparr>"
    using assms by (auto elim: reserve_OkE)
  ultimately show ?thesis
    by (simp add: within_costs_def bmap_simps) (auto simp: add_usage_def)
qed

text \<open>A budget of a hundred tokens and of one dollar, and a reservation of sixty tokens at no cost.\<close>

theorem reserve_no_oversubscription_witness:
  "let limits = default_graph_budgets\<lparr>gb_max_input_tokens := Some 100, gb_max_estimated_cost_usd := Some (Fin 1)\<rparr>;
       req = default_usage\<lparr>ua_input_tokens := 60\<rparr>;
       l' = (new_ledger limits)\<lparr>bl_reservations := [((''r'', ''n'', 0), req)]\<rparr>
   in reserve (new_ledger limits) (''r'', ''n'', 0) req = (l', Ok ()) \<and>
      unat (ua_input_tokens (bl_charged l')) + total_in ua_input_tokens (bl_reservations l') \<le> 100 \<and>
      \<not> f64_lt (Fin 1) (f64_add (f64_add (Fin 0) (Fin 0)) (Fin 0))"
proof -
  let ?limits = "default_graph_budgets\<lparr>gb_max_input_tokens := Some 100, gb_max_estimated_cost_usd := Some (Fin 1)\<rparr>"
  let ?req = "default_usage\<lparr>ua_input_tokens := 60\<rparr>"
  let ?l' = "(new_ledger ?limits)\<lparr>bl_reservations := [((''r'', ''n'', 0), ?req)]\<rparr>"
  have res: "reserve (new_ledger ?limits) (''r'', ''n'', 0) ?req = (?l', Ok ())"
    by (simp add: reserve_def new_ledger_def reserved_def bm_values_def bm_insert_def bm_remove_def
        check_limits_def u64_limits_def check_estimated_cost_def check_provider_cost_def
        default_graph_budgets_def default_usage_def add_usage_def sat_add_def)
  have "(Some 100, ua_input_tokens, ''input_tokens'') \<in> set (u64_limits (bl_limits (new_ledger ?limits)))"
    by (simp add: u64_limits_def new_ledger_def)
  with reserve_no_oversubscription [OF res]
  have "unat (ua_input_tokens (bl_charged ?l')) + total_in ua_input_tokens (bl_reservations ?l') \<le> 100" by fastforce
  moreover have "\<not> f64_lt (Fin 1) (f64_add (f64_add (Fin 0) (Fin 0)) (Fin 0))"
    using reserve_no_oversubscription [OF res] by (simp add: new_ledger_def reserved_def bm_values_def default_usage_def)
  ultimately show ?thesis using res by (simp add: Let_def)
qed

text \<open>
  C23. A run whose workers report no more than they reserved never leaves its limits: after any
  sequence of reserve, reconcile, release and stop on a new ledger, charged usage plus open
  reservations is within every integer limit.
\<close>

theorem honest_run_within_limits:
  assumes "(ledger_step honest)\<^sup>*\<^sup>* (new_ledger limits) l"
    and "(Some limit, d, name) \<in> set (u64_limits limits)" and "limit \<noteq> - 1"
  shows "unat (d (bl_charged l)) + total_in d (bl_reservations l) \<le> unat limit"
  using committed_okD [OF honest_ledger.reach_inv [OF refl assms(1)] assms(2,3)]
  by (simp add: committed_def)

theorem honest_run_within_limits_witness:
  "let limits = default_graph_budgets\<lparr>gb_max_tool_calls := Some 5\<rparr>;
       l = fst (reserve (new_ledger limits) rid0 (default_usage\<lparr>ua_tool_calls := 9\<rparr>))
   in unat (ua_tool_calls (bl_charged l)) + total_in ua_tool_calls (bl_reservations l) \<le> 5"
proof -
  let ?limits = "default_graph_budgets\<lparr>gb_max_tool_calls := Some 5\<rparr>"
  let ?req = "default_usage\<lparr>ua_tool_calls := 9\<rparr>"
  have steps: "(ledger_step honest)\<^sup>*\<^sup>* (new_ledger ?limits)
      (fst (reserve (new_ledger ?limits) (''r'', ''n'', 0) ?req))"
    by (rule r_into_rtranclp) (rule step_reserve)
  have "(Some 5, ua_tool_calls, ''tool_calls'') \<in> set (u64_limits ?limits)"
    by (simp add: u64_limits_def)
  then show ?thesis
    using honest_run_within_limits [OF steps, of 5 ua_tool_calls "''tool_calls''"]
    by (simp add: Let_def rid0_def)
qed

text \<open>
  Whatever workers report, a ledger that is still open has charged within all its limits,
  costs included, after any sequence of operations, provided the cost limits are not negative
  (those a new ledger would already break).
\<close>

lemma open_ledger_within_limits:
  assumes "(ledger_step P)\<^sup>*\<^sup>* (new_ledger limits) l" and "within_costs limits default_usage"
    and "bl_stopped l = None"
  shows "within_u64 limits (bl_charged l) \<and> within_costs limits (bl_charged l)"
  using any_ledger.reach_inv [of "new_ledger limits" limits P l] assms by (simp add: charged_ok_def)

text \<open>
  A stop is final: once a ledger is stopped, by a caller or by an overrun found in
  \<open>reconcile\<close>, every later reservation is refused with the stop reason and changes nothing.
\<close>

lemma stop_is_final:
  assumes "bl_stopped l \<noteq> None" and "(ledger_step P)\<^sup>*\<^sup>* l l'"
  shows "\<exists>reason. bl_stopped l' = Some reason \<and>
    reserve l' rid requested = (l', Err (Budget_Stopped reason))"
  using stopped_ledger.steps_inv [OF assms(2,1)] by (auto simp: reserve_def)

text \<open>
  What happens to a reservation: reconciling it charges the reported usage, or the whole
  reservation when nothing is reported, exactly once; the second reconcile of the same id is
  refused and changes nothing.
\<close>

lemma reconcile_charges_once:
  assumes "bm_get (bl_reservations l) rid = Some res"
  shows "bl_charged (fst (reconcile l rid actual)) = add_usage (bl_charged l) (unwrap_or actual res) \<and>
    bm_get (bl_reservations (fst (reconcile l rid actual))) rid = None \<and>
    reconcile (fst (reconcile l rid actual)) rid again =
      (fst (reconcile l rid actual), Err Reservation_Missing)"
  using reconcile_fields [OF assms refl, of actual]
  by (simp add: bm_get_remove reconcile_missing)

text \<open>
  C29. Round trip through the database: the ledger restored from the persistent state of a ledger
  that the operations produced is that ledger.
\<close>

theorem persistent_round_trip:
  assumes "(ledger_step P)\<^sup>*\<^sup>* (new_ledger limits) l"
  shows "from_persistent_state limits (persistent_state l) = l"
proof -
  have "bl_limits l = limits \<and> bm_wf (bl_reservations l)"
    using assms
    by (induction rule: rtranclp_induct)
      (auto simp: new_ledger_def ledger_step_limits dest: ledger_step_wf)
  then show ?thesis
    by (simp add: from_persistent_state_def persistent_state_def bm_of_list_id)
qed

theorem persistent_round_trip_witness:
  "from_persistent_state default_graph_budgets
     (persistent_state (stop_ledger (new_ledger default_graph_budgets) ''halt'')) =
   stop_ledger (new_ledger default_graph_budgets) ''halt''"
  by (rule persistent_round_trip [of "\<lambda>_ _ _. True"]) (rule r_into_rtranclp, rule step_stop)

end
