(* ===== verification/Retry.thy ===== *)
theory Retry
  imports Graph_Types
begin

text \<open>
  Retries, \<^verbatim>\<open>agent_graph/retry.rs\<close>: the classification of failure texts, the retry decision
  with its guards in the order of the code, the capped exponential backoff and the jitter, a
  64-bit FNV hash of run, node and attempt. The subtraction \<open>(hash % width) as i64 - limit as i64\<close>
  is the wrapping one of a release build.

  The lemmas bound every scheduled retry (attempts, delay, deadlines), show that the backoff does
  not shrink with the attempts, and that chains of retries end.
\<close>

unbundle bit_operations_syntax

section \<open>Classification\<close>

datatype failure_classification =
    FC_RateLimited | FC_BadGateway | FC_ServiceUnavailable | FC_GatewayTimeout
  | FC_TemporaryConnection | FC_StreamDisconnected | FC_WorkerProcessFailed | FC_StartTimeout
  | FC_RetryableSchemaRepair | FC_BadRequest | FC_Unauthorized | FC_Forbidden | FC_InvalidModel
  | FC_UnsupportedCapability | FC_InvalidGraphContract | FC_PermissionDenied
  | FC_BudgetExhausted | FC_PolicyRejected | FC_UnsafeNonIdempotentUncertainty
  | FC_UserCancelled | FC_CompensationFailed | FC_ServiceTierRejected | FC_Unknown

definition retryable :: "failure_classification \<Rightarrow> bool" where
  "retryable c \<longleftrightarrow>
     c \<in> {FC_RateLimited, FC_BadGateway, FC_ServiceUnavailable, FC_GatewayTimeout,
       FC_TemporaryConnection, FC_StreamDisconnected, FC_WorkerProcessFailed, FC_StartTimeout,
       FC_RetryableSchemaRepair}"

definition classify_failure_text :: "string \<Rightarrow> failure_classification" where
  "classify_failure_text text =
     (let has = str_contains (to_ascii_lowercase text)
      in if has ''service_tier'' \<or> has ''service tier'' then FC_ServiceTierRejected
         else if has ''429'' \<or> has ''rate limit'' \<or> has ''too many requests'' then FC_RateLimited
         else if has ''502'' \<or> has ''bad gateway'' then FC_BadGateway
         else if has ''503'' \<or> has ''service unavailable'' then FC_ServiceUnavailable
         else if has ''504'' \<or> has ''gateway timeout'' then FC_GatewayTimeout
         else if has ''401'' \<or> has ''unauthorized'' then FC_Unauthorized
         else if has ''403'' \<or> has ''forbidden'' then FC_Forbidden
         else if has ''400'' \<or> has ''bad request'' then FC_BadRequest
         else if has ''invalid model'' \<or> has ''model not found'' then FC_InvalidModel
         else if has ''unsupported capability'' then FC_UnsupportedCapability
         else if has ''permission denied'' \<or> has ''approval denied'' then FC_PermissionDenied
         else if has ''budget'' \<and> (has ''exhaust'' \<or> has ''exceed'') then FC_BudgetExhausted
         else if has ''cancelled'' \<or> has ''canceled'' then FC_UserCancelled
         else if has ''schema'' \<and> has ''retryable'' then FC_RetryableSchemaRepair
         else if has ''stream'' \<and> (has ''disconnect'' \<or> has ''closed'') then FC_StreamDisconnected
         else if has ''start timeout'' \<or> has ''timed out before start'' then FC_StartTimeout
         else if has ''connection'' \<or> has ''temporarily unavailable'' then FC_TemporaryConnection
         else if has ''process exit'' \<or> has ''worker failed'' then FC_WorkerProcessFailed
         else FC_Unknown)"

definition classify_node_output :: "node_output \<Rightarrow> failure_classification" where
  "classify_node_output output =
     classify_failure_text (join_with [char_of (10 :: nat)] (no_summary output # no_blockers output))"

section \<open>The decision\<close>

record retry_schedule =
  rsch_run_id :: string
  rsch_node_id :: string
  rsch_prior_attempt :: u32
  rsch_next_attempt :: u32
  rsch_classification :: failure_classification
  rsch_chosen_delay_ms :: u64
  rsch_next_attempt_at_ms :: i64
  rsch_retry_after_ms :: "u64 option"
  rsch_jitter_ms :: i64
  rsch_equivalent_failure_count :: u32
  rsch_no_progress_count :: u32

datatype retry_decision = RD_Schedule retry_schedule | RD_Stop string

definition to_le_bytes32 :: "u32 \<Rightarrow> u8 list" where
  "to_le_bytes32 w = [ucast w, ucast (drop_bit 8 w), ucast (drop_bit 16 w), ucast (drop_bit 24 w)]"

definition bytes :: "string \<Rightarrow> u8 list" where
  "bytes s = map of_char s"

definition fnv_step :: "u64 \<Rightarrow> u8 \<Rightarrow> u64" where
  "fnv_step hash byte = (hash XOR ucast byte) * 0x100000001b3"

definition deterministic_jitter :: "string \<Rightarrow> string \<Rightarrow> u32 \<Rightarrow> u64 \<Rightarrow> i64" where
  "deterministic_jitter run_id nid attempt limit =
     (if limit = 0 then 0
      else let hash = foldl fnv_step 0xcbf29ce484222325
                 (bytes run_id @ bytes nid @ to_le_bytes32 attempt);
               width = sat_add (sat_mul limit 2) 1
           in u64_as_i64 ((hash mod width) - limit))"

definition apply_signed_jitter :: "u64 \<Rightarrow> i64 \<Rightarrow> u64" where
  "apply_signed_jitter base jitter =
     (if jitter < 0 then sat_sub base (word_of_int (- jitter)) else sat_add base (word_of_int jitter))"

definition capped_backoff_ms :: "retry_policy \<Rightarrow> u32 \<Rightarrow> u64" where
  "capped_backoff_ms policy prior_attempt =
     (let base_ms = sat_mul (unwrap_or (rp_backoff_seconds policy) 1) 1000;
          exponent = min (sat_sub prior_attempt 1) 20;
          exponential_ms = sat_mul base_ms (push_bit (unat exponent) 1);
          max_ms = sat_mul (unwrap_or (rp_max_backoff_seconds policy) 300) 1000
      in min exponential_ms max_ms)"

definition jitter_limit_ms :: "retry_policy \<Rightarrow> u64 \<Rightarrow> u64" where
  "jitter_limit_ms policy capped_ms =
     sat_mul capped_ms (ucast (min (rp_jitter_percent policy) 100)) div 100"

text \<open>The jitter and the delay that the decision computes from the policy and the attempt.\<close>

definition retry_jitter_ms :: "string \<Rightarrow> node_spec \<Rightarrow> u32 \<Rightarrow> i64" where
  "retry_jitter_ms run_id node prior_attempt =
     deterministic_jitter run_id (ns_id node) prior_attempt
       (jitter_limit_ms (ns_retry_policy node)
         (capped_backoff_ms (ns_retry_policy node) prior_attempt))"

definition chosen_delay_ms :: "string \<Rightarrow> node_spec \<Rightarrow> u32 \<Rightarrow> u64 option \<Rightarrow> u64" where
  "chosen_delay_ms run_id node prior_attempt retry_after_ms =
     max (apply_signed_jitter (capped_backoff_ms (ns_retry_policy node) prior_attempt)
            (retry_jitter_ms run_id node prior_attempt))
         (unwrap_or retry_after_ms 0)"

definition decide_retry ::
  "string \<Rightarrow> node_spec \<Rightarrow> u32 \<Rightarrow> failure_classification \<Rightarrow> i64 \<Rightarrow> i64 \<Rightarrow> u64 \<Rightarrow> u32 \<Rightarrow> u32
   \<Rightarrow> u64 option \<Rightarrow> retry_decision" where
  "decide_retry run_id node prior_attempt classification now_ms run_started_at_ms
       accumulated_retry_delay_ms equivalent_failure_count no_progress_count retry_after_ms =
     (let policy = ns_retry_policy node
      in if classification = FC_ServiceTierRejected then
           RD_Stop ''service-tier rejection is handled only by the typed one-time Standard fallback''
         else if \<not> retryable classification then
           RD_Stop ''failure classification is not retryable''
         else if ns_idempotency_policy node = IP_NonIdempotent then
           RD_Stop ''non-idempotent uncertain work requires inspection before retry''
         else if max (rp_max_attempts policy) 1 \<le> prior_attempt then
           RD_Stop ''maximum attempts reached''
         else if is_some_and (rp_max_equivalent_failures policy)
                   (\<lambda>limit. limit \<le> equivalent_failure_count) then
           RD_Stop ''equivalent-failure limit reached''
         else if is_some_and (rp_max_no_progress_retries policy)
                   (\<lambda>limit. limit \<le> no_progress_count) then
           RD_Stop ''no-progress retry limit reached''
         else
           let delay_ms = chosen_delay_ms run_id node prior_attempt retry_after_ms;
               next_attempt_at_ms =
                 i64_sat_add now_ms (u64_as_i64 (min delay_ms (word_of_int i64_max)))
           in if is_some_and (rp_max_total_retry_delay_seconds policy) (\<lambda>limit.
                   sat_mul limit 1000 < sat_add accumulated_retry_delay_ms delay_ms) then
                RD_Stop ''total retry-delay limit would be exceeded''
              else if is_some_and (rp_schedule_to_close_seconds policy) (\<lambda>limit.
                   i64_sat_add run_started_at_ms (u64_as_i64 (sat_mul limit 1000))
                     < next_attempt_at_ms) then
                RD_Stop ''schedule-to-close deadline would be exceeded''
              else RD_Schedule
                \<lparr>rsch_run_id = run_id, rsch_node_id = ns_id node,
                 rsch_prior_attempt = prior_attempt,
                 rsch_next_attempt = sat_add prior_attempt 1,
                 rsch_classification = classification,
                 rsch_chosen_delay_ms = delay_ms,
                 rsch_next_attempt_at_ms = next_attempt_at_ms,
                 rsch_retry_after_ms = retry_after_ms, rsch_jitter_ms = retry_jitter_ms run_id node prior_attempt,
                 rsch_equivalent_failure_count = sat_add equivalent_failure_count 1,
                 rsch_no_progress_count = sat_add no_progress_count 1\<rparr>)"

section \<open>Backoff and jitter\<close>

lemma sat_mul_mono: "a \<le> a' \<Longrightarrow> b \<le> b' \<Longrightarrow> sat_mul a b \<le> sat_mul a' b'"
  unfolding word_le_nat_alt unat_sat_mul by (intro min.mono mult_le_mono order_refl)

lemma unat_push_bit_1: "k < 64 \<Longrightarrow> unat (push_bit k (1 :: u64)) = 2 ^ k"
proof -
  assume "k < 64"
  then have "(2 :: nat) ^ k < 2 ^ 64" by (intro power_strict_increasing) simp_all
  moreover have "push_bit k (1 :: u64) = of_nat (2 ^ k)" by (simp add: push_bit_eq_mult)
  ultimately show ?thesis by (simp only: unat_of_nat) simp
qed

lemma capped_backoff_mono:
  assumes "prior \<le> prior'"
  shows "capped_backoff_ms policy prior \<le> capped_backoff_ms policy prior'"
proof -
  let ?e = "\<lambda>a. unat (min (sat_sub a 1) (20 :: u32))"
  have e: "?e a = min (unat a - 1) 20" for a
    by (simp add: min_def word_le_nat_alt unat_sat_sub)
  have "?e prior \<le> ?e prior'" and "?e a < 64" for a
    using assms unfolding e word_le_nat_alt by auto
  then have "push_bit (?e prior) (1 :: u64) \<le> push_bit (?e prior') 1"
    by (simp only: word_le_nat_alt unat_push_bit_1 power_increasing_iff)
  then show ?thesis
    unfolding capped_backoff_ms_def Let_def
    by (intro min.mono sat_mul_mono order_refl)
qed

lemma capped_backoff_le: "capped_backoff_ms policy prior \<le> sat_mul (unwrap_or (rp_max_backoff_seconds policy) 300) 1000"
  by (simp add: capped_backoff_ms_def Let_def)

lemma jitter_limit_le: "jitter_limit_ms policy capped \<le> capped"
proof -
  let ?p = "ucast (min (rp_jitter_percent policy) 100) :: u64"
  have "unat ?p \<le> 100"
    by (auto simp: unsigned_ucast_eq min_def word_le_nat_alt intro: order_trans [OF take_bit_nat_less_eq_self])
  then have "unat capped * unat ?p \<le> unat capped * 100" by (rule mult_le_mono2)
  then have "min (unat capped * unat ?p) (2 ^ 64 - 1) div 100 \<le> unat capped * 100 div 100"
    by (intro div_le_mono min.coboundedI1)
  then show ?thesis
    by (simp add: jitter_limit_ms_def word_le_nat_alt unat_div unat_sat_mul)
qed

lemma sint_diff_small:
  fixes a b :: u64
  assumes "unat a < 2 ^ 63" and "unat b < 2 ^ 63"
  shows "sint (a - b) = int (unat a) - int (unat b)"
proof -
  have "a - b = word_of_int (int (unat a) - int (unat b))"
    by (simp add: wi_hom_sub [symmetric] uint_nat [symmetric])
  moreover have "sint (word_of_int k :: u64) = k" if "- (2 ^ 63) \<le> k" "k < 2 ^ 63" for k
    using that by (simp add: signed_take_bit_int_eq_self sint_sbintrunc')
  moreover have "- (2 ^ 63) \<le> int (unat a) - int (unat b)" "int (unat a) - int (unat b) < 2 ^ 63"
    using assms by (simp_all del: int_nat_eq uint_nat of_nat_unat)
  ultimately show ?thesis by metis
qed

lemma jitter_bound:
  assumes "unat limit < 2 ^ 62"
  shows "\<bar>deterministic_jitter run_id nid attempt limit\<bar> \<le> int (unat limit)"
proof (cases "limit = 0")
  case False
  define hash where "hash = foldl fnv_step 0xcbf29ce484222325 (bytes run_id @ bytes nid @ to_le_bytes32 attempt)"
  let ?w = "sat_add (sat_mul limit 2) 1"
  have w: "unat ?w = 2 * unat limit + 1"
    using assms by (simp add: unat_sat_add unat_sat_mul)
  have "unat (hash mod ?w) < unat ?w"
    by (simp add: unat_mod w)
  then have m: "unat (hash mod ?w) \<le> 2 * unat limit" by (simp add: w)
  moreover have "deterministic_jitter run_id nid attempt limit = int (unat (hash mod ?w)) - int (unat limit)"
    unfolding deterministic_jitter_def hash_def [symmetric] Let_def u64_as_i64_def
    using False m assms by (subst sint_diff_small) simp_all
  ultimately show ?thesis by linarith
qed (simp add: deterministic_jitter_def)

lemma unat_word_of_small_int: "0 \<le> k \<Longrightarrow> k < 2 ^ 64 \<Longrightarrow> unat (word_of_int k :: u64) = nat k"
  by (simp add: unat_eq_nat_uint uint_word_of_int)

lemma signed_jitter_le:
  assumes "\<bar>j\<bar> \<le> int n" and "n < 2 ^ 63"
  shows "unat (apply_signed_jitter base j) \<le> unat base + n"
    and "unat base - n \<le> unat (apply_signed_jitter base j)"
  using assms unat_le_max [of base]
    unat_word_of_small_int [of j] unat_word_of_small_int [of "- j"]
  by (auto simp del: word_of_int_minus simp: apply_signed_jitter_def unat_sat_sub unat_sat_add)

lemma randomized_delay_le:
  assumes "unat (unwrap_or (rp_max_backoff_seconds policy) 300) * 1000 < 2 ^ 62"
  shows "unat (apply_signed_jitter (capped_backoff_ms policy prior)
      (deterministic_jitter run_id nid attempt (jitter_limit_ms policy (capped_backoff_ms policy prior))))
    \<le> 2 * (unat (unwrap_or (rp_max_backoff_seconds policy) 300) * 1000)"
proof -
  let ?c = "capped_backoff_ms policy prior" and ?m = "unwrap_or (rp_max_backoff_seconds policy) 300"
  let ?j = "jitter_limit_ms policy ?c"
  have c: "unat ?c \<le> unat ?m * 1000"
    using capped_backoff_le [of policy prior] unfolding word_le_nat_alt by (simp add: unat_sat_mul)
  have j: "unat ?j \<le> unat ?c"
    using jitter_limit_le [of policy ?c] by (simp add: word_le_nat_alt)
  have "unat ?j < 2 ^ 62" using c j assms by linarith
  then have "unat (apply_signed_jitter ?c (deterministic_jitter run_id nid attempt ?j)) \<le> unat ?c + unat ?j"
    by (intro signed_jitter_le(1) jitter_bound) simp_all
  with c j show ?thesis by linarith
qed

section \<open>What a scheduled retry satisfies\<close>

lemma decide_retry_ScheduleD:
  assumes "decide_retry run_id node prior c now started acc eqf nop ra = RD_Schedule s"
  shows "retryable c" "ns_idempotency_policy node \<noteq> IP_NonIdempotent"
    and "prior < max (rp_max_attempts (ns_retry_policy node)) 1"
    and "is_none_or (rp_max_equivalent_failures (ns_retry_policy node)) (\<lambda>limit. eqf < limit)"
    and "is_none_or (rp_max_no_progress_retries (ns_retry_policy node)) (\<lambda>limit. nop < limit)"
    and "is_none_or (rp_max_total_retry_delay_seconds (ns_retry_policy node))
          (\<lambda>limit. sat_add acc (rsch_chosen_delay_ms s) \<le> sat_mul limit 1000)"
    and "is_none_or (rp_schedule_to_close_seconds (ns_retry_policy node))
          (\<lambda>limit. rsch_next_attempt_at_ms s
             \<le> i64_sat_add started (u64_as_i64 (sat_mul limit 1000)))"
    and "rsch_chosen_delay_ms s = chosen_delay_ms run_id node prior ra"
    and "rsch_next_attempt_at_ms s =
          i64_sat_add now (u64_as_i64 (min (rsch_chosen_delay_ms s) (word_of_int i64_max)))"
    and "rsch_prior_attempt s = prior" "rsch_next_attempt s = sat_add prior 1"
proof -
  note unfolded = assms [unfolded decide_retry_def Let_def is_some_none]
  show "retryable c" "ns_idempotency_policy node \<noteq> IP_NonIdempotent"
    and "prior < max (rp_max_attempts (ns_retry_policy node)) 1"
    and "is_none_or (rp_max_equivalent_failures (ns_retry_policy node)) (\<lambda>limit. eqf < limit)"
    and "is_none_or (rp_max_no_progress_retries (ns_retry_policy node)) (\<lambda>limit. nop < limit)"
    using unfolded by (simp_all only: split: if_split_asm) (simp_all add: not_le)
  show "is_none_or (rp_max_total_retry_delay_seconds (ns_retry_policy node))
          (\<lambda>limit. sat_add acc (rsch_chosen_delay_ms s) \<le> sat_mul limit 1000)"
    and "is_none_or (rp_schedule_to_close_seconds (ns_retry_policy node))
          (\<lambda>limit. rsch_next_attempt_at_ms s
             \<le> i64_sat_add started (u64_as_i64 (sat_mul limit 1000)))"
    and "rsch_chosen_delay_ms s = chosen_delay_ms run_id node prior ra"
    and "rsch_next_attempt_at_ms s =
          i64_sat_add now (u64_as_i64 (min (rsch_chosen_delay_ms s) (word_of_int i64_max)))"
    and "rsch_prior_attempt s = prior" "rsch_next_attempt s = sat_add prior 1"
    using unfolded by (simp_all only: split: if_split_asm) (auto simp: not_less)
qed

lemma next_attempt_exact:
  assumes "decide_retry run_id node prior c now started acc eqf nop ra = RD_Schedule s"
  shows "unat (rsch_next_attempt s) = unat prior + 1"
    and "rsch_next_attempt s \<le> max (rp_max_attempts (ns_retry_policy node)) 1"
proof -
  have lt: "unat prior < unat (max (rp_max_attempts (ns_retry_policy node)) 1)"
    using decide_retry_ScheduleD(3) [OF assms] by (simp add: word_less_nat_alt)
  have "unat (max (rp_max_attempts (ns_retry_policy node)) 1) \<le> 2 ^ 32 - 1"
    using unat_le_max [of "max (rp_max_attempts (ns_retry_policy node)) 1"] by simp
  with lt show eq: "unat (rsch_next_attempt s) = unat prior + 1"
    by (simp add: decide_retry_ScheduleD(11) [OF assms] unat_sat_add)
  with lt show "rsch_next_attempt s \<le> max (rp_max_attempts (ns_retry_policy node)) 1"
    by (simp add: word_le_nat_alt)
qed

text \<open>The step from an attempt to the next one, for some failure and some clock.\<close>

inductive retry_next :: "string \<Rightarrow> node_spec \<Rightarrow> u32 \<Rightarrow> u32 \<Rightarrow> bool" for run_id node where
  "decide_retry run_id node prior c now started acc eqf nop ra = RD_Schedule s \<Longrightarrow>
   retry_next run_id node prior (rsch_next_attempt s)"

lemma retry_next_bound:
  assumes "retry_next run_id node a b"
  shows "unat b = unat a + 1 \<and> b \<le> max (rp_max_attempts (ns_retry_policy node)) 1"
  using assms by (cases rule: retry_next.cases) (auto dest: next_attempt_exact)

lemma retry_chain_counts:
  "(retry_next run_id node ^^ n) a b \<Longrightarrow>
   unat b = unat a + n \<and> (0 < n \<longrightarrow> b \<le> max (rp_max_attempts (ns_retry_policy node)) 1)"
proof (induction n arbitrary: b)
  case (Suc n)
  then obtain c where "(retry_next run_id node ^^ n) a c" and "retry_next run_id node c b"
    by (auto elim: relpowp_Suc_E)
  with Suc.IH [of c] retry_next_bound [of run_id node c b] show ?case by simp
qed simp

section \<open>Properties\<close>

text \<open>An agent that may be tried three times, with the limits of the unit tests of the code.\<close>

definition worker3 :: node_spec where
  "worker3 = (minimal_node ''worker'' NK_Agent ''work'')
     \<lparr>ns_retry_policy := default_retry_policy
       \<lparr>rp_max_attempts := 3, rp_backoff_seconds := Some 2, rp_max_backoff_seconds := Some 30,
        rp_max_total_retry_delay_seconds := Some 60, rp_jitter_percent := 0\<rparr>\<rparr>"

lemmas decision_eval =
  decide_retry_def worker3_def minimal_node_def default_retry_policy_def retryable_def Let_def
  chosen_delay_ms_def retry_jitter_ms_def jitter_limit_ms_def deterministic_jitter_def
  apply_signed_jitter_def capped_backoff_ms_def sat_mul_def sat_add_def sat_sub_def
  unsigned_minus_1_eq_mask mask_eq_exp_minus_1 i64_sat_add_def i64_sat_def i64_max_def i64_min_def
  u64_as_i64_def push_bit_eq_mult min_def max_def word_le_nat_alt

lemma worker3_decision:
  "decide_retry ''run'' worker3 1 FC_RateLimited 10000 1000 0 0 0 (Some 3000) =
   RD_Schedule \<lparr>rsch_run_id = ''run'', rsch_node_id = ''worker'', rsch_prior_attempt = 1,
     rsch_next_attempt = 2, rsch_classification = FC_RateLimited, rsch_chosen_delay_ms = 3000,
     rsch_next_attempt_at_ms = 13000, rsch_retry_after_ms = Some 3000, rsch_jitter_ms = 0,
     rsch_equivalent_failure_count = 1, rsch_no_progress_count = 1\<rparr>"
  by (simp add: decision_eval)

text \<open>
  C35. A retry is scheduled only for a retryable failure of an idempotent node with attempts left,
  below the equivalent-failure and no-progress limits; its number is the next attempt, within
  the maximum; its delay respects the server's retry-after and the total delay allowed; it starts
  the delay after now, and not after the schedule-to-close deadline of the run, as the code computes
  the deadline (start of the run plus the limit in milliseconds, cast to \<^verbatim>\<open>i64\<close>).
\<close>

theorem scheduled_retry_is_allowed:
  assumes "decide_retry run_id node prior c now started acc eqf nop ra = RD_Schedule s"
  defines "policy \<equiv> ns_retry_policy node"
  shows "retryable c \<and> ns_idempotency_policy node = IP_Idempotent \<and>
    unat (rsch_next_attempt s) = unat prior + 1 \<and>
    rsch_next_attempt s \<le> max (rp_max_attempts policy) 1 \<and>
    is_none_or (rp_max_equivalent_failures policy) (\<lambda>limit. eqf < limit) \<and>
    is_none_or (rp_max_no_progress_retries policy) (\<lambda>limit. nop < limit) \<and>
    unwrap_or ra 0 \<le> rsch_chosen_delay_ms s \<and>
    is_none_or (rp_max_total_retry_delay_seconds policy)
      (\<lambda>limit. sat_add acc (rsch_chosen_delay_ms s) \<le> sat_mul limit 1000) \<and>
    rsch_next_attempt_at_ms s = i64_sat_add now (u64_as_i64 (min (rsch_chosen_delay_ms s) (word_of_int i64_max))) \<and>
    is_none_or (rp_schedule_to_close_seconds policy)
      (\<lambda>limit. rsch_next_attempt_at_ms s \<le> i64_sat_add started (u64_as_i64 (sat_mul limit 1000)))"
proof -
  have "ns_idempotency_policy node = IP_Idempotent"
    using decide_retry_ScheduleD(2) [OF assms(1)] by (cases "ns_idempotency_policy node") simp_all
  moreover have "unwrap_or ra 0 \<le> rsch_chosen_delay_ms s"
    by (simp add: decide_retry_ScheduleD(8) [OF assms(1)] chosen_delay_ms_def)
  ultimately show ?thesis
    using decide_retry_ScheduleD(1,4,5,6,7,9) [OF assms(1)] next_attempt_exact [OF assms(1)]
    unfolding policy_def by blast
qed

text \<open>The same node with a deadline of one minute after the start of the run.\<close>

definition worker3_deadline :: node_spec where
  "worker3_deadline = worker3\<lparr>ns_retry_policy := (ns_retry_policy worker3)\<lparr>rp_schedule_to_close_seconds := Some 60\<rparr>\<rparr>"

lemma worker3_deadline_decision:
  "\<exists>s. decide_retry ''run'' worker3_deadline 1 FC_RateLimited 10000 1000 0 0 0 (Some 3000) = RD_Schedule s"
  by (simp add: worker3_deadline_def decision_eval)

theorem scheduled_retry_is_allowed_witness:
  "\<exists>s. decide_retry ''run'' worker3_deadline 1 FC_RateLimited 10000 1000 0 0 0 (Some 3000) = RD_Schedule s \<and>
     unat (rsch_next_attempt s) = 2 \<and> 3000 \<le> rsch_chosen_delay_ms s \<and> rsch_next_attempt_at_ms s \<le> 61000"
proof -
  obtain s where s: "decide_retry ''run'' worker3_deadline 1 FC_RateLimited 10000 1000 0 0 0 (Some 3000) = RD_Schedule s"
    using worker3_deadline_decision by blast
  from scheduled_retry_is_allowed [OF s] have "rsch_next_attempt_at_ms s \<le> i64_sat_add 1000 (u64_as_i64 (sat_mul 60 1000))"
    "unat (rsch_next_attempt s) = 2" "3000 \<le> rsch_chosen_delay_ms s"
    by (simp_all add: worker3_deadline_def unat_1)
  moreover have "i64_sat_add 1000 (u64_as_i64 (sat_mul 60 1000)) = 61000" by (simp add: decision_eval)
  ultimately show ?thesis using s by auto
qed

text \<open>
  The delay of a scheduled retry is bounded: with a maximum backoff below \<open>2 ^ 62\<close>
  milliseconds it is at most twice that maximum or what the server asked for.
\<close>

lemma retry_delay_bound:
  assumes "decide_retry run_id node prior c now started acc eqf nop ra = RD_Schedule s"
    and "unat (unwrap_or (rp_max_backoff_seconds (ns_retry_policy node)) 300) * 1000 < 2 ^ 62"
  shows "unat (rsch_chosen_delay_ms s)
    \<le> max (2 * (unat (unwrap_or (rp_max_backoff_seconds (ns_retry_policy node)) 300) * 1000))
        (unat (unwrap_or ra 0))"
  using randomized_delay_le [OF assms(2), of prior run_id "ns_id node" prior]
  by (auto simp: decide_retry_ScheduleD(8) [OF assms(1)] chosen_delay_ms_def retry_jitter_ms_def max_def)

text \<open>
  Retries end: from the first attempt, whatever failures follow and whatever the clock says,
  a chain of scheduled retries is shorter than the maximum number of attempts.
\<close>

lemma retry_chain_bounded:
  assumes "(retry_next run_id node ^^ n) 1 attempt"
  shows "n < unat (max (rp_max_attempts (ns_retry_policy node)) 1)"
proof (cases "n = 0")
  case True
  then show ?thesis by (simp add: max_def word_le_nat_alt not_le)
next
  case False
  with retry_chain_counts [OF assms] show ?thesis by (simp add: word_le_nat_alt)
qed

text \<open>
  The backoff never shrinks from one attempt to a later one and never exceeds its cap.
\<close>

lemma backoff_monotone:
  assumes "prior \<le> later"
  shows "capped_backoff_ms policy prior \<le> capped_backoff_ms policy later \<and>
    capped_backoff_ms policy later \<le> sat_mul (unwrap_or (rp_max_backoff_seconds policy) 300) 1000"
  using capped_backoff_mono [OF assms] capped_backoff_le by blast

text \<open>
  A schedule-to-close limit so large that its milliseconds leave \<open>i64\<close> puts the deadline before
  the start of the run: the largest limit stops a retry that the absence of a limit allows.
\<close>

lemma schedule_to_close_wraps:
  "decide_retry ''run''
     (worker3\<lparr>ns_retry_policy := (ns_retry_policy worker3)\<lparr>rp_schedule_to_close_seconds := Some (- 1)\<rparr>\<rparr>)
     1 FC_RateLimited 10000 1000 0 0 0 (Some 3000) =
   RD_Stop ''schedule-to-close deadline would be exceeded''"
  by (simp add: decision_eval)

end
