(* ===== verification/Topology.thy ===== *)
theory Topology
  imports Graph_Types
begin

text \<open>
  The shape of a graph, \<^verbatim>\<open>agent_graph/topology.rs\<close>: the dependencies that edges, input bindings,
  map and reduce sources and routes give, the topological sort by ready nodes, and the report with
  levels and widths. The sums of widths and the levels are \<open>u32\<close>s that wrap as in a release build.

  The lemmas show that the sort ends, that its order is a permutation of the nodes in which every
  node follows its dependencies, that it fails exactly on cyclic graphs and then names nodes on
  which a cycle lies, and what the levels are.
\<close>

section \<open>Data\<close>

record topology_report =
  tp_node_count :: nat
  tp_edge_count :: nat
  tp_initial_ready_width :: u32
  tp_initial_ready_agent_width :: u32
  tp_maximum_theoretical_width :: u32
  tp_critical_path_length :: u32
  tp_topological_order :: "node_id list"
  tp_disconnected_independent_nodes :: "node_id list"

datatype topology_error =
    Duplicate_Node node_id
  | Unknown_Node node_id
  | Cycle "node_id list"

type_synonym node_map = "(node_id, node_spec) bmap"
type_synonym dependencies = "(node_id, node_id bset) bmap"

section \<open>Operations\<close>

definition build_node_map :: "graph_spec \<Rightarrow> (topology_error, node_map) result" where
  "build_node_map spec =
     fold_r (\<lambda>node m. if bm_contains m (ns_id node) then Err (Duplicate_Node (ns_id node))
                      else Ok (bm_insert (ns_id node) node m)) (sb_nodes (gs_spec spec)) []"

definition ensure_known :: "node_id \<Rightarrow> node_map \<Rightarrow> (topology_error, unit) result" where
  "ensure_known nid node_map = (if bm_contains node_map nid then Ok () else Err (Unknown_Node nid))"

text \<open>
  The dependencies in the order the code adds them: the ids it checks, the node that depends, and
  the node it depends on.
\<close>

type_synonym dependency_entry = "node_id list \<times> node_id \<times> node_id"

definition edge_entry :: "edge_spec \<Rightarrow> dependency_entry" where
  "edge_entry edge = ([es_from edge, es_to edge], es_to edge, es_from edge)"

definition node_entries :: "node_spec \<Rightarrow> dependency_entry list" where
  "node_entries node =
     map (\<lambda>binding. ([ib_from_node binding], ns_id node, ib_from_node binding)) (bm_values (ns_inputs node))
     @ (case ns_map node of None \<Rightarrow> [] | Some m \<Rightarrow> [([ms_from_node m], ns_id node, ms_from_node m)])
     @ (case ns_reduce node of None \<Rightarrow> [] | Some r \<Rightarrow> [([rs_from_node r], ns_id node, rs_from_node r)])
     @ map (\<lambda>route. ([rt_to route], rt_to route, ns_id node)) (ns_routes node)"

definition dependency_entries :: "graph_spec \<Rightarrow> dependency_entry list" where
  "dependency_entries spec =
     map edge_entry (sb_edges (gs_spec spec)) @ concat (map node_entries (sb_nodes (gs_spec spec)))"

fun add_dependency ::
  "node_map \<Rightarrow> dependency_entry \<Rightarrow> dependencies \<Rightarrow> (topology_error, dependencies) result" where
  "add_dependency node_map (checked, target, source) deps =
     bind_r (fold_r (\<lambda>nid _. ensure_known nid node_map) checked ()) (\<lambda>_.
       Ok (bm_insert target (bs_insert source (unwrap_or (bm_get deps target) [])) deps))"

definition dependency_map :: "graph_spec \<Rightarrow> node_map \<Rightarrow> (topology_error, dependencies) result" where
  "dependency_map spec node_map =
     fold_r (add_dependency node_map) (dependency_entries spec)
       (map (\<lambda>nid. (nid, [])) (bm_keys node_map))"

definition ready_nodes :: "dependencies \<Rightarrow> node_id list" where
  "ready_nodes deps = map fst (filter (\<lambda>(_, ds). ds = []) deps)"

text \<open>Taking a node out of the dependencies of all others, and the nodes that this makes ready.\<close>

definition without :: "node_id \<Rightarrow> dependencies \<Rightarrow> dependencies" where
  "without nid deps = map (\<lambda>(c, ds). (c, bs_remove nid ds)) deps"

definition affected :: "node_id \<Rightarrow> dependencies \<Rightarrow> node_id list" where
  "affected nid deps =
     map fst (filter (\<lambda>(_, ds). nid \<in> set ds \<and> bs_remove nid ds = []) deps)"

function sort_loop ::
  "dependencies \<Rightarrow> node_id list \<Rightarrow> node_id list \<Rightarrow> dependencies \<times> node_id list" where
  "sort_loop remaining [] order = (remaining, order)"
| "sort_loop remaining (nid # ready) order =
     (if \<not> bm_contains remaining nid then sort_loop remaining ready order
      else let remaining1 = bm_remove nid remaining
           in sort_loop (without nid remaining1) (ready @ affected nid remaining1) (order @ [nid]))"
  by pat_completeness auto

lemma length_bm_remove_less: "bm_contains m k \<Longrightarrow> length (bm_remove k m) < length m"
  by (induction m) (auto simp: bm_contains_def bm_get_def bm_remove_def le_imp_less_Suc split: if_splits)

termination sort_loop
  by (relation "measures [\<lambda>(remaining, _, _). length remaining, \<lambda>(_, ready, _). length ready]")
    (auto simp: without_def length_bm_remove_less)

declare sort_loop.simps(2) [simp del]

definition topological_sort :: "dependencies \<Rightarrow> (topology_error, node_id list) result" where
  "topological_sort deps =
     (case sort_loop deps (ready_nodes deps) [] of
        (remaining, order) \<Rightarrow>
          if remaining = [] then Ok order else Err (Cycle (bm_keys remaining)))"

definition max_u32 :: "u32 list \<Rightarrow> u32" where
  "max_u32 xs = foldr max xs 0"

definition level_of :: "dependencies \<Rightarrow> (node_id, u32) bmap \<Rightarrow> node_id \<Rightarrow> u32" where
  "level_of deps levels nid =
     max_u32 (map (\<lambda>level. level + 1)
       (List.map_filter (bm_get levels) (unwrap_or (bm_get deps nid) [])))"

definition compute_levels :: "dependencies \<Rightarrow> node_id list \<Rightarrow> (node_id, u32) bmap" where
  "compute_levels deps order =
     fold (\<lambda>nid levels. bm_insert nid (level_of deps levels nid) levels) order []"

definition width_by_level :: "node_map \<Rightarrow> (node_id, u32) bmap \<Rightarrow> (u32, u32) bmap" where
  "width_by_level node_map levels =
     fold (\<lambda>(nid, level) widths.
       case bm_get node_map nid of
         None \<Rightarrow> widths
       | Some node \<Rightarrow>
           bm_insert level (unwrap_or (bm_get widths level) 0 + expected_instance_count node) widths)
       levels []"

definition analyze_topology :: "graph_spec \<Rightarrow> (topology_error, topology_report) result" where
  "analyze_topology spec =
     bind_r (build_node_map spec) (\<lambda>node_map.
     bind_r (dependency_map spec node_map) (\<lambda>deps.
     bind_r (topological_sort deps) (\<lambda>order.
       let roots = ready_nodes deps;
           levels = compute_levels deps order;
           root_nodes = List.map_filter (bm_get node_map) roots
       in Ok \<lparr>tp_node_count = length (sb_nodes (gs_spec spec)),
              tp_edge_count = length (sb_edges (gs_spec spec)),
              tp_initial_ready_width = sum_list (map expected_instance_count root_nodes),
              tp_initial_ready_agent_width =
                sum_list (map expected_instance_count (filter is_model_worker root_nodes)),
              tp_maximum_theoretical_width =
                max_u32 (bm_values (width_by_level node_map levels)),
              tp_critical_path_length =
                (if levels = [] then 0 else max_u32 (bm_values levels) + 1),
              tp_topological_order = order,
              tp_disconnected_independent_nodes = roots\<rparr>)))"

section \<open>The sort\<close>

text \<open>
  The state of the loop, for the dependencies \<open>deps\<close> it started from: the nodes are those ordered
  and those remaining; a remaining node waits for its dependencies that are not ordered yet; an
  ordered node comes after its dependencies; the ready nodes are those that wait for nothing.
\<close>

definition deps_of :: "dependencies \<Rightarrow> node_id \<Rightarrow> node_id set" where
  "deps_of deps nid = set (unwrap_or (bm_get deps nid) [])"

definition follows_deps :: "dependencies \<Rightarrow> node_id list \<Rightarrow> bool" where
  "follows_deps deps order \<longleftrightarrow>
     (\<forall>i < length order. deps_of deps (order ! i) \<subseteq> set (take i order))"

definition sort_inv :: "dependencies \<Rightarrow> dependencies \<Rightarrow> node_id list \<Rightarrow> node_id list \<Rightarrow> bool" where
  "sort_inv deps remaining ready order \<longleftrightarrow>
     distinct (map fst remaining) \<and> distinct order \<and>
     set (bm_keys remaining) \<inter> set order = {} \<and>
     set (bm_keys remaining) \<union> set order = set (bm_keys deps) \<and>
     (\<forall>(nid, ds) \<in> set remaining. set ds = deps_of deps nid - set order) \<and>
     follows_deps deps order \<and>
     (\<forall>(nid, ds) \<in> set remaining. ds = [] \<longleftrightarrow> nid \<in> set ready)"

lemma follows_deps_snoc:
  "follows_deps deps order \<Longrightarrow> deps_of deps nid \<subseteq> set order \<Longrightarrow> follows_deps deps (order @ [nid])"
  by (auto simp: follows_deps_def nth_append less_Suc_eq)

lemma map_fst_without [simp]: "map fst (without nid m) = map fst m"
  by (simp add: without_def comp_def split_beta)

lemma set_without: "(c, ds') \<in> set (without nid m) \<longleftrightarrow> (\<exists>ds. (c, ds) \<in> set m \<and> ds' = bs_remove nid ds)"
  by (auto simp: without_def)

lemma set_affected: "c \<in> set (affected nid m) \<longleftrightarrow> (\<exists>ds. (c, ds) \<in> set m \<and> nid \<in> set ds \<and> bs_remove nid ds = [])"
  by (force simp: affected_def)

lemma bs_remove_absent: "x \<notin> set s \<Longrightarrow> bs_remove x s = s"
  by (auto simp: bs_remove_def filter_id_conv)

lemma sort_invI:
  assumes "distinct (map fst remaining)" and "distinct order"
    and "set (bm_keys remaining) \<inter> set order = {}"
    and "set (bm_keys remaining) \<union> set order = set (bm_keys deps)"
    and "\<And>nid ds. (nid, ds) \<in> set remaining \<Longrightarrow> set ds = deps_of deps nid - set order"
    and "follows_deps deps order"
    and "\<And>nid ds. (nid, ds) \<in> set remaining \<Longrightarrow> ds = [] \<longleftrightarrow> nid \<in> set ready"
  shows "sort_inv deps remaining ready order"
  using assms(1-4,6) unfolding sort_inv_def by (simp add: assms(5,7) split_beta)

lemma sort_invD:
  assumes "sort_inv deps remaining ready order"
  shows "distinct (map fst remaining)" and "distinct order"
    and "set (bm_keys remaining) \<inter> set order = {}"
    and "set (bm_keys remaining) \<union> set order = set (bm_keys deps)"
    and "(nid, ds) \<in> set remaining \<Longrightarrow> set ds = deps_of deps nid - set order"
    and "follows_deps deps order"
    and "(nid, ds) \<in> set remaining \<Longrightarrow> ds = [] \<longleftrightarrow> nid \<in> set ready"
  using assms unfolding sort_inv_def by blast+

lemma sort_inv_skip:
  assumes "sort_inv deps remaining (nid # ready) order" and "\<not> bm_contains remaining nid"
  shows "sort_inv deps remaining ready order"
proof (rule sort_invI)
  show "ds = [] \<longleftrightarrow> c \<in> set ready" if "(c, ds) \<in> set remaining" for c ds
  proof -
    have "c \<noteq> nid" using that assms(2) by (force simp: bm_contains_keys bm_keys_def)
    with sort_invD(7) [OF assms(1) that] show ?thesis by simp
  qed
qed (use sort_invD(1-6) [OF assms(1)] in simp_all)

lemma sort_inv_take:
  assumes inv: "sort_inv deps remaining (nid # ready) order" and "bm_contains remaining nid"
  defines "remaining1 \<equiv> bm_remove nid remaining"
  shows "sort_inv deps (without nid remaining1) (ready @ affected nid remaining1) (order @ [nid])"
proof -
  obtain ds where ds: "(nid, ds) \<in> set remaining"
    using assms(2) by (auto simp: bm_contains_keys bm_keys_def)
  have before: "deps_of deps nid \<subseteq> set order"
    using sort_invD(5,7) [OF inv ds] by auto
  have dist: "distinct (map fst remaining)" by (rule sort_invD(1) [OF inv])
  have sub: "(c, e) \<in> set remaining1 \<longleftrightarrow> (c, e) \<in> set remaining \<and> c \<noteq> nid" for c e
    by (auto simp: remaining1_def bm_remove_def)
  have waits: "set e' = deps_of deps c - set (order @ [nid])" if "(c, e') \<in> set (without nid remaining1)" for c e'
    using that sort_invD(5) [OF inv] by (fastforce simp: set_without sub set_bs_remove)
  have ready: "e' = [] \<longleftrightarrow> c \<in> set (ready @ affected nid remaining1)"
    if c: "(c, e') \<in> set (without nid remaining1)" for c e'
  proof -
    obtain e where e: "(c, e) \<in> set remaining" "c \<noteq> nid" "e' = bs_remove nid e"
      using c by (auto simp: set_without sub)
    have same: "e2 = e" if "(c, e2) \<in> set remaining" for e2
      using that e(1) dist by (meson eq_key_imp_eq_value)
    have "e = [] \<longleftrightarrow> c \<in> set ready" using sort_invD(7) [OF inv e(1)] e(2) by simp
    moreover have "c \<in> set (affected nid remaining1) \<longleftrightarrow> nid \<in> set e \<and> e' = []"
    proof
      assume "c \<in> set (affected nid remaining1)"
      then obtain e2 where e2: "(c, e2) \<in> set remaining" "nid \<in> set e2" "bs_remove nid e2 = []"
        by (auto simp: set_affected sub)
      with same [OF e2(1)] e(3) show "nid \<in> set e \<and> e' = []" by simp
    next
      assume "nid \<in> set e \<and> e' = []"
      with e show "c \<in> set (affected nid remaining1)" unfolding set_affected sub by metis
    qed
    moreover have "nid \<notin> set e \<Longrightarrow> e' = e" using e(3) by (simp add: bs_remove_absent)
    moreover have "e = [] \<Longrightarrow> e' = []" using e(3) by (simp add: bs_remove_def)
    ultimately show ?thesis by auto
  qed
  have keys: "set (bm_keys (without nid remaining1)) = set (bm_keys remaining) - {nid}"
    by (simp only: bm_keys_def map_fst_without remaining1_def bm_keys_remove [unfolded bm_keys_def])
  have nin: "nid \<in> set (bm_keys remaining)" using assms(2) by (simp add: bm_contains_keys)
  have "distinct (map fst (without nid remaining1))"
    using dist by (simp add: remaining1_def map_fst_remove)
  moreover have "distinct (order @ [nid])" and "set (bm_keys (without nid remaining1)) \<inter> set (order @ [nid]) = {}"
    and "set (bm_keys (without nid remaining1)) \<union> set (order @ [nid]) = set (bm_keys deps)"
    using sort_invD(2-4) [OF inv] nin keys by auto
  moreover have "follows_deps deps (order @ [nid])"
    by (rule follows_deps_snoc [OF sort_invD(6) [OF inv] before])
  ultimately show ?thesis using waits ready by (intro sort_invI)
qed

lemma sort_loop_inv:
  "sort_inv deps remaining ready order \<Longrightarrow> sort_loop remaining ready order = (r, order') \<Longrightarrow>
   sort_inv deps r [] order'"
proof (induction remaining ready order rule: sort_loop.induct)
  case (2 remaining nid ready order)
  then show ?case
    using sort_inv_skip [of deps remaining nid ready order] sort_inv_take [of deps remaining nid ready order]
    by (cases "bm_contains remaining nid") (simp_all add: sort_loop.simps(2) Let_def)
qed simp

lemma sort_inv_start:
  assumes "bm_wf deps"
  shows "sort_inv deps deps (ready_nodes deps) []"
proof -
  have "set ds = deps_of deps nid" and "ds = [] \<longleftrightarrow> nid \<in> set (ready_nodes deps)" if "(nid, ds) \<in> set deps" for nid ds
  proof -
    have get: "bm_get deps nid = Some e \<longleftrightarrow> (nid, e) \<in> set deps" for e
      by (rule bm_get_Some_iff [OF assms])
    with that have nid: "bm_get deps nid = Some ds" by blast
    then show "set ds = deps_of deps nid" by (simp add: deps_of_def)
    have "nid \<in> set (ready_nodes deps) \<longleftrightarrow> (nid, []) \<in> set deps"
      by (force simp: ready_nodes_def)
    then show "ds = [] \<longleftrightarrow> nid \<in> set (ready_nodes deps)" using nid get by (metis option.inject)
  qed
  then show ?thesis
    using assms by (intro sort_invI) (simp_all add: bm_wf_def follows_deps_def)
qed

lemma topological_sort_Ok:
  assumes "bm_wf deps" and "topological_sort deps = Ok order"
  shows "distinct order" "set order = set (bm_keys deps)" "follows_deps deps order"
  using sort_loop_inv [OF sort_inv_start [OF assms(1)]] assms(2)
  by (auto simp: topological_sort_def sort_inv_def bm_keys_def split: prod.splits if_splits)

lemma topological_sort_Err:
  assumes "bm_wf deps" and closed: "\<And>nid. deps_of deps nid \<subseteq> set (bm_keys deps)"
    and "topological_sort deps = Err e"
  shows "\<exists>nodes. e = Cycle nodes \<and> nodes \<noteq> [] \<and> set nodes \<subseteq> set (bm_keys deps) \<and>
    (\<forall>nid \<in> set nodes. \<exists>dep \<in> set nodes. dep \<in> deps_of deps nid)"
proof -
  obtain r order where loop: "sort_loop deps (ready_nodes deps) [] = (r, order)" by fastforce
  then have e: "e = Cycle (bm_keys r)" "r \<noteq> []"
    using assms(3) by (auto simp: topological_sort_def split: if_splits)
  have inv: "sort_inv deps r [] order" by (rule sort_loop_inv [OF sort_inv_start [OF assms(1)] loop])
  have "\<exists>dep \<in> set (bm_keys r). dep \<in> deps_of deps nid" if nid: "nid \<in> set (bm_keys r)" for nid
  proof -
    obtain ds where ds: "(nid, ds) \<in> set r" using nid by (auto simp: bm_keys_def)
    then have "set ds \<noteq> {}" and "set ds = deps_of deps nid - set order"
      using inv by (auto simp: sort_inv_def)
    then obtain dep where "dep \<in> deps_of deps nid" "dep \<notin> set order" by auto
    with closed [of nid] inv show ?thesis by (auto simp: sort_inv_def)
  qed
  moreover have "set (bm_keys r) \<subseteq> set (bm_keys deps)" using inv by (auto simp: sort_inv_def)
  ultimately show ?thesis using e by (auto simp: bm_keys_def)
qed

text \<open>A graph is acyclic when its nodes can be ranked so that every dependency ranks lower.\<close>

definition acyclic_deps :: "dependencies \<Rightarrow> bool" where
  "acyclic_deps deps \<longleftrightarrow> (\<exists>rank :: node_id \<Rightarrow> nat. \<forall>nid. \<forall>dep \<in> deps_of deps nid. rank dep < rank nid)"

lemma follows_deps_acyclic:
  assumes "distinct order" and "set order = set (bm_keys deps)" and "follows_deps deps order"
  shows "acyclic_deps deps"
proof -
  define rank where "rank nid = length (takeWhile (\<lambda>x. x \<noteq> nid) order)" for nid
  have at: "rank (order ! i) = i" if "i < length order" for i
  proof -
    have "order ! i \<notin> set (take i order)"
      using assms(1) that by (auto simp: in_set_conv_nth nth_eq_iff_index_eq)
    then have "takeWhile (\<lambda>x. x \<noteq> order ! i) order = take i order"
      using that by (intro takeWhile_eq_take_P_nth) (auto simp: in_set_conv_nth)
    with that show ?thesis by (simp add: rank_def)
  qed
  have "rank dep < rank nid" if dep: "dep \<in> deps_of deps nid" for nid dep
  proof -
    have "nid \<in> set (bm_keys deps)"
      using dep by (cases "bm_get deps nid") (auto simp: deps_of_def bm_contains_keys [symmetric] bm_contains_def)
    then obtain i where i: "i < length order" "order ! i = nid" using assms(2) by (metis in_set_conv_nth)
    then have "dep \<in> set (take i order)" using assms(3) dep by (auto simp: follows_deps_def)
    then obtain j where "j < i" "order ! j = dep" using i(1) by (auto simp: in_set_conv_nth)
    with i at show ?thesis by (metis order.strict_trans)
  qed
  then show ?thesis by (auto simp: acyclic_deps_def)
qed

lemma no_cycle_in_acyclic:
  assumes "acyclic_deps deps" and "nodes \<noteq> []" and "\<forall>nid \<in> set nodes. \<exists>dep \<in> set nodes. dep \<in> deps_of deps nid"
  shows False
proof -
  obtain rank :: "node_id \<Rightarrow> nat" where rank: "\<And>nid dep. dep \<in> deps_of deps nid \<Longrightarrow> rank dep < rank nid"
    using assms(1) by (auto simp: acyclic_deps_def)
  obtain nid where "nid \<in> set nodes" and "\<And>x. x \<in> set nodes \<Longrightarrow> rank nid \<le> rank x"
    using ex_min_if_finite [of "rank ` set nodes"] assms(2)
    by (metis (no_types, lifting) List.finite_set arg_min_if_finite(1) arg_min_least set_empty)
  with assms(3) rank show False by (meson linorder_not_le)
qed

section \<open>The dependencies of a graph\<close>

lemma build_node_map_Ok:
  assumes "build_node_map spec = Ok m"
  shows "bm_wf m" "set (bm_keys m) = ns_id ` set (sb_nodes (gs_spec spec))"
    and "distinct (map ns_id (sb_nodes (gs_spec spec)))"
proof -
  let ?f = "\<lambda>node m. if bm_contains m (ns_id node) then Err (Duplicate_Node (ns_id node))
    else Ok (bm_insert (ns_id node) node m)"
  have "fold_r ?f nodes m0 = Ok m \<Longrightarrow> bm_wf m0 \<Longrightarrow>
    bm_wf m \<and> set (bm_keys m) = set (bm_keys m0) \<union> ns_id ` set nodes \<and>
    distinct (map ns_id nodes) \<and> ns_id ` set nodes \<inter> set (bm_keys m0) = {}" for nodes m0
  proof (induction nodes arbitrary: m0)
    case (Cons n nodes)
    then have new: "\<not> bm_contains m0 (ns_id n)" and "fold_r ?f nodes (bm_insert (ns_id n) n m0) = Ok m"
      by (auto split: if_splits)
    from Cons.IH [OF this(2)] Cons.prems(2) new show ?case
      by (auto simp: bm_wf_insert bm_keys_insert bm_contains_keys)
  qed simp
  from this [of "sb_nodes (gs_spec spec)" "[]"] assms
  show "bm_wf m" "set (bm_keys m) = ns_id ` set (sb_nodes (gs_spec spec))"
    and "distinct (map ns_id (sb_nodes (gs_spec spec)))"
    by (simp_all add: build_node_map_def bm_keys_def)
qed

lemma build_node_map_distinct:
  assumes "distinct (map ns_id (sb_nodes (gs_spec spec)))"
  shows "\<exists>m. build_node_map spec = Ok m"
proof -
  let ?f = "\<lambda>node m. if bm_contains m (ns_id node) then Err (Duplicate_Node (ns_id node))
    else Ok (bm_insert (ns_id node) node m)"
  have "distinct (map ns_id nodes) \<Longrightarrow> ns_id ` set nodes \<inter> set (bm_keys m0) = {} \<Longrightarrow>
    \<exists>m. fold_r ?f nodes m0 = Ok m" for nodes m0
  proof (induction nodes arbitrary: m0)
    case (Cons n nodes)
    then have "\<not> bm_contains m0 (ns_id n)" by (auto simp: bm_contains_keys)
    with Cons show ?case by (auto simp: bm_keys_insert)
  qed simp
  from this [OF assms, of "[]"] show ?thesis by (simp add: build_node_map_def bm_keys_def)
qed

lemma check_known: "fold_r (\<lambda>nid _. ensure_known nid m) checked () = Ok () \<longleftrightarrow> (\<forall>x \<in> set checked. bm_contains m x)"
  by (induction checked) (auto simp: ensure_known_def)

lemma deps_of_insert:
  "deps_of (bm_insert target (bs_insert source (unwrap_or (bm_get deps target) [])) deps) nid =
   deps_of deps nid \<union> (if nid = target then {source} else {})"
  by (simp add: deps_of_def bm_get_insert set_bs_insert)

lemma add_dependencies_Ok:
  "fold_r (add_dependency m) entries deps0 = Ok deps \<Longrightarrow> bm_wf deps0 \<Longrightarrow>
   bm_wf deps \<and> (\<forall>nid. deps_of deps nid = deps_of deps0 nid \<union> {s. \<exists>cs. (cs, nid, s) \<in> set entries}) \<and>
   set (bm_keys deps) = set (bm_keys deps0) \<union> {t. \<exists>cs s. (cs, t, s) \<in> set entries} \<and>
   (\<forall>(cs, _, _) \<in> set entries. \<forall>x \<in> set cs. bm_contains m x)"
proof (induction entries arbitrary: deps0)
  case (Cons e entries)
  obtain cs t s where e: "e = (cs, t, s)" by (cases e)
  let ?d = "bm_insert t (bs_insert s (unwrap_or (bm_get deps0 t) [])) deps0"
  have known: "\<forall>x \<in> set cs. bm_contains m x" and rest: "fold_r (add_dependency m) entries ?d = Ok deps"
    using Cons.prems(1) by (auto simp: e bind_r_eq_Ok check_known)
  from Cons.IH [OF rest bm_wf_insert [OF Cons.prems(2)]] known show ?case
    by (auto simp: e deps_of_insert bm_keys_insert split: if_splits)
qed simp

lemma add_dependencies_total:
  "\<forall>(cs, _, _) \<in> set entries. \<forall>x \<in> set cs. bm_contains m x \<Longrightarrow>
   \<exists>deps. fold_r (add_dependency m) entries deps0 = Ok deps"
proof (induction entries arbitrary: deps0)
  case (Cons e entries)
  obtain cs t s where e: "e = (cs, t, s)" by (cases e)
  have "fold_r (\<lambda>nid _. ensure_known nid m) cs () = Ok ()"
    using Cons.prems by (simp add: e check_known)
  with Cons show ?case by (simp add: e)
qed simp

lemma entry_known:
  "(cs, t, s) \<in> set (dependency_entries spec) \<Longrightarrow>
   {t, s} \<subseteq> set cs \<union> ns_id ` set (sb_nodes (gs_spec spec))"
  by (auto simp: dependency_entries_def edge_entry_def node_entries_def split: option.splits)

lemma dependency_map_Ok:
  assumes m: "build_node_map spec = Ok m" and "dependency_map spec m = Ok deps"
  shows "bm_wf deps" "set (bm_keys deps) = ns_id ` set (sb_nodes (gs_spec spec))"
    and "deps_of deps nid = {s. \<exists>cs. (cs, nid, s) \<in> set (dependency_entries spec)}"
    and "deps_of deps nid \<subseteq> set (bm_keys deps)"
    and "\<forall>(cs, _, _) \<in> set (dependency_entries spec). set cs \<subseteq> ns_id ` set (sb_nodes (gs_spec spec))"
proof -
  let ?d0 = "map (\<lambda>nid. (nid, [])) (bm_keys m) :: dependencies" and ?ids = "ns_id ` set (sb_nodes (gs_spec spec))"
  note nm = build_node_map_Ok [OF m]
  have "map fst ?d0 = map fst m" by (simp add: bm_keys_def comp_def)
  then have wf: "bm_wf ?d0" and keys: "set (bm_keys ?d0) = ?ids"
    using nm(1,2) by (simp_all add: bm_wf_def bm_keys_def comp_def)
  have none: "deps_of ?d0 n = {}" for n
    by (auto simp: deps_of_def bm_get_def map_of_map_restrict restrict_map_def comp_def)
  note all = add_dependencies_Ok [OF assms(2) [unfolded dependency_map_def] wf]
  show "bm_wf deps" using all by blast
  show exact: "deps_of deps nid = {s. \<exists>cs. (cs, nid, s) \<in> set (dependency_entries spec)}" for nid
    using all none by simp
  show checked: "\<forall>(cs, _, _) \<in> set (dependency_entries spec). set cs \<subseteq> ?ids"
  proof -
    have "\<forall>(cs, _, _) \<in> set (dependency_entries spec). \<forall>x \<in> set cs. bm_contains m x" using all by blast
    then show ?thesis by (auto simp: bm_contains_keys nm(2))
  qed
  have sub: "{t, s} \<subseteq> ?ids" if "(cs, t, s) \<in> set (dependency_entries spec)" for cs t s
    using entry_known [OF that] checked that by blast
  have "set (bm_keys deps) = ?ids \<union> {t. \<exists>cs s. (cs, t, s) \<in> set (dependency_entries spec)}"
    using all keys by argo
  with sub show k: "set (bm_keys deps) = ?ids" by blast
  show "deps_of deps nid \<subseteq> set (bm_keys deps)"
  proof
    fix s assume "s \<in> deps_of deps nid"
    then obtain cs where "(cs, nid, s) \<in> set (dependency_entries spec)" unfolding exact by blast
    from sub [OF this] show "s \<in> set (bm_keys deps)" unfolding k by simp
  qed
qed

section \<open>Levels\<close>

lemma max_u32_Cons [simp]: "max_u32 [] = 0" "max_u32 (x # xs) = max x (max_u32 xs)"
  by (simp_all add: max_u32_def)

lemma max_u32_ge: "x \<in> set xs \<Longrightarrow> x \<le> max_u32 xs"
  by (induction xs) (auto simp: le_max_iff_disj)

lemma max_u32_in: "xs \<noteq> [] \<Longrightarrow> max_u32 xs \<in> set xs"
proof (induction xs)
  case (Cons x xs)
  then show ?case by (cases "xs = []") (auto simp: max_def)
qed simp

lemma level_of_cong:
  "(\<And>d. d \<in> deps_of deps nid \<Longrightarrow> bm_get l d = bm_get l' d) \<Longrightarrow> level_of deps l nid = level_of deps l' nid"
  unfolding level_of_def deps_of_def List.map_filter_def
  by (intro arg_cong [where f = max_u32] arg_cong [where f = "map _"] map_cong filter_cong) auto

lemma compute_levels_snoc:
  "compute_levels deps (xs @ [x]) =
   bm_insert x (level_of deps (compute_levels deps xs) x) (compute_levels deps xs)"
  by (simp add: compute_levels_def)

lemma follows_deps_prefix: "follows_deps deps (xs @ [x]) \<Longrightarrow> follows_deps deps xs \<and> deps_of deps x \<subseteq> set xs"
  by (auto simp: follows_deps_def nth_append less_Suc_eq)

lemma follows_deps_mem: "follows_deps deps xs \<Longrightarrow> y \<in> set xs \<Longrightarrow> deps_of deps y \<subseteq> set xs"
proof
  fix d assume f: "follows_deps deps xs" and y: "y \<in> set xs" and d: "d \<in> deps_of deps y"
  obtain i where "i < length xs" "xs ! i = y" using y by (auto simp: in_set_conv_nth)
  with f d have "d \<in> set (take i xs)" by (auto simp: follows_deps_def)
  then show "d \<in> set xs" by (rule in_set_takeD)
qed

text \<open>The levels satisfy their equation: each is computed from the final levels of its dependencies.\<close>

lemma compute_levels_eq:
  assumes "distinct order" and "follows_deps deps order" and "y \<in> set order"
  shows "bm_get (compute_levels deps order) y = Some (level_of deps (compute_levels deps order) y)"
  using assms
proof (induction order arbitrary: y rule: rev_induct)
  case (snoc x xs)
  let ?L = "compute_levels deps xs" and ?L' = "compute_levels deps (xs @ [x])"
  have f: "follows_deps deps xs" "deps_of deps x \<subseteq> set xs" using follows_deps_prefix [OF snoc.prems(2)] by simp_all
  have same: "bm_get ?L d = bm_get ?L' d" if "d \<in> set xs" for d
    using that snoc.prems(1) by (auto simp: compute_levels_snoc bm_get_insert)
  have "level_of deps ?L y = level_of deps ?L' y" if "y \<in> set xs \<or> y = x"
    using that f follows_deps_mem [OF f(1)] by (intro level_of_cong same) auto
  then show ?case
    using snoc.IH [OF _ f(1)] snoc.prems same by (auto simp: compute_levels_snoc bm_get_insert)
qed simp

lemma keys_compute_levels: "set (bm_keys (compute_levels deps order)) = set order"
  by (induction order rule: rev_induct)
    (auto simp: compute_levels_snoc bm_keys_insert, simp_all add: compute_levels_def bm_keys_def)

definition lvl :: "dependencies \<Rightarrow> node_id list \<Rightarrow> node_id \<Rightarrow> nat" where
  "lvl deps order nid = unat (unwrap_or (bm_get (compute_levels deps order) nid) 0)"

lemma lvl_props:
  assumes "distinct order" and "follows_deps deps order" and "length order < 2 ^ 32"
  shows "i < length order \<Longrightarrow>
    lvl deps order (order ! i) \<le> i \<and>
    (\<forall>d \<in> deps_of deps (order ! i). lvl deps order d < lvl deps order (order ! i)) \<and>
    (lvl deps order (order ! i) \<noteq> 0 \<longrightarrow>
       (\<exists>d \<in> deps_of deps (order ! i). lvl deps order (order ! i) = lvl deps order d + 1))"
proof (induction i rule: less_induct)
  case (less i)
  let ?L = "compute_levels deps order" and ?n = "order ! i"
  let ?ls = "map (\<lambda>l. l + 1) (List.map_filter (bm_get ?L) (unwrap_or (bm_get deps ?n) []))"
  have here: "bm_get ?L ?n = Some (max_u32 ?ls)"
    using compute_levels_eq [OF assms(1,2)] less.prems by (simp add: level_of_def)
  then have n: "lvl deps order ?n = unat (max_u32 ?ls)" by (simp add: lvl_def)
  have dep: "\<exists>l. bm_get ?L d = Some l \<and> unat l = lvl deps order d \<and> lvl deps order d < i \<and>
      unat (l + 1) = lvl deps order d + 1" if "d \<in> deps_of deps ?n" for d
  proof -
    have "d \<in> set (take i order)" using assms(2) less.prems that by (auto simp: follows_deps_def)
    then obtain j where j: "j < i" "order ! j = d" using less.prems by (auto simp: in_set_conv_nth)
    have "bm_get ?L d = Some (level_of deps ?L d)"
      using compute_levels_eq [OF assms(1,2), of d] j less.prems by auto
    moreover have "lvl deps order d \<le> j" using less.IH [OF j(1)] j less.prems by simp
    ultimately show ?thesis
      using j assms(3) less.prems by (auto simp: lvl_def unat_word_ariths)
  qed
  have mem: "w \<in> set ?ls \<longleftrightarrow> (\<exists>d \<in> deps_of deps ?n. \<exists>l. bm_get ?L d = Some l \<and> w = l + 1)" for w
    by (force simp: deps_of_def List.map_filter_def)
  have "lvl deps order ?n \<noteq> 0 \<longrightarrow> (\<exists>d \<in> deps_of deps ?n. lvl deps order ?n = lvl deps order d + 1)"
  proof
    assume "lvl deps order ?n \<noteq> 0"
    then have "?ls \<noteq> []" using n by auto
    from max_u32_in [OF this] show "\<exists>d \<in> deps_of deps ?n. lvl deps order ?n = lvl deps order d + 1"
      unfolding mem n using dep by fastforce
  qed
  moreover have "lvl deps order d < lvl deps order ?n" if d: "d \<in> deps_of deps ?n" for d
  proof -
    obtain l where l: "bm_get ?L d = Some l" "unat (l + 1) = lvl deps order d + 1" using dep [OF d] by blast
    then have "l + 1 \<le> max_u32 ?ls" using d by (intro max_u32_ge) (auto simp only: mem)
    then show ?thesis using l(2) n by (simp add: word_le_nat_alt)
  qed
  moreover have "lvl deps order ?n \<le> i"
    using calculation(1) dep by fastforce
  ultimately show ?case by blast
qed

text \<open>A chain of dependencies, from a node down.\<close>

fun dep_chain :: "dependencies \<Rightarrow> node_id list \<Rightarrow> bool" where
  "dep_chain deps [] = True"
| "dep_chain deps [x] = (x \<in> set (bm_keys deps))"
| "dep_chain deps (x # y # zs) = (x \<in> set (bm_keys deps) \<and> y \<in> deps_of deps x \<and> dep_chain deps (y # zs))"

lemma chain_bound:
  assumes "\<And>n d. n \<in> set (bm_keys deps) \<Longrightarrow> d \<in> deps_of deps n \<Longrightarrow> f d < (f n :: nat)"
  shows "dep_chain deps (x # xs) \<Longrightarrow> length (x # xs) \<le> f x + 1"
proof (induction xs arbitrary: x)
  case (Cons y zs)
  then have "length (y # zs) \<le> f y + 1" by simp
  moreover have "f y < f x" using Cons.prems assms by simp
  ultimately show ?case by simp
qed simp

lemma chain_exists:
  assumes "\<And>n. n \<in> set (bm_keys deps) \<Longrightarrow> f n \<noteq> (0 :: nat) \<Longrightarrow> \<exists>d \<in> deps_of deps n. f n = f d + 1"
    and "\<And>n. deps_of deps n \<subseteq> set (bm_keys deps)" and "n \<in> set (bm_keys deps)"
  shows "\<exists>xs. dep_chain deps (n # xs) \<and> length (n # xs) = f n + 1"
  using assms(3)
proof (induction "f n" arbitrary: n)
  case 0
  then show ?case by (intro exI [of _ "[]"]) simp
next
  case (Suc k)
  then obtain d where d: "d \<in> deps_of deps n" "f n = f d + 1" using assms(1) [of n] by auto
  with Suc.hyps assms(2) obtain xs where "dep_chain deps (d # xs)" "length (d # xs) = f d + 1"
    by (metis Suc_eq_plus1 Suc_inject subsetD)
  with d Suc.prems show ?case by (intro exI [of _ "d # xs"]) simp
qed

lemma dep_chain_hd: "dep_chain deps (x # xs) \<Longrightarrow> x \<in> set (bm_keys deps)"
  by (cases xs) auto

lemma compute_levels_wf: "bm_wf (compute_levels deps order)"
  by (induction order rule: rev_induct) (auto simp: compute_levels_snoc bm_wf_insert, simp add: compute_levels_def)

lemma compute_levels_values:
  "set (bm_values (compute_levels deps order)) =
   {l. \<exists>n \<in> set order. bm_get (compute_levels deps order) n = Some l}"
proof -
  have "n \<in> set order" if "bm_get (compute_levels deps order) n = Some l" for n l
    using that keys_compute_levels [of deps order]
    by (auto simp: bm_contains_keys [symmetric] bm_contains_def set_eq_iff)
  then show ?thesis
    by (force simp: bm_values_def bm_get_Some_iff [OF compute_levels_wf])
qed

text \<open>The highest level, read as a number, bounds the level of every node and is one of them.\<close>

lemma lvl_max:
  fixes deps
  assumes "order \<noteq> []"
  defines "M \<equiv> max_u32 (bm_values (compute_levels deps order))"
  shows "n \<in> set order \<Longrightarrow> lvl deps order n \<le> unat M"
    and "\<exists>n \<in> set order. lvl deps order n = unat M"
proof -
  let ?L = "compute_levels deps order"
  have get: "\<exists>l. bm_get ?L n = Some l" if "n \<in> set order" for n
    using that keys_compute_levels [of deps order]
    by (auto simp: bm_contains_keys [symmetric] bm_contains_def set_eq_iff)
  show "lvl deps order n \<le> unat M" if n: "n \<in> set order"
  proof -
    obtain l where l: "bm_get ?L n = Some l" using get [OF n] by blast
    then have "l \<le> M" using n compute_levels_values [of deps order] unfolding M_def by (intro max_u32_ge) blast
    then show ?thesis using l by (simp add: lvl_def word_le_nat_alt)
  qed
  have "bm_values ?L \<noteq> []" using assms(1) keys_compute_levels [of deps order] by (auto simp: bm_values_def bm_keys_def)
  from max_u32_in [OF this] obtain n where "n \<in> set order" "bm_get ?L n = Some M"
    unfolding compute_levels_values M_def by blast
  then show "\<exists>n \<in> set order. lvl deps order n = unat M" by (force simp: lvl_def)
qed

section \<open>Properties\<close>

definition precedes :: "'a list \<Rightarrow> 'a \<Rightarrow> 'a \<Rightarrow> bool" where
  "precedes xs a b \<longleftrightarrow> (\<exists>i j. i < j \<and> j < length xs \<and> xs ! i = a \<and> xs ! j = b)"

lemma follows_deps_precedes:
  assumes "follows_deps deps order" and "s \<in> deps_of deps t" and "t \<in> set order"
  shows "precedes order s t"
proof -
  obtain j where j: "j < length order" "order ! j = t" using assms(3) by (auto simp: in_set_conv_nth)
  then have "s \<in> set (take j order)" using assms(1,2) by (auto simp: follows_deps_def)
  then obtain i where "i < j" "order ! i = s" using j(1) by (auto simp: in_set_conv_nth)
  with j show ?thesis by (auto simp: precedes_def)
qed

lemma analyze_topology_OkD:
  assumes "analyze_topology spec = Ok report"
  obtains m deps where "build_node_map spec = Ok m" "dependency_map spec m = Ok deps"
    "topological_sort deps = Ok (tp_topological_order report)"
    "tp_critical_path_length report =
      (let levels = compute_levels deps (tp_topological_order report)
       in if levels = [] then 0 else max_u32 (bm_values levels) + 1)"
  using assms by (auto simp: analyze_topology_def bind_r_eq_Ok Let_def)

lemma accepts_iff:
  "(\<exists>report. analyze_topology spec = Ok report) \<longleftrightarrow>
   distinct (map ns_id (sb_nodes (gs_spec spec))) \<and>
   (\<forall>(checked, _, _) \<in> set (dependency_entries spec).
      set checked \<subseteq> ns_id ` set (sb_nodes (gs_spec spec))) \<and>
   (\<exists>rank :: node_id \<Rightarrow> nat.
      \<forall>(_, target, source) \<in> set (dependency_entries spec). rank source < rank target)"
  (is "?ok \<longleftrightarrow> ?ids \<and> ?known \<and> ?acyclic")
proof
  assume ?ok
  then obtain report where "analyze_topology spec = Ok report" by blast
  then obtain m deps where ok: "build_node_map spec = Ok m" "dependency_map spec m = Ok deps"
    and sort: "topological_sort deps = Ok (tp_topological_order report)"
    using analyze_topology_OkD by metis
  note d = dependency_map_Ok [OF ok]
  have "acyclic_deps deps" using follows_deps_acyclic topological_sort_Ok [OF d(1) sort] by blast
  then have ?acyclic unfolding acyclic_deps_def d(3) by blast
  with build_node_map_Ok(3) [OF ok(1)] d(5) show "?ids \<and> ?known \<and> ?acyclic" by blast
next
  assume a: "?ids \<and> ?known \<and> ?acyclic"
  then obtain m where m: "build_node_map spec = Ok m" using build_node_map_distinct by blast
  have "\<forall>(cs, _, _) \<in> set (dependency_entries spec). \<forall>x \<in> set cs. bm_contains m x"
    using a build_node_map_Ok(2) [OF m] by (fastforce simp: bm_contains_keys)
  then obtain deps where deps: "dependency_map spec m = Ok deps"
    using add_dependencies_total unfolding dependency_map_def by blast
  note d = dependency_map_Ok [OF m deps]
  have acyclic: "acyclic_deps deps" unfolding acyclic_deps_def d(3) using a by blast
  have "\<exists>order. topological_sort deps = Ok order"
  proof (cases "topological_sort deps")
    case (Inl e)
    with topological_sort_Err [OF d(1,4) Inl] no_cycle_in_acyclic [OF acyclic] show ?thesis by blast
  qed blast
  then show ?ok using m deps by (auto simp: analyze_topology_def Let_def)
qed

text \<open>
  C32. The order reported for an accepted graph is a permutation of its nodes in which, for every
  edge, input binding, map or reduce source and route, the node that is depended on comes first.
\<close>

theorem topological_order_correct:
  assumes "analyze_topology spec = Ok report"
  shows "distinct (tp_topological_order report) \<and>
    set (tp_topological_order report) = ns_id ` set (sb_nodes (gs_spec spec)) \<and>
    (\<forall>(checked, target, source) \<in> set (dependency_entries spec).
       precedes (tp_topological_order report) source target)"
proof -
  obtain m deps where ok: "build_node_map spec = Ok m" "dependency_map spec m = Ok deps"
    and sort: "topological_sort deps = Ok (tp_topological_order report)"
    using analyze_topology_OkD [OF assms] by metis
  note d = dependency_map_Ok [OF ok] and s = topological_sort_Ok [OF d(1) sort]
  have "precedes (tp_topological_order report) source target"
    if e: "(checked, target, source) \<in> set (dependency_entries spec)" for checked target source
  proof (rule follows_deps_precedes [OF s(3)])
    show "source \<in> deps_of deps target" unfolding d(3) using e by blast
    have "target \<in> ns_id ` set (sb_nodes (gs_spec spec))" using entry_known [OF e] d(5) e by blast
    then show "target \<in> set (tp_topological_order report)" by (simp only: s(2) d(2))
  qed
  then have "\<forall>(checked, target, source) \<in> set (dependency_entries spec).
      precedes (tp_topological_order report) source target" by blast
  then show ?thesis using s(1,2) d(2) by blast
qed

definition pair_graph :: graph_spec where
  "pair_graph = minimal_graph [minimal_node ''b'' NK_Agent ''x'', minimal_node ''a'' NK_Agent ''y'']
     [minimal_edge ''a'' ''b'' EK_Control]"

lemmas pair_graph_defs = pair_graph_def minimal_graph_def minimal_node_def minimal_edge_def
  dependency_entries_def edge_entry_def node_entries_def bm_values_def

lemma pair_graph_accepted: "\<exists>report. analyze_topology pair_graph = Ok report"
  by (simp add: accepts_iff pair_graph_defs) (auto intro!: exI [of _ "\<lambda>n. if n = ''b'' then 1 else 0"])

theorem topological_order_correct_witness:
  "\<exists>report. analyze_topology pair_graph = Ok report \<and> precedes (tp_topological_order report) ''a'' ''b''"
proof -
  obtain report where ok: "analyze_topology pair_graph = Ok report" using pair_graph_accepted by blast
  then show ?thesis using topological_order_correct [OF ok] by (simp add: pair_graph_defs)
qed

text \<open>
  C33. Exactly the well-formed acyclic graphs are accepted: node ids are distinct, every reference
  names a node, and the nodes can be ranked so that every dependency goes up.
\<close>

theorem analyze_topology_accepts_iff:
  "(\<exists>report. analyze_topology spec = Ok report) \<longleftrightarrow>
   distinct (map ns_id (sb_nodes (gs_spec spec))) \<and>
   (\<forall>(checked, _, _) \<in> set (dependency_entries spec).
      set checked \<subseteq> ns_id ` set (sb_nodes (gs_spec spec))) \<and>
   (\<exists>rank :: node_id \<Rightarrow> nat.
      \<forall>(_, target, source) \<in> set (dependency_entries spec). rank source < rank target)"
  by (rule accepts_iff)

theorem analyze_topology_accepts_iff_witness:
  "\<exists>rank :: node_id \<Rightarrow> nat. rank ''a'' < rank ''b''"
proof -
  have "\<exists>rank :: node_id \<Rightarrow> nat.
      \<forall>(_, target, source) \<in> set (dependency_entries pair_graph). rank source < rank target"
    using analyze_topology_accepts_iff [of pair_graph] pair_graph_accepted by blast
  then show ?thesis by (simp add: pair_graph_defs)
qed

text \<open>
  A reported cycle is one: the nodes named are nodes of the graph, and each of them depends on
  another of them, so following dependencies among them never ends.
\<close>

lemma reported_cycle_is_cyclic:
  assumes "analyze_topology spec = Err (Cycle nodes)"
  shows "nodes \<noteq> [] \<and> set nodes \<subseteq> ns_id ` set (sb_nodes (gs_spec spec)) \<and>
    (\<forall>target \<in> set nodes. \<exists>source \<in> set nodes. \<exists>checked.
       (checked, target, source) \<in> set (dependency_entries spec))"
proof -
  have no_build: "build_node_map spec \<noteq> Err (Cycle ns)" for ns
  proof -
    have "fold_r (\<lambda>node m. if bm_contains m (ns_id node) then Err (Duplicate_Node (ns_id node))
      else Ok (bm_insert (ns_id node) node m)) ns' m0 \<noteq> Err (Cycle ns)" for ns' m0
      by (induction ns' arbitrary: m0) auto
    then show ?thesis by (simp add: build_node_map_def)
  qed
  have no_deps: "dependency_map spec m \<noteq> Err (Cycle ns)" for m ns
  proof -
    have known: "fold_r (\<lambda>nid _. ensure_known nid m) cs () \<noteq> Err (Cycle ns)" for cs
      by (induction cs) (auto simp: ensure_known_def)
    have "add_dependency m e d \<noteq> Err (Cycle ns)" for e d
      using known by (cases e) (auto simp: bind_r_def split: sum.split)
    then have "fold_r (add_dependency m) es d \<noteq> Err (Cycle ns)" for es d
      by (induction es arbitrary: d) (auto simp: bind_r_def split: sum.split)
    then show ?thesis by (simp add: dependency_map_def)
  qed
  obtain m deps where ok: "build_node_map spec = Ok m" "dependency_map spec m = Ok deps"
    and sort: "topological_sort deps = Err (Cycle nodes)"
    using assms no_build no_deps
    by (auto simp: analyze_topology_def bind_r_def Let_def split: sum.splits)
  note d = dependency_map_Ok [OF ok]
  from topological_sort_Err [OF d(1,4) sort] show ?thesis
    unfolding d(2,3) by blast
qed

definition loop_graph :: graph_spec where
  "loop_graph = minimal_graph [minimal_node ''a'' NK_Agent ''x'', minimal_node ''b'' NK_Agent ''y'']
     [minimal_edge ''a'' ''b'' EK_Control, minimal_edge ''b'' ''a'' EK_Control]"

text \<open>The highest level, counted from zero, is one less than the length of a longest chain.\<close>

lemma levels_measure_chains:
  fixes deps order
  defines "M \<equiv> unat (max_u32 (bm_values (compute_levels deps order)))"
  assumes order: "distinct order" "follows_deps deps order" "length order < 2 ^ 32" "set order = set (bm_keys deps)" "order \<noteq> []"
    and closed: "\<And>n. deps_of deps n \<subseteq> set (bm_keys deps)"
  shows "M < length order" and "dep_chain deps chain \<Longrightarrow> length chain \<le> M + 1"
    and "\<exists>chain. dep_chain deps chain \<and> length chain = M + 1"
proof -
  let ?f = "lvl deps order"
  note max = lvl_max [OF order(5), where deps = deps, folded M_def]
  have at: "n \<in> set (bm_keys deps) \<Longrightarrow> \<exists>i < length order. order ! i = n" for n
    using order(4) by (metis in_set_conv_nth)
  have down: "?f d < ?f n" if "n \<in> set (bm_keys deps)" "d \<in> deps_of deps n" for n d
    using at [OF that(1)] lvl_props [OF order(1-3)] that(2) by blast
  have up: "\<exists>d \<in> deps_of deps n. ?f n = ?f d + 1" if "n \<in> set (bm_keys deps)" "?f n \<noteq> 0" for n
    using at [OF that(1)] lvl_props [OF order(1-3)] that(2) by blast
  obtain n where n: "n \<in> set order" "?f n = M" using max(2) by blast
  then show "M < length order" using at [of n] order(4) lvl_props [OF order(1-3)] by force
  show "length chain \<le> M + 1" if "dep_chain deps chain"
  proof (cases chain)
    case (Cons x xs)
    have "length (x # xs) \<le> ?f x + 1" by (rule chain_bound [OF down]) (use that Cons in simp_all)
    moreover have "?f x \<le> M" using dep_chain_hd [of deps x xs] that Cons order(4) by (intro max(1)) simp
    ultimately show ?thesis using Cons by simp
  qed simp
  show "\<exists>chain. dep_chain deps chain \<and> length chain = M + 1"
    using chain_exists [OF up closed, of n] n order(4) by auto
qed

text \<open>
  C34. The reported critical path length is the number of nodes on a longest chain of
  dependencies (in graphs with fewer than \<open>2 ^ 32\<close> nodes).
\<close>

theorem critical_path_is_longest_chain:
  assumes "analyze_topology spec = Ok report" and "build_node_map spec = Ok m"
    and "dependency_map spec m = Ok deps" and "length (sb_nodes (gs_spec spec)) < 2 ^ 32"
  shows "(\<forall>chain. dep_chain deps chain \<longrightarrow> length chain \<le> unat (tp_critical_path_length report)) \<and>
    (\<exists>chain. dep_chain deps chain \<and> length chain = unat (tp_critical_path_length report))"
proof -
  let ?order = "tp_topological_order report" and ?L = "compute_levels deps (tp_topological_order report)"
  have sort: "topological_sort deps = Ok ?order"
    and cpl: "tp_critical_path_length report = (if ?L = [] then 0 else max_u32 (bm_values ?L) + 1)"
    using assms(1,2,3) by (auto elim!: analyze_topology_OkD simp: Let_def)
  note d = dependency_map_Ok [OF assms(2,3)] and s = topological_sort_Ok [OF d(1) sort]
  have "length ?order = card (set ?order)" by (simp add: distinct_card s(1))
  also have "\<dots> \<le> length (sb_nodes (gs_spec spec))"
    unfolding s(2) d(2) by (metis card_length image_set length_map)
  finally have len: "length ?order < 2 ^ 32" using assms(4) by simp
  show ?thesis
  proof (cases "?order = []")
    case True
    then have "?L = []" by (simp add: compute_levels_def)
    moreover have "dep_chain deps chain \<Longrightarrow> chain = []" for chain
      using dep_chain_hd [of deps] s(2) True by (cases chain) auto
    ultimately show ?thesis using cpl by (auto intro: exI [of _ "[]"])
  next
    case False
    note chains = levels_measure_chains [OF s(1,3) len s(2) False d(4)]
    have "?L \<noteq> []" using False keys_compute_levels [of deps ?order] by (auto simp: bm_keys_def)
    then have "unat (tp_critical_path_length report) = unat (max_u32 (bm_values ?L)) + 1"
      using cpl len chains(1) by (simp add: unat_word_ariths)
    then show ?thesis using chains(2,3) by auto
  qed
qed

theorem critical_path_is_longest_chain_witness:
  "\<exists>report m deps. analyze_topology pair_graph = Ok report \<and> build_node_map pair_graph = Ok m \<and>
     dependency_map pair_graph m = Ok deps \<and> 2 \<le> unat (tp_critical_path_length report)"
proof -
  obtain report where ok: "analyze_topology pair_graph = Ok report" using pair_graph_accepted by blast
  then obtain m deps where m: "build_node_map pair_graph = Ok m" "dependency_map pair_graph m = Ok deps"
    by (rule analyze_topology_OkD)
  have "''a'' \<in> deps_of deps ''b''" and "set (bm_keys deps) = {''a'', ''b''}"
    unfolding dependency_map_Ok(2,3) [OF m] by (auto simp: pair_graph_defs)
  then have "dep_chain deps [''b'', ''a'']" by simp
  moreover have "length (sb_nodes (gs_spec pair_graph)) < 2 ^ 32" by (simp add: pair_graph_defs)
  ultimately have "length [''b'', ''a''] \<le> unat (tp_critical_path_length report)"
    using critical_path_is_longest_chain [OF ok m] by blast
  with ok m show ?thesis by auto
qed

end
