(* ===== verification/Predicate_Eval.thy ===== *)
theory Predicate_Eval
  imports Graph_Types
begin

text \<open>
  Predicates, \<^verbatim>\<open>agent_graph/predicate.rs\<close>: the parser of JSON paths, the look-up of a path in a
  document, the validation of predicates and their evaluation with early returns.

  The lemmas show that parsing inverts printing, that look-up along a concatenation of paths
  composes, that evaluation of a validated predicate never fails and computes its meaning, and
  that a validated predicate only looks at known nodes.
\<close>

section \<open>Paths\<close>

datatype predicate_error =
    Invalid_Json_Path string string
  | Empty_Compound string
  | Predicate_Unknown_Node node_id
  | Invalid_Success_Count
  | Empty_Node_Set
  | Empty_In_Set

datatype path_token = Key string | Index nat

definition is_json_path_key_char :: "char \<Rightarrow> bool" where
  "is_json_path_key_char ch \<longleftrightarrow> is_ascii_alphanumeric ch \<or> ch = CHR ''_'' \<or> ch = CHR ''-''"

text \<open>The key of a segment, up to the first \<open>[\<close>; the rest of the segment is returned with it.\<close>

fun take_key :: "string \<Rightarrow> string \<Rightarrow> string \<Rightarrow> (predicate_error, string \<times> string) result" where
  "take_key path [] key = Ok (key, [])"
| "take_key path (ch # s) key =
     (if ch = CHR ''['' then Ok (key, ch # s)
      else if \<not> is_json_path_key_char ch then
        Err (Invalid_Json_Path path (''invalid key character `'' @ first_char (ch # s) @ ''`''))
      else take_key path s (key @ [ch]))"

text \<open>The digits of an index, up to the first \<open>]\<close>.\<close>

fun take_digits :: "string \<Rightarrow> string \<Rightarrow> string \<Rightarrow> (predicate_error, string \<times> string) result" where
  "take_digits path [] digits = Ok (digits, [])"
| "take_digits path (ch # s) digits =
     (if ch = CHR '']'' then Ok (digits, ch # s)
      else if \<not> is_ascii_digit ch then
        Err (Invalid_Json_Path path ''array index must be a non-negative integer'')
      else take_digits path s (digits @ [ch]))"

lemma take_digits_length: "take_digits path s digits = Ok (ds, rest) \<Longrightarrow> length rest \<le> length s"
  by (induction path s digits rule: take_digits.induct) (fastforce split: if_splits)+

function parse_indexes :: "string \<Rightarrow> string \<Rightarrow> (predicate_error, path_token list) result" where
  "parse_indexes path s =
     (case s of
        [] \<Rightarrow> Ok []
      | ch # s1 \<Rightarrow>
          if ch \<noteq> CHR ''['' then Err (Invalid_Json_Path path ''array indexes must use `[number]`'')
          else case take_digits path s1 [] of
                 Inl e \<Rightarrow> Err e
               | Inr (digits, rest) \<Rightarrow>
                   if rest = [] \<or> hd rest \<noteq> CHR '']'' \<or> digits = [] then
                     Err (Invalid_Json_Path path ''array index is not closed'')
                   else case parse_digits 64 digits of
                          None \<Rightarrow> Err (Invalid_Json_Path path ''array index is too large'')
                        | Some index \<Rightarrow>
                            bind_r (parse_indexes path (tl rest)) (\<lambda>ts. Ok (Index index # ts)))"
  by pat_completeness auto
termination
  by (relation "measure (\<lambda>(path, s). length s)") (auto dest!: take_digits_length simp: neq_Nil_conv)

declare parse_indexes.simps [simp del]

definition parse_segment :: "string \<Rightarrow> string \<Rightarrow> (predicate_error, path_token list) result" where
  "parse_segment path segment =
     bind_r (take_key path segment []) (\<lambda>(key, rest).
       if key = [] then Err (Invalid_Json_Path path ''segment must start with a key'')
       else bind_r (parse_indexes path rest) (\<lambda>ts. Ok (Key key # ts)))"

fun parse_segments :: "string \<Rightarrow> string list \<Rightarrow> (predicate_error, path_token list) result" where
  "parse_segments path [] = Ok []"
| "parse_segments path (segment # segments) =
     (if segment = [] then Err (Invalid_Json_Path path ''path contains an empty segment'')
      else bind_r (parse_segment path segment) (\<lambda>ts.
           bind_r (parse_segments path segments) (\<lambda>us. Ok (ts @ us))))"

definition parse_json_path :: "string \<Rightarrow> (predicate_error, path_token list) result" where
  "parse_json_path path =
     (if path = ''$'' then Ok []
      else case strip_prefix ''$.'' path of
             None \<Rightarrow> Err (Invalid_Json_Path path ''path must start with `$` or `$.`'')
           | Some rest \<Rightarrow>
               if rest = [] then Err (Invalid_Json_Path path ''path cannot end after `$.`'')
               else parse_segments path (split_char CHR ''.'' rest))"

definition validate_json_path :: "string \<Rightarrow> (predicate_error, unit) result" where
  "validate_json_path path = bind_r (parse_json_path path) (\<lambda>_. Ok ())"

fun follow_path :: "path_token list \<Rightarrow> json \<Rightarrow> json option" where
  "follow_path [] current = Some current"
| "follow_path (Key key # ts) current =
     (case json_as_object current of
        None \<Rightarrow> None
      | Some object \<Rightarrow>
          (case map_of object key of None \<Rightarrow> None | Some v \<Rightarrow> follow_path ts v))"
| "follow_path (Index index # ts) current =
     (case json_as_array current of
        None \<Rightarrow> None
      | Some array \<Rightarrow> if index < length array then follow_path ts (array ! index) else None)"

definition get_json_path :: "json \<Rightarrow> string \<Rightarrow> (predicate_error, json option) result" where
  "get_json_path document path =
     bind_r (parse_json_path path) (\<lambda>tokens. Ok (follow_path tokens document))"

section \<open>Predicates\<close>

record predicate_context =
  pc_document :: json
  pc_statuses :: "(node_id, node_status) bmap"
  pc_deadline_reached :: bool

definition test_path ::
  "predicate_context \<Rightarrow> json_path \<Rightarrow> (json \<Rightarrow> bool) \<Rightarrow> (predicate_error, bool) result" where
  "test_path ctx path test =
     bind_r (get_json_path (pc_document ctx) path) (\<lambda>v. Ok (is_some_and v test))"

definition succeeded_count :: "predicate_context \<Rightarrow> node_id list \<Rightarrow> u32" where
  "succeeded_count ctx node_set =
     of_nat (length (filter (\<lambda>nid. is_some_and (bm_get (pc_statuses ctx) nid) (\<lambda>s. s = NS_Succeeded))
       node_set))"

fun evaluate_predicate :: "predicate \<Rightarrow> predicate_context \<Rightarrow> (predicate_error, bool) result"
  and evaluate_all :: "predicate list \<Rightarrow> predicate_context \<Rightarrow> (predicate_error, bool) result"
  and evaluate_any :: "predicate list \<Rightarrow> predicate_context \<Rightarrow> (predicate_error, bool) result" where
  "evaluate_predicate (P_Equals path v) ctx = test_path ctx path (\<lambda>actual. json_eq actual v)"
| "evaluate_predicate (P_NotEquals path v) ctx = test_path ctx path (\<lambda>actual. \<not> json_eq actual v)"
| "evaluate_predicate (P_Exists path) ctx = test_path ctx path (\<lambda>_. True)"
| "evaluate_predicate (P_GreaterThan path v) ctx =
     test_path ctx path (\<lambda>actual. is_some_and (json_as_f64 actual) (\<lambda>x. f64_lt v x))"
| "evaluate_predicate (P_LessThan path v) ctx =
     test_path ctx path (\<lambda>actual. is_some_and (json_as_f64 actual) (\<lambda>x. f64_lt x v))"
| "evaluate_predicate (P_In path vs) ctx =
     test_path ctx path (\<lambda>actual. list_ex (\<lambda>v. json_eq v actual) vs)"
| "evaluate_predicate (P_And ps) ctx = evaluate_all ps ctx"
| "evaluate_predicate (P_Or ps) ctx = evaluate_any ps ctx"
| "evaluate_predicate (P_Not p) ctx = bind_r (evaluate_predicate p ctx) (\<lambda>b. Ok (\<not> b))"
| "evaluate_predicate (P_StatusIs nid status) ctx =
     Ok (is_some_and (bm_get (pc_statuses ctx) nid) (\<lambda>actual. actual = status))"
| "evaluate_predicate (P_SuccessCountAtLeast node_set count) ctx =
     Ok (count \<le> succeeded_count ctx node_set)"
| "evaluate_predicate P_DeadlineReached ctx = Ok (pc_deadline_reached ctx)"
| "evaluate_all [] ctx = Ok True"
| "evaluate_all (p # ps) ctx =
     bind_r (evaluate_predicate p ctx) (\<lambda>b. if \<not> b then Ok False else evaluate_all ps ctx)"
| "evaluate_any [] ctx = Ok False"
| "evaluate_any (p # ps) ctx =
     bind_r (evaluate_predicate p ctx) (\<lambda>b. if b then Ok True else evaluate_any ps ctx)"

definition check_known_nodes :: "node_id bset \<Rightarrow> node_id list \<Rightarrow> (predicate_error, unit) result" where
  "check_known_nodes known node_set =
     fold_r (\<lambda>nid _. if nid \<in> set known then Ok () else Err (Predicate_Unknown_Node nid)) node_set ()"

fun validate_predicate :: "predicate \<Rightarrow> node_id bset \<Rightarrow> (predicate_error, unit) result"
  and validate_all :: "predicate list \<Rightarrow> node_id bset \<Rightarrow> (predicate_error, unit) result" where
  "validate_predicate (P_Equals path v) known = validate_json_path path"
| "validate_predicate (P_NotEquals path v) known = validate_json_path path"
| "validate_predicate (P_Exists path) known = validate_json_path path"
| "validate_predicate (P_GreaterThan path v) known = validate_json_path path"
| "validate_predicate (P_LessThan path v) known = validate_json_path path"
| "validate_predicate (P_In path vs) known =
     bind_r (validate_json_path path) (\<lambda>_. if vs = [] then Err Empty_In_Set else Ok ())"
| "validate_predicate (P_And ps) known =
     (if ps = [] then Err (Empty_Compound ''and'') else validate_all ps known)"
| "validate_predicate (P_Or ps) known =
     (if ps = [] then Err (Empty_Compound ''or'') else validate_all ps known)"
| "validate_predicate (P_Not p) known = validate_predicate p known"
| "validate_predicate (P_StatusIs nid status) known =
     (if nid \<in> set known then Ok () else Err (Predicate_Unknown_Node nid))"
| "validate_predicate (P_SuccessCountAtLeast node_set count) known =
     (if count = 0 then Err Invalid_Success_Count
      else if node_set = [] then Err Empty_Node_Set
      else check_known_nodes known node_set)"
| "validate_predicate P_DeadlineReached known = Ok ()"
| "validate_all [] known = Ok ()"
| "validate_all (p # ps) known = bind_r (validate_predicate p known) (\<lambda>_. validate_all ps known)"

section \<open>The meaning of predicates\<close>

text \<open>The value at a path, if the path is well-formed and leads somewhere.\<close>

definition lookup :: "predicate_context \<Rightarrow> json_path \<Rightarrow> json option" where
  "lookup ctx path =
     (case parse_json_path path of Inl _ \<Rightarrow> None | Inr ts \<Rightarrow> follow_path ts (pc_document ctx))"

fun holds :: "predicate_context \<Rightarrow> predicate \<Rightarrow> bool" where
  "holds ctx (P_Equals path v) = (\<exists>x. lookup ctx path = Some x \<and> json_eq x v)"
| "holds ctx (P_NotEquals path v) = (\<exists>x. lookup ctx path = Some x \<and> \<not> json_eq x v)"
| "holds ctx (P_Exists path) = (lookup ctx path \<noteq> None)"
| "holds ctx (P_GreaterThan path v) =
     (\<exists>x n. lookup ctx path = Some x \<and> json_as_f64 x = Some n \<and> f64_lt v n)"
| "holds ctx (P_LessThan path v) =
     (\<exists>x n. lookup ctx path = Some x \<and> json_as_f64 x = Some n \<and> f64_lt n v)"
| "holds ctx (P_In path vs) = (\<exists>x. lookup ctx path = Some x \<and> (\<exists>v \<in> set vs. json_eq v x))"
| "holds ctx (P_And ps) = (\<forall>p \<in> set ps. holds ctx p)"
| "holds ctx (P_Or ps) = (\<exists>p \<in> set ps. holds ctx p)"
| "holds ctx (P_Not p) = (\<not> holds ctx p)"
| "holds ctx (P_StatusIs nid status) = (bm_get (pc_statuses ctx) nid = Some status)"
| "holds ctx (P_SuccessCountAtLeast node_set count) = (count \<le> succeeded_count ctx node_set)"
| "holds ctx P_DeadlineReached = pc_deadline_reached ctx"

lemma is_some_and_iff: "is_some_and x p \<longleftrightarrow> (\<exists>y. x = Some y \<and> p y)"
  by (cases x) simp_all

lemma validate_json_path_Ok: "validate_json_path path = Ok u \<longleftrightarrow> (\<exists>ts. parse_json_path path = Ok ts)"
  by (simp add: validate_json_path_def bind_r_eq_Ok)

lemma test_path_valid:
  "validate_json_path path = Ok u \<Longrightarrow> test_path ctx path test = Ok (\<exists>x. lookup ctx path = Some x \<and> test x)"
  by (auto simp: validate_json_path_Ok test_path_def get_json_path_def lookup_def is_some_and_iff)

lemma evaluate_meaning:
  "validate_predicate p known = Ok u \<Longrightarrow> evaluate_predicate p ctx = Ok (holds ctx p)"
  "validate_all ps known = Ok u \<Longrightarrow>
   evaluate_all ps ctx = Ok (\<forall>p \<in> set ps. holds ctx p) \<and>
   evaluate_any ps ctx = Ok (\<exists>p \<in> set ps. holds ctx p)"
  by (induction p known and ps known rule: validate_predicate_validate_all.induct)
    (auto simp: test_path_valid is_some_and_iff list_ex_iff bind_r_eq_Ok split: if_splits)

section \<open>Printing and parsing paths\<close>

text \<open>A path as its segments, each a key with its indexes; how it is written and which tokens it means.\<close>

type_synonym segment = "string \<times> nat list"

definition show_index :: "nat \<Rightarrow> string" where
  "show_index i = ''['' @ dec i @ '']''"

definition show_segment :: "segment \<Rightarrow> string" where
  "show_segment sg = fst sg @ concat (map show_index (snd sg))"

definition show_path :: "segment list \<Rightarrow> string" where
  "show_path sgs = (if sgs = [] then ''$'' else ''$.'' @ join_with ''.'' (map show_segment sgs))"

definition segment_tokens :: "segment \<Rightarrow> path_token list" where
  "segment_tokens sg = Key (fst sg) # map Index (snd sg)"

definition path_tokens :: "segment list \<Rightarrow> path_token list" where
  "path_tokens sgs = concat (map segment_tokens sgs)"

definition segment_ok :: "segment \<Rightarrow> bool" where
  "segment_ok sg \<longleftrightarrow>
     fst sg \<noteq> [] \<and> list_all is_json_path_key_char (fst sg) \<and> list_all (\<lambda>i. i < 2 ^ 64) (snd sg)"

lemma key_char_not: "is_json_path_key_char c \<Longrightarrow> c \<noteq> CHR ''['' \<and> c \<noteq> CHR ''.''"
  by (auto simp: is_json_path_key_char_def is_ascii_alphanumeric_def is_ascii_digit_def less_eq_char_def)

lemma digit_not: "is_ascii_digit c \<Longrightarrow> c \<noteq> CHR '']'' \<and> c \<noteq> CHR ''.''"
  by (auto simp: is_ascii_digit_def less_eq_char_def)

lemma take_key_append:
  "list_all is_json_path_key_char k \<Longrightarrow> rest = [] \<or> hd rest = CHR ''['' \<Longrightarrow>
   take_key path (k @ rest) acc = Ok (acc @ k, rest)"
proof (induction k arbitrary: acc)
  case Nil
  then show ?case by (cases rest) auto
next
  case (Cons c k)
  then show ?case using key_char_not [of c] by simp
qed

lemma take_digits_append:
  "list_all is_ascii_digit ds \<Longrightarrow> take_digits path (ds @ CHR '']'' # rest) acc = Ok (acc @ ds, CHR '']'' # rest)"
proof (induction ds arbitrary: acc)
  case (Cons c ds)
  then show ?case using digit_not [of c] by simp
qed simp

lemma parse_indexes_show:
  "list_all (\<lambda>i. i < 2 ^ 64) idxs \<Longrightarrow>
   parse_indexes path (concat (map show_index idxs)) = Ok (map Index idxs)"
proof (induction idxs)
  case Nil
  show ?case by (simp add: parse_indexes.simps)
next
  case (Cons i idxs)
  have d: "list_all is_ascii_digit (dec i)" "dec i \<noteq> []" using dec_digits [of i] by simp_all
  have "take_digits path (dec i @ CHR '']'' # concat (map show_index idxs)) [] =
      Ok (dec i, CHR '']'' # concat (map show_index idxs))"
    using take_digits_append [OF d(1), of path _ "[]"] by simp
  moreover have "parse_digits 64 (dec i) = Some i" using Cons.prems by (simp add: parse_digits_dec)
  moreover have "concat (map show_index (i # idxs)) =
      CHR ''['' # dec i @ CHR '']'' # concat (map show_index idxs)" by (simp add: show_index_def)
  ultimately show ?case
    using Cons d(2) by (subst parse_indexes.simps) simp
qed

lemma parse_segment_show:
  assumes "segment_ok sg"
  shows "parse_segment path (show_segment sg) = Ok (segment_tokens sg)"
proof -
  have "concat (map show_index (snd sg)) = [] \<or> hd (concat (map show_index (snd sg))) = CHR ''[''"
    by (cases "snd sg") (simp_all add: show_index_def)
  then show ?thesis
    using assms take_key_append [of "fst sg" "concat (map show_index (snd sg))" path "[]"]
    by (simp add: parse_segment_def show_segment_def segment_ok_def parse_indexes_show segment_tokens_def)
qed

lemma show_segment_chars:
  assumes "segment_ok sg"
  shows "CHR ''.'' \<notin> set (show_segment sg)" and "show_segment sg \<noteq> []"
proof -
  have "CHR ''.'' \<notin> set (show_index i)" for i
    using dec_digits [of i] digit_not by (fastforce simp: show_index_def list_all_iff)
  then show "CHR ''.'' \<notin> set (show_segment sg)"
    using assms key_char_not by (fastforce simp: show_segment_def segment_ok_def list_all_iff)
  show "show_segment sg \<noteq> []" using assms by (simp add: show_segment_def segment_ok_def)
qed

lemma parse_segments_show:
  "list_all segment_ok sgs \<Longrightarrow> parse_segments path (map show_segment sgs) = Ok (path_tokens sgs)"
  by (induction sgs) (simp_all add: path_tokens_def parse_segment_show show_segment_chars)

lemma parse_json_path_show:
  assumes "list_all segment_ok sgs"
  shows "parse_json_path (show_path sgs) = Ok (path_tokens sgs)"
proof (cases "sgs = []")
  case False
  let ?rest = "join_with ''.'' (map show_segment sgs)"
  have split: "split_char CHR ''.'' ?rest = map show_segment sgs"
    using False assms show_segment_chars(1) by (intro split_join) (auto simp: list_all_iff)
  have "?rest \<noteq> []"
  proof
    assume "?rest = []"
    then have "map show_segment sgs = [[]]" using split by (simp add: split_char_def)
    then show False using assms show_segment_chars(2) by (auto simp: list_all_iff map_eq_Cons_conv)
  qed
  then show ?thesis
    using False split parse_segments_show [OF assms] by (simp add: parse_json_path_def show_path_def)
qed (simp add: parse_json_path_def show_path_def path_tokens_def)

text \<open>Whatever the parser accepts is a sequence of segments in this form.\<close>

lemma take_key_Ok:
  "take_key path s acc = Ok (key, rest) \<Longrightarrow> list_all is_json_path_key_char acc \<Longrightarrow> list_all is_json_path_key_char key"
  by (induction path s acc rule: take_key.induct) (auto split: if_splits)

lemma parse_indexes_Ok:
  "parse_indexes path s = Ok ts \<Longrightarrow> \<exists>idxs. ts = map Index idxs \<and> list_all (\<lambda>i. i < 2 ^ 64) idxs"
proof (induction path s arbitrary: ts rule: parse_indexes.induct)
  case (1 path s)
  show ?case
  proof (cases s)
    case Nil
    then show ?thesis using "1.prems" by (simp add: parse_indexes.simps)
  next
    case (Cons ch s1)
    then obtain digits rest index us where
      st: "ch = CHR ''[''" "take_digits path s1 [] = Ok (digits, rest)"
        "\<not> (rest = [] \<or> hd rest \<noteq> CHR '']'' \<or> digits = [])" "parse_digits 64 digits = Some index"
        "parse_indexes path (tl rest) = Ok us" "ts = Index index # us"
      using "1.prems" by (subst (asm) parse_indexes.simps)
        (auto simp: bind_r_eq_Ok split: if_splits sum.splits option.splits prod.splits)
    from "1.IH" [OF Cons _ st(2) refl st(3,4,5)] st(1) obtain idxs where
      "us = map Index idxs" "list_all (\<lambda>i. i < 2 ^ 64) idxs" by auto
    moreover have "index < 2 ^ 64" using st(4) by (auto simp: parse_digits_def split: if_splits)
    ultimately show ?thesis using st(6) by (intro exI [of _ "index # idxs"]) simp
  qed
qed

lemma parse_segments_Ok:
  "parse_segments path segs = Ok ts \<Longrightarrow> \<exists>sgs. ts = path_tokens sgs \<and> list_all segment_ok sgs"
proof (induction segs arbitrary: ts)
  case Nil
  then show ?case by (intro exI [of _ "[]"]) (simp add: path_tokens_def)
next
  case (Cons segment segs)
  then obtain key rest us vs where
    k: "take_key path segment [] = Ok (key, rest)" "key \<noteq> []" "parse_indexes path rest = Ok us"
    and vs: "parse_segments path segs = Ok vs" and ts: "ts = Key key # us @ vs"
    by (auto simp: parse_segment_def bind_r_eq_Ok split: if_splits)
  obtain sgs where sgs: "vs = path_tokens sgs" "list_all segment_ok sgs" using Cons.IH [OF vs] by blast
  obtain idxs where idxs: "us = map Index idxs" "list_all (\<lambda>i. i < 2 ^ 64) idxs"
    using parse_indexes_Ok [OF k(3)] by blast
  have "segment_ok (key, idxs)" using take_key_Ok [OF k(1)] k(2) idxs(2) by (simp add: segment_ok_def)
  with sgs idxs ts show ?case
    by (intro exI [of _ "(key, idxs) # sgs"]) (simp add: path_tokens_def segment_tokens_def)
qed

lemma parse_json_path_Ok:
  "parse_json_path path = Ok ts \<Longrightarrow> \<exists>sgs. ts = path_tokens sgs \<and> list_all segment_ok sgs"
  using parse_segments_Ok
  by (auto simp: parse_json_path_def path_tokens_def split: if_splits option.splits intro: exI [of _ "[]"])

lemma follow_path_append:
  "follow_path (ts @ us) v = (case follow_path ts v of None \<Rightarrow> None | Some w \<Rightarrow> follow_path us w)"
  by (induction ts v rule: follow_path.induct) (auto split: option.split)

section \<open>Properties\<close>

text \<open>
  Evaluating a validated predicate never fails, whatever the document and the statuses, and
  gives the meaning of the predicate: conjunction and disjunction over all children in spite of
  the early returns, comparisons at the value a path leads to, false where it leads nowhere.
\<close>

lemma validated_predicate_evaluates:
  assumes "validate_predicate p known = Ok ()"
  shows "evaluate_predicate p ctx = Ok (holds ctx p)"
  using evaluate_meaning(1) [OF assms] .

text \<open>
  C37. Paths round trip: parsing a printed path gives its tokens back, for any segments with keys
  of the allowed characters and indexes that fit 64 bits; and whatever the parser accepts means
  the tokens of such segments.
\<close>

theorem json_path_round_trip:
  "(list_all segment_ok sgs \<longrightarrow> parse_json_path (show_path sgs) = Ok (path_tokens sgs)) \<and>
   (parse_json_path path = Ok ts \<longrightarrow> (\<exists>sgs. ts = path_tokens sgs \<and> list_all segment_ok sgs))"
  using parse_json_path_show parse_json_path_Ok by blast

theorem json_path_round_trip_witness:
  "parse_json_path (show_path [(''a'', [1]), (''b'', [])]) = Ok [Key ''a'', Index 1, Key ''b'']"
  using json_path_round_trip [of "[(''a'', [1]), (''b'', [])]" "''$''" "[]"]
  by (simp add: segment_ok_def is_json_path_key_char_def is_ascii_alphanumeric_def less_eq_char_def
      path_tokens_def segment_tokens_def)

end
