(* ===== verification/Resources.thy ===== *)
theory Resources
  imports Graph_Types
begin

text \<open>
  Resources of a run, \<^verbatim>\<open>agent_graph/resources.rs\<close>: permits and locks that nodes claim, the
  write sets that active nodes own, the isolation rules for workers, and the normal form and
  overlap of path patterns.

  The lemmas show that permits held are exactly those of the tickets handed out and within the
  limits, that the write sets of two active nodes never overlap, that releasing a ticket undoes its
  acquisition, and that plan mode and the tool rules are enforced.
\<close>

section \<open>Data\<close>

record resource_ticket =
  rtk_node_id :: node_id
  rtk_claims :: "(resource_id, u32) bmap"
  rtk_write_set :: "string list"

datatype resource_error =
    Unknown_Resource resource_id
  | Claim_Exceeds_Limit resource_id u32 u32
  | Insufficient_Permits resource_id u32 u32
  | Write_Set_Conflict node_id string
  | Plan_Mode_Writer node_id
  | Nested_Orchestration_Tool node_id tool_name
  | Worker_Isolation_Disabled string

fun is_contention :: "resource_error \<Rightarrow> bool" where
  "is_contention (Insufficient_Permits _ _ _) = True"
| "is_contention (Write_Set_Conflict _ _) = True"
| "is_contention _ = False"

record resource_manager =
  rm_definitions :: "(resource_id, resource_definition) bmap"
  rm_held :: "(resource_id, u32) bmap"
  rm_active_writes :: "(node_id, string list) bmap"

section \<open>Path patterns\<close>

text \<open>The loop that strips \<open>./\<close> from the front is \<open>trim_start_matches\<close>.\<close>

definition normalize_path_pattern :: "string \<Rightarrow> string" where
  "normalize_path_pattern path =
     trim_end_matches ''/''
       (trim_end_matches ''/*''
         (trim_end_matches ''/**''
           (collapse_slashes
             (trim_start_matches ''./'' (replace_char (CHR 0x5C) (CHR ''/'') (trim path))))))"

definition path_patterns_overlap :: "string \<Rightarrow> string \<Rightarrow> bool" where
  "path_patterns_overlap left0 right0 =
     (let left = normalize_path_pattern left0; right = normalize_path_pattern right0
      in left \<noteq> [] \<and> right \<noteq> [] \<and>
         (left = right \<or> starts_with left (right @ ''/'') \<or> starts_with right (left @ ''/'')))"

definition normalized_write_set :: "node_spec \<Rightarrow> string list" where
  "normalized_write_set node =
     remdups_adj (sort (filter (\<lambda>path. path \<noteq> []) (map normalize_path_pattern (ns_write_set node))))"

section \<open>Worker isolation\<close>

definition denied_worker_tools :: "tool_name bset" where
  "denied_worker_tools = bs_of_list
     [''task'', ''spawn_agent'', ''agent'', ''subagent'', ''graph'', ''/graph'', ''swarm'',
      ''/swarm'', ''provider_multi_agent'', ''hosted_multi_agent'']"

definition is_nested_orchestration_tool :: "tool_name \<Rightarrow> bool" where
  "is_nested_orchestration_tool tool \<longleftrightarrow> to_ascii_lowercase tool \<in> set denied_worker_tools"

definition check_tools :: "node_spec \<Rightarrow> (resource_error, unit) result" where
  "check_tools node =
     fold_r (\<lambda>tool _.
       if is_model_worker node \<and> is_nested_orchestration_tool tool
       then Err (Nested_Orchestration_Tool (ns_id node) tool) else Ok ()) (ns_tool_allowlist node) ()"

definition validate_worker_isolation :: "graph_spec \<Rightarrow> (resource_error, unit) result" where
  "validate_worker_isolation spec =
     (let has_worker = list_ex is_model_worker (sb_nodes (gs_spec spec));
          execution = sb_execution (gs_spec spec)
      in if has_worker \<and> \<not> ep_disable_nested_bandicot_agents execution then
           Err (Worker_Isolation_Disabled ''disableNestedBandicotAgents'')
         else if has_worker \<and> \<not> ep_disable_provider_multi_agent_for_workers execution then
           Err (Worker_Isolation_Disabled ''disableProviderMultiAgentForWorkers'')
         else fold_r (\<lambda>node _. check_tools node) (sb_nodes (gs_spec spec)) ())"

section \<open>Acquisition and release\<close>

definition from_graph :: "graph_spec \<Rightarrow> resource_manager" where
  "from_graph spec =
     \<lparr>rm_definitions = sb_resources (gs_spec spec), rm_held = [], rm_active_writes = []\<rparr>"

definition conflicting_write :: "resource_manager \<Rightarrow> string \<Rightarrow> (node_id \<times> string) option" where
  "conflicting_write m candidate =
     find (\<lambda>(_, active_path). path_patterns_overlap active_path candidate)
       (concat (map (\<lambda>(active_node, paths). map (Pair active_node) paths) (rm_active_writes m)))"

definition check_writes :: "resource_manager \<Rightarrow> string list \<Rightarrow> (resource_error, unit) result" where
  "check_writes m write_set =
     fold_r (\<lambda>path _.
       case conflicting_write m path of
         Some (active_node, active_path) \<Rightarrow> Err (Write_Set_Conflict active_node active_path)
       | None \<Rightarrow> Ok ()) write_set ()"

definition limit_of :: "resource_definition \<Rightarrow> u32" where
  "limit_of d = (case rd_kind d of RK_CountedPermit \<Rightarrow> rd_limit d | RK_ExclusiveLock \<Rightarrow> 1)"

definition held_amount :: "resource_manager \<Rightarrow> resource_id \<Rightarrow> u32" where
  "held_amount m resource = unwrap_or (bm_get (rm_held m) resource) 0"

definition request_claim ::
  "resource_manager \<Rightarrow> resource_claim \<Rightarrow> (resource_id, u32) bmap
   \<Rightarrow> (resource_error, (resource_id, u32) bmap) result" where
  "request_claim m claim requested =
     (case bm_get (rm_definitions m) (rc_resource claim) of
        None \<Rightarrow> Err (Unknown_Resource (rc_resource claim))
      | Some definition \<Rightarrow>
          let limit = limit_of definition;
              available = sat_sub limit (held_amount m (rc_resource claim))
          in if rc_amount claim = 0 \<or> limit < rc_amount claim then
               Err (Claim_Exceeds_Limit (rc_resource claim) (rc_amount claim) limit)
             else if available < rc_amount claim then
               Err (Insufficient_Permits (rc_resource claim) (rc_amount claim) available)
             else Ok (bm_insert (rc_resource claim) (rc_amount claim) requested))"

definition try_acquire ::
  "resource_manager \<Rightarrow> node_spec \<Rightarrow> node_defaults \<Rightarrow> bool
   \<Rightarrow> (resource_error, resource_manager \<times> resource_ticket) result" where
  "try_acquire m node defaults plan_mode =
     (if plan_mode \<and> CM_ReadOnly < effective_capability node defaults
      then Err (Plan_Mode_Writer (ns_id node))
      else
        bind_r (check_tools node) (\<lambda>_.
        let write_set = normalized_write_set node
        in bind_r (check_writes m write_set) (\<lambda>_.
           bind_r (fold_r (request_claim m) (ns_resource_claims node) []) (\<lambda>requested.
             Ok (m\<lparr>rm_held := fold add_amount requested (rm_held m),
                   rm_active_writes :=
                     (if write_set \<noteq> [] then bm_insert (ns_id node) write_set (rm_active_writes m)
                      else rm_active_writes m)\<rparr>,
                 \<lparr>rtk_node_id = ns_id node, rtk_claims = requested, rtk_write_set = write_set\<rparr>)))))"

definition drop_amount :: "(resource_id \<times> u32) \<Rightarrow> (resource_id, u32) bmap \<Rightarrow> (resource_id, u32) bmap" where
  "drop_amount claim m =
     (case claim of (resource, amount) \<Rightarrow>
        case bm_get m resource of
          None \<Rightarrow> m
        | Some held \<Rightarrow>
            let left = sat_sub held amount
            in if left = 0 then bm_remove resource m else bm_insert resource left m)"

definition release_resources :: "resource_manager \<Rightarrow> resource_ticket \<Rightarrow> resource_manager" where
  "release_resources m ticket =
     m\<lparr>rm_held := fold drop_amount (rtk_claims ticket) (rm_held m),
       rm_active_writes :=
         (if rtk_write_set ticket \<noteq> [] then bm_remove (rtk_node_id ticket) (rm_active_writes m)
          else rm_active_writes m)\<rparr>"

section \<open>Overlap is containment of directories\<close>

lemma overlap_commute: "path_patterns_overlap a b = path_patterns_overlap b a"
  by (auto simp: path_patterns_overlap_def Let_def)

lemma split_acc_append_sep: "split_acc c acc (s @ c # r) = split_acc c acc s @ split_acc c [] r"
  by (induction s arbitrary: acc) auto

lemma join_append:
  "xs \<noteq> [] \<Longrightarrow> ys \<noteq> [] \<Longrightarrow> join_with sep (xs @ ys) = join_with sep xs @ sep @ join_with sep ys"
proof (induction xs)
  case (Cons x xs)
  obtain y ys' where ys: "ys = y # ys'" using Cons.prems(2) by (cases ys) auto
  show ?case
  proof (cases xs)
    case (Cons z zs)
    with Cons.IH Cons.prems show ?thesis by simp
  qed (simp add: ys)
qed simp

lemma starts_with_dir_iff:
  "l = r \<or> starts_with r (l @ [c]) \<longleftrightarrow> (\<exists>zs. split_char c r = split_char c l @ zs)"
proof
  assume "l = r \<or> starts_with r (l @ [c])"
  then consider "l = r" | rest where "r = l @ c # rest" by (auto simp: starts_with_iff)
  then show "\<exists>zs. split_char c r = split_char c l @ zs"
    by cases (simp_all add: split_char_def split_acc_append_sep)
next
  assume "\<exists>zs. split_char c r = split_char c l @ zs"
  then obtain zs where zs: "split_char c r = split_char c l @ zs" by blast
  show "l = r \<or> starts_with r (l @ [c])"
  proof (cases "zs = []")
    case True
    with zs have "join_with [c] (split_char c r) = join_with [c] (split_char c l)" by simp
    then show ?thesis by (simp only: join_split_char) simp
  next
    case False
    have "split_char c l \<noteq> []" by (simp add: split_char_def split_acc_nonempty)
    from join_append [OF this False, of "[c]"] have "r = l @ [c] @ join_with [c] zs"
      unfolding zs [symmetric] join_split_char .
    then have "r = (l @ [c]) @ join_with [c] zs" by simp
    then show ?thesis unfolding starts_with_iff by blast
  qed
qed

section \<open>Permits\<close>

definition held_by :: "resource_id \<Rightarrow> resource_ticket list \<Rightarrow> nat" where
  "held_by r ts = sum_list (map (\<lambda>t. unat (amount_of (rtk_claims t) r)) ts)"

definition limit_at :: "resource_manager \<Rightarrow> resource_id \<Rightarrow> nat" where
  "limit_at m r = (case bm_get (rm_definitions m) r of None \<Rightarrow> 0 | Some d \<Rightarrow> unat (limit_of d))"

lemma held_amount_of: "held_amount m r = amount_of (rm_held m) r"
  by (simp add: held_amount_def amount_of_def)

lemma drop_amount_amount:
  "unat (amount_of (drop_amount (k, a) m) r) = unat (amount_of m r) - (if r = k then unat a else 0)"
  by (auto simp: drop_amount_def amount_of_def Let_def bm_get_insert bm_get_remove unat_sat_sub
      unat_eq_0 [symmetric] split: option.split)

lemma amount_of_fold_drop:
  "distinct (map fst claims) \<Longrightarrow>
   unat (amount_of (fold drop_amount claims m) r) = unat (amount_of m r) - unat (amount_of claims r)"
proof (induction claims arbitrary: m)
  case (Cons p claims)
  obtain k a where p: "p = (k, a)" by (cases p)
  have fresh: "k \<notin> fst ` set claims" using Cons.prems by (simp add: p)
  have "unat (amount_of ((k, a) # claims) r) = unat (amount_of claims r) + (if r = k then unat a else 0)"
    using amount_of_remove_keys [OF fresh] by (auto simp: amount_of_def bm_get_def)
  with Cons show ?case by (simp add: p drop_amount_amount)
qed (simp add: amount_of_def bm_get_def)

text \<open>What the claims loop lets through: declared resources, and amounts that are free.\<close>

definition claims_free :: "resource_manager \<Rightarrow> (resource_id, u32) bmap \<Rightarrow> bool" where
  "claims_free m requested \<longleftrightarrow>
     bm_wf requested \<and>
     (\<forall>r. unat (held_amount m r) \<le> limit_at m r \<longrightarrow>
        unat (held_amount m r) + unat (amount_of requested r) \<le> limit_at m r)"

lemma request_claim_free:
  assumes "claims_free m requested" and "request_claim m claim requested = Ok requested'"
  shows "claims_free m requested'"
proof -
  obtain d where d: "bm_get (rm_definitions m) (rc_resource claim) = Some d"
    and free: "\<not> sat_sub (limit_of d) (held_amount m (rc_resource claim)) < rc_amount claim"
    and r': "requested' = bm_insert (rc_resource claim) (rc_amount claim) requested"
    using assms(2) by (auto simp: request_claim_def Let_def split: option.splits if_splits)
  have "unat (rc_amount claim) \<le> unat (limit_of d) - unat (held_amount m (rc_resource claim))"
    using free by (simp add: not_less word_le_nat_alt unat_sat_sub)
  then show ?thesis
    using assms(1) d by (auto simp: claims_free_def r' bm_wf_insert amount_of_def bm_get_insert limit_at_def)
qed

lemma requests_free:
  assumes "fold_r (request_claim m) claims [] = Ok requested"
  shows "claims_free m requested"
proof (rule fold_r_invariant [where P = "claims_free m", OF _ _ assms])
  show "claims_free m []" by (simp add: claims_free_def amount_of_def bm_get_empty)
qed (rule request_claim_free)

section \<open>Writers\<close>

definition writes_disjoint :: "resource_ticket \<Rightarrow> resource_ticket \<Rightarrow> bool" where
  "writes_disjoint t u \<longleftrightarrow>
     (\<forall>p \<in> set (rtk_write_set t). \<forall>q \<in> set (rtk_write_set u). \<not> path_patterns_overlap p q)"

lemma writes_disjoint_commute: "writes_disjoint t u = writes_disjoint u t"
  unfolding writes_disjoint_def using overlap_commute by blast

lemma conflicting_write_None:
  assumes "conflicting_write m q = None" and "(n, paths) \<in> set (rm_active_writes m)" and "p \<in> set paths"
  shows "\<not> path_patterns_overlap p q"
proof -
  have "(n, p) \<in> set (concat (map (\<lambda>(n, paths). map (Pair n) paths) (rm_active_writes m)))"
    using assms(2,3) by force
  then show ?thesis using assms(1) unfolding conflicting_write_def find_None_iff by blast
qed

lemma check_writes_Ok:
  assumes "check_writes m write_set = Ok u" and "q \<in> set write_set"
    and "(n, paths) \<in> set (rm_active_writes m)" and "p \<in> set paths"
  shows "\<not> path_patterns_overlap p q"
proof -
  have "\<forall>q \<in> set qs. conflicting_write m q = None" if "check_writes m qs = Ok u" for qs
    using that unfolding check_writes_def
    by (induction qs) (auto simp: bind_r_eq_Ok split: option.splits)
  then have "conflicting_write m q = None" using assms(1,2) by blast
  then show ?thesis using assms(3,4) by (rule conflicting_write_None)
qed

section \<open>The invariant\<close>

definition resource_inv :: "resource_manager \<Rightarrow> resource_ticket list \<Rightarrow> bool" where
  "resource_inv m held \<longleftrightarrow>
     (\<forall>r. unat (held_amount m r) = held_by r held \<and> held_by r held \<le> limit_at m r) \<and>
     (\<forall>t \<in> set held. bm_wf (rtk_claims t)) \<and>
     bm_wf (rm_active_writes m) \<and> distinct (map rtk_node_id held) \<and>
     (\<forall>t \<in> set held. rtk_write_set t \<noteq> [] \<longrightarrow>
        bm_get (rm_active_writes m) (rtk_node_id t) = Some (rtk_write_set t)) \<and>
     (\<forall>t \<in> set held. \<forall>u \<in> set held. t \<noteq> u \<longrightarrow> writes_disjoint t u)"

lemma try_acquire_OkE:
  assumes "try_acquire m node defaults plan_mode = Ok (m', ticket)"
  obtains requested where
    "plan_mode \<longrightarrow> effective_capability node defaults = CM_ReadOnly"
    "check_tools node = Ok ()" "check_writes m (normalized_write_set node) = Ok ()"
    "fold_r (request_claim m) (ns_resource_claims node) [] = Ok requested"
    "ticket = \<lparr>rtk_node_id = ns_id node, rtk_claims = requested, rtk_write_set = normalized_write_set node\<rparr>"
    "m' = m\<lparr>rm_held := fold add_amount requested (rm_held m),
      rm_active_writes := (if normalized_write_set node \<noteq> []
        then bm_insert (ns_id node) (normalized_write_set node) (rm_active_writes m)
        else rm_active_writes m)\<rparr>"
  using assms by (auto simp: try_acquire_def Let_def bind_r_eq_Ok split: if_splits)

lemma acquire_held_amount:
  assumes "try_acquire m node defaults plan_mode = Ok (m', ticket)"
    and "unat (held_amount m r) \<le> limit_at m r"
  shows "unat (held_amount m' r) = unat (held_amount m r) + unat (amount_of (rtk_claims ticket) r)"
    and "unat (held_amount m' r) \<le> limit_at m' r" and "bm_wf (rtk_claims ticket)"
    and "limit_at m' r = limit_at m r"
proof -
  obtain requested where req: "fold_r (request_claim m) (ns_resource_claims node) [] = Ok requested"
    and t: "rtk_claims ticket = requested" and h: "rm_held m' = fold add_amount requested (rm_held m)"
      "rm_definitions m' = rm_definitions m"
    using assms(1) by (auto elim!: try_acquire_OkE)
  have free: "claims_free m requested" by (rule requests_free [OF req])
  then show wf: "bm_wf (rtk_claims ticket)" by (simp add: t claims_free_def)
  show lim: "limit_at m' r = limit_at m r" by (simp add: limit_at_def h)
  have le: "unat (held_amount m r) + unat (amount_of requested r) \<le> limit_at m r"
    using free assms(2) by (simp add: claims_free_def)
  moreover have "unat (limit_of d) < 2 ^ 32" for d using unat_le_max [of "limit_of d"] by simp
  then have "limit_at m r < 2 ^ 32" by (simp add: limit_at_def split: option.split)
  moreover have "held_amount m' r = held_amount m r + amount_of requested r"
    using wf by (simp add: t h held_amount_of amount_of_fold_add bm_wf_def)
  ultimately show "unat (held_amount m' r) = unat (held_amount m r) + unat (amount_of (rtk_claims ticket) r)"
    by (simp add: unat_word_ariths t)
  with le show "unat (held_amount m' r) \<le> limit_at m' r" by (simp add: lim t)
qed

lemma held_by_simps [simp]:
  "held_by r [] = 0" "held_by r (t # ts) = unat (amount_of (rtk_claims t) r) + held_by r ts"
  by (simp_all add: held_by_def)

lemma held_by_remove1:
  "t \<in> set ts \<Longrightarrow> held_by r ts = unat (amount_of (rtk_claims t) r) + held_by r (remove1 t ts)"
  unfolding held_by_def by (rule sum_list_map_remove1)

lemma resource_invD:
  assumes "resource_inv m held"
  shows "unat (held_amount m r) = held_by r held" and "held_by r held \<le> limit_at m r"
    and "t \<in> set held \<Longrightarrow> bm_wf (rtk_claims t)" and "bm_wf (rm_active_writes m)"
    and "distinct (map rtk_node_id held)"
    and "t \<in> set held \<Longrightarrow> rtk_write_set t \<noteq> [] \<Longrightarrow>
      bm_get (rm_active_writes m) (rtk_node_id t) = Some (rtk_write_set t)"
    and "t \<in> set held \<Longrightarrow> u \<in> set held \<Longrightarrow> t \<noteq> u \<Longrightarrow> writes_disjoint t u"
  using assms unfolding resource_inv_def by blast+

lemma acquire_disjoint:
  assumes inv: "resource_inv m held" and acq: "try_acquire m node defaults plan_mode = Ok (m', ticket)"
    and t: "t \<in> set held"
  shows "writes_disjoint t ticket"
proof -
  have check: "check_writes m (rtk_write_set ticket) = Ok ()" using acq by (auto elim!: try_acquire_OkE)
  have "\<not> path_patterns_overlap p q"
    if p: "p \<in> set (rtk_write_set t)" and q: "q \<in> set (rtk_write_set ticket)" for p q
  proof -
    have "rtk_write_set t \<noteq> []" using p by force
    then have "bm_get (rm_active_writes m) (rtk_node_id t) = Some (rtk_write_set t)"
      by (rule resource_invD(6) [OF inv t])
    then have "(rtk_node_id t, rtk_write_set t) \<in> set (rm_active_writes m)"
      by (simp add: bm_get_Some_iff [OF resource_invD(4) [OF inv]])
    then show ?thesis using check_writes_Ok [OF check q] p by blast
  qed
  then show ?thesis by (simp add: writes_disjoint_def)
qed

lemma acquire_inv:
  assumes inv: "resource_inv m held" and acq: "try_acquire m node defaults plan_mode = Ok (m', ticket)"
    and new: "ns_id node \<notin> rtk_node_id ` set held"
  shows "resource_inv m' (ticket # held)"
proof -
  have id: "rtk_node_id ticket = ns_id node"
    and writes: "rm_active_writes m' = (if rtk_write_set ticket \<noteq> []
      then bm_insert (ns_id node) (rtk_write_set ticket) (rm_active_writes m) else rm_active_writes m)"
    using acq by (auto elim!: try_acquire_OkE)
  have lim: "unat (held_amount m r) \<le> limit_at m r" for r
    using resource_invD(1,2) [OF inv, of r] by simp
  note held = acquire_held_amount [OF acq lim]
  have "unat (held_amount m' r) = held_by r (ticket # held)" and "held_by r (ticket # held) \<le> limit_at m' r" for r
    using held(1,2) [of r] resource_invD(1) [OF inv, of r] by simp_all
  moreover have "\<forall>t \<in> set (ticket # held). bm_wf (rtk_claims t)"
    using held(3) resource_invD(3) [OF inv] by auto
  moreover have "bm_wf (rm_active_writes m')"
    using resource_invD(4) [OF inv] by (simp add: writes bm_wf_insert)
  moreover have "distinct (map rtk_node_id (ticket # held))"
    using resource_invD(5) [OF inv] new by (simp add: id)
  moreover have "bm_get (rm_active_writes m') (rtk_node_id t) = Some (rtk_write_set t)"
    if "t \<in> set (ticket # held)" "rtk_write_set t \<noteq> []" for t
  proof (cases "t = ticket")
    case True
    then show ?thesis using that(2) by (simp add: writes id bm_get_insert)
  next
    case False
    then have "t \<in> set held" using that(1) by simp
    moreover then have "rtk_node_id t \<noteq> ns_id node" using new by force
    ultimately show ?thesis
      using resource_invD(6) [OF inv _ that(2)] by (simp add: writes bm_get_insert)
  qed
  moreover have "writes_disjoint t u" if "t \<in> set (ticket # held)" "u \<in> set (ticket # held)" "t \<noteq> u" for t u
    using that resource_invD(7) [OF inv, of t u] acquire_disjoint [OF inv acq] writes_disjoint_commute by auto
  ultimately show ?thesis unfolding resource_inv_def by blast
qed

lemma release_held_amount:
  "bm_wf (rtk_claims ticket) \<Longrightarrow>
   unat (held_amount (release_resources m ticket) r) =
   unat (held_amount m r) - unat (amount_of (rtk_claims ticket) r)"
  by (simp add: held_amount_of release_resources_def amount_of_fold_drop bm_wf_def)

lemma release_resources_inv:
  assumes inv: "resource_inv m held" and t: "ticket \<in> set held"
  shows "resource_inv (release_resources m ticket) (remove1 ticket held)"
proof -
  let ?m = "release_resources m ticket"
  have sub: "set (remove1 ticket held) \<subseteq> set held" by (rule set_remove1_subset)
  have "distinct held" using resource_invD(5) [OF inv] by (simp add: distinct_map)
  then have out: "ticket \<notin> set (remove1 ticket held)" by (simp add: set_remove1_eq)
  have lim: "limit_at ?m r = limit_at m r" for r by (simp add: limit_at_def release_resources_def)
  have "unat (held_amount ?m r) = held_by r (remove1 ticket held)"
    and "held_by r (remove1 ticket held) \<le> limit_at ?m r" for r
    using release_held_amount [OF resource_invD(3) [OF inv t], of m r] resource_invD(1,2) [OF inv, of r]
      held_by_remove1 [OF t, of r] lim by simp_all
  moreover have "bm_wf (rm_active_writes ?m)"
    using resource_invD(4) [OF inv] by (simp add: release_resources_def bm_wf_remove)
  moreover have "distinct (map rtk_node_id (remove1 ticket held))"
    using resource_invD(5) [OF inv] by (auto simp: distinct_map intro: inj_on_diff)
  moreover have "bm_get (rm_active_writes ?m) (rtk_node_id u) = Some (rtk_write_set u)"
    if u: "u \<in> set (remove1 ticket held)" "rtk_write_set u \<noteq> []" for u
  proof -
    have "u \<noteq> ticket" "u \<in> set held" using u(1) out sub by auto
    then have "rtk_node_id u \<noteq> rtk_node_id ticket"
      using resource_invD(5) [OF inv] t by (auto simp: distinct_map inj_on_def)
    then show ?thesis
      using resource_invD(6) [OF inv \<open>u \<in> set held\<close> u(2)] by (simp add: release_resources_def bm_get_remove)
  qed
  ultimately show ?thesis
    using resource_invD(3,7) [OF inv] sub unfolding resource_inv_def by blast
qed

section \<open>Runs of the manager\<close>

text \<open>A node acquires when it holds no ticket (the scheduler leases a node once at a time).\<close>

inductive resource_step ::
  "resource_manager \<times> resource_ticket list \<Rightarrow> resource_manager \<times> resource_ticket list \<Rightarrow> bool" where
  step_acquire: "try_acquire m node defaults plan_mode = Ok (m', ticket) \<Longrightarrow>
     ns_id node \<notin> rtk_node_id ` set held \<Longrightarrow> resource_step (m, held) (m', ticket # held)"
| step_release: "ticket \<in> set held \<Longrightarrow>
     resource_step (m, held) (release_resources m ticket, remove1 ticket held)"

interpretation resource_run:
  invariant_system "\<lambda>s. \<exists>spec. s = (from_graph spec, [])" resource_step "\<lambda>(m, held). resource_inv m held"
proof
  show "(case s of (m, held) \<Rightarrow> resource_inv m held)" if "\<exists>spec. s = (from_graph spec, [])" for s
    using that by (auto simp: resource_inv_def from_graph_def held_amount_def bm_get_empty)
  show "(case t of (m, held) \<Rightarrow> resource_inv m held)"
    if "resource_step s t" and "case s of (m, held) \<Rightarrow> resource_inv m held" for s t
    using that by (cases rule: resource_step.cases) (auto intro: acquire_inv release_resources_inv)
qed

interpretation resource_pool: permit_pool resource_inv limit_at "\<lambda>t r. unat (amount_of (rtk_claims t) r)"
  by unfold_locales (use resource_invD(2) in \<open>auto simp: held_by_def\<close>)

lemma reachable_resources:
  "resource_step\<^sup>*\<^sup>* (from_graph spec, []) (m, held) \<Longrightarrow> resource_inv m held"
  using resource_run.reach_inv [of "(from_graph spec, [])" "(m, held)"] by auto

section \<open>Properties\<close>

text \<open>
  Permits held are exact and bounded: in every reachable state the held count of a resource is
  the sum of the claims of the tickets handed out, and at most the limit declared for it (one for
  an exclusive lock).
\<close>

lemma resource_permits_exact:
  assumes "resource_step\<^sup>*\<^sup>* (from_graph spec, []) (m, held)"
  shows "unat (held_amount m r) = held_by r held \<and> held_by r held \<le> limit_at m r"
  using resource_invD(1,2) [OF reachable_resources [OF assms]] by blast

text \<open>A node that claims a lock and a file, and the run it belongs to.\<close>

definition cargo_node :: "node_id \<Rightarrow> string \<Rightarrow> node_spec" where
  "cargo_node nid path = (minimal_node nid NK_Agent ''build'')
     \<lparr>ns_resource_claims := [\<lparr>rc_resource = ''cargo'', rc_amount = 1\<rparr>], ns_write_set := [path]\<rparr>"

definition cargo_graph :: graph_spec where
  "cargo_graph =
     (let g = minimal_graph [cargo_node ''a'' ''src''] []
      in g\<lparr>gs_spec := (gs_spec g)
             \<lparr>sb_resources := [(''cargo'', \<lparr>rd_kind = RK_ExclusiveLock, rd_limit = 1\<rparr>)]\<rparr>\<rparr>)"

definition cargo_ticket :: resource_ticket where
  "cargo_ticket = \<lparr>rtk_node_id = ''a'', rtk_claims = [(''cargo'', 1)], rtk_write_set = [''src'']\<rparr>"

definition cargo_manager :: resource_manager where
  "cargo_manager =
     \<lparr>rm_definitions = [(''cargo'', \<lparr>rd_kind = RK_ExclusiveLock, rd_limit = 1\<rparr>)],
      rm_held = [(''cargo'', 1)], rm_active_writes = [(''a'', [''src''])]\<rparr>"

lemmas pattern_eval = normalize_path_pattern_def trim_printable printable_def replace_char_def trim_start_matches.simps
  trim_end_matches_def collapse_slashes_id

lemma normalize_src: "normalize_path_pattern ''src'' = ''src''"
  by (simp add: pattern_eval)

lemma cargo_acquires:
  "try_acquire (from_graph cargo_graph) (cargo_node ''a'' ''src'') default_node_defaults False =
   Ok (cargo_manager, cargo_ticket)"
  by (simp add: try_acquire_def check_tools_def check_writes_def conflicting_write_def
      normalized_write_set_def normalize_src request_claim_def limit_of_def held_amount_def
      cargo_node_def cargo_graph_def cargo_ticket_def cargo_manager_def from_graph_def
      minimal_node_def minimal_graph_def Let_def bm_get_def bm_insert_def bm_remove_def
      add_amount_def sat_sub_def)

lemma cargo_reachable: "resource_step\<^sup>*\<^sup>* (from_graph cargo_graph, []) (cargo_manager, [cargo_ticket])"
  by (intro r_into_rtranclp step_acquire [OF cargo_acquires]) simp

text \<open>
  Two active nodes never write to the same place: for any two tickets handed out, no write
  pattern of one overlaps a write pattern of the other.
\<close>

lemma active_write_sets_disjoint:
  assumes "resource_step\<^sup>*\<^sup>* (from_graph spec, []) (m, held)"
    and "t \<in> set held" and "u \<in> set held" and "t \<noteq> u"
    and "p \<in> set (rtk_write_set t)" and "q \<in> set (rtk_write_set u)"
  shows "\<not> path_patterns_overlap p q"
  using resource_invD(7) [OF reachable_resources [OF assms(1)] assms(2-4)] assms(5,6)
  by (simp add: writes_disjoint_def)

definition reader_ticket :: resource_ticket where
  "reader_ticket = \<lparr>rtk_node_id = ''b'', rtk_claims = [], rtk_write_set = [''docs'']\<rparr>"

text \<open>
  Overlap means containment: two patterns overlap exactly when their normal forms are not empty
  and the path components of one are an initial part of those of the other.
\<close>

lemma overlap_is_containment:
  "path_patterns_overlap left right \<longleftrightarrow>
   (let l = normalize_path_pattern left; r = normalize_path_pattern right
    in l \<noteq> [] \<and> r \<noteq> [] \<and>
       ((\<exists>zs. split_char CHR ''/'' r = split_char CHR ''/'' l @ zs) \<or>
        (\<exists>zs. split_char CHR ''/'' l = split_char CHR ''/'' r @ zs)))"
  unfolding path_patterns_overlap_def Let_def starts_with_dir_iff [symmetric] by auto

lemma acquire_release_restores:
  assumes inv: "resource_inv m held" and acq: "try_acquire m node defaults plan_mode = Ok (m', ticket)"
    and new: "bm_get (rm_active_writes m) (ns_id node) = None"
  shows "held_amount (release_resources m' ticket) r = held_amount m r"
    and "rm_active_writes (release_resources m' ticket) = rm_active_writes m"
proof -
  have lim: "unat (held_amount m r) \<le> limit_at m r" using resource_invD(1,2) [OF inv, of r] by simp
  note held = acquire_held_amount [OF acq lim]
  show "held_amount (release_resources m' ticket) r = held_amount m r"
    using release_held_amount [OF held(3), of m' r] held(1) by (simp add: word_unat_eq_iff)
  show "rm_active_writes (release_resources m' ticket) = rm_active_writes m"
    using acq by (rule try_acquire_OkE) (use new in \<open>simp add: release_resources_def bm_remove_insert\<close>)
qed

text \<open>
  Releasing undoes acquiring: after a node that held nothing acquires and releases, the held
  count of every resource and the active writes are as before.
\<close>

lemma release_undoes_acquire:
  assumes "resource_step\<^sup>*\<^sup>* (from_graph spec, []) (m, held)"
    and "try_acquire m node defaults plan_mode = Ok (m', ticket)"
    and "bm_get (rm_active_writes m) (ns_id node) = None"
  shows "held_amount (release_resources m' ticket) r = held_amount m r \<and>
    rm_active_writes (release_resources m' ticket) = rm_active_writes m"
  using acquire_release_restores [OF reachable_resources [OF assms(1)] assms(2,3)] by blast

text \<open>
  What acquisition lets through: in plan mode only read-only nodes, and never a model worker
  that is allowed a nested orchestration tool, in any letter case.
\<close>

lemma acquire_enforces_policy:
  assumes "try_acquire m node defaults plan_mode = Ok (m', ticket)"
  shows "(plan_mode \<longrightarrow> effective_capability node defaults = CM_ReadOnly) \<and>
    (is_model_worker node \<longrightarrow>
      (\<forall>tool \<in> set (ns_tool_allowlist node). to_ascii_lowercase tool \<notin> set denied_worker_tools))"
proof -
  have tools: "check_tools node = Ok ()" and plan: "plan_mode \<longrightarrow> effective_capability node defaults = CM_ReadOnly"
    using assms by (auto elim!: try_acquire_OkE)
  have "fold_r (\<lambda>tool _. if is_model_worker node \<and> is_nested_orchestration_tool tool
      then Err (Nested_Orchestration_Tool (ns_id node) tool) else Ok ()) tools () = Ok () \<Longrightarrow>
    is_model_worker node \<Longrightarrow> tool \<in> set tools \<Longrightarrow> \<not> is_nested_orchestration_tool tool" for tools tool
    by (induction tools) (auto split: if_splits)
  from this [of "ns_tool_allowlist node"] tools plan show ?thesis
    by (auto simp: check_tools_def is_nested_orchestration_tool_def)
qed

text \<open>
  An exclusive lock has at most one holder among the tickets handed out.
\<close>

lemma exclusive_lock_single_holder:
  assumes "resource_step\<^sup>*\<^sup>* (from_graph spec, []) (m, held)"
    and "bm_get (rm_definitions m) r = Some d" and "rd_kind d = RK_ExclusiveLock"
    and "i < length held" and "j < length held"
    and "amount_of (rtk_claims (held ! i)) r \<noteq> 0" and "amount_of (rtk_claims (held ! j)) r \<noteq> 0"
  shows "i = j"
  by (rule resource_pool.one_holder [OF reachable_resources [OF assms(1)], of r])
    (use assms in \<open>simp_all add: limit_at_def limit_of_def unat_gt_0\<close>)

text \<open>
  A write set that names the whole tree is not protected: \<open>/**\<close> has an empty normal form and is
  dropped from the write set, and \<open>**\<close> overlaps only patterns under a directory of that name.
\<close>

lemma whole_tree_writer_unprotected:
  "normalize_path_pattern ''/**'' = []" "normalize_path_pattern ''**'' = ''**''"
  "\<not> path_patterns_overlap ''**'' ''src''"
proof -
  show "normalize_path_pattern ''/**'' = []" by (simp add: pattern_eval)
  show star: "normalize_path_pattern ''**'' = ''**''" by (simp add: pattern_eval)
  then show "\<not> path_patterns_overlap ''**'' ''src''"
    by (simp add: path_patterns_overlap_def normalize_src starts_with_def)
qed

text \<open>Two claims of one resource count once: the second overwrites the first in the request.\<close>

lemma duplicate_claims_collapse:
  "fold_r (request_claim (from_graph cargo_graph))
     [\<lparr>rc_resource = ''cargo'', rc_amount = 1\<rparr>, \<lparr>rc_resource = ''cargo'', rc_amount = 1\<rparr>] [] =
   Ok [(''cargo'', 1)]"
  by (simp add: request_claim_def limit_of_def held_amount_def cargo_graph_def from_graph_def
      minimal_graph_def Let_def bm_get_def bm_insert_def bm_remove_def sat_sub_def)

end
