(* ===== verification/Loop_Controller.thy ===== *)
theory Loop_Controller
  imports Budget Predicate_Eval
begin

text \<open>
  Bounded loops, \<^verbatim>\<open>agent_graph/loop_controller.rs\<close>: the state of a loop node and the decision
  after each round. The serialization of outputs and findings by \<^verbatim>\<open>serde_json\<close> and the hash
  \<^verbatim>\<open>Sha256\<close> are arguments, the fields of \<open>loop_env\<close>. The decision returns the new state with its
  result, since the state changes also when it fails.

  The lemmas show that a loop continues only below all its limits, that the rounds of a loop are
  bounded by its iteration limit, or by its node and no-progress limits together, and that its
  counters agree with the findings seen.
\<close>

section \<open>Data\<close>

datatype loop_status =
    LS_Running | LS_Converged | LS_Dry | LS_NoProgress | LS_IterationLimit
  | LS_GeneratedNodeLimit | LS_BudgetStopped | LS_WallTimeStopped

record loop_state =
  lo_iteration :: u32
  lo_generated_node_count :: u32
  lo_generated_node_ids :: "string list"
  lo_seen :: "string bset"
  lo_progress_value :: u64
  lo_dry_round_count :: u32
  lo_accumulated_usage :: usage_accounting
  lo_accumulated_artifacts :: "artifact_ref list"
  lo_terminal_predicate_result :: bool
  lo_status :: loop_status
  lo_started_at_ms :: i64
  lo_updated_at_ms :: i64

definition new_loop :: "i64 \<Rightarrow> loop_state" where
  "new_loop started_at_ms =
     \<lparr>lo_iteration = 0, lo_generated_node_count = 0, lo_generated_node_ids = [], lo_seen = [],
      lo_progress_value = 0, lo_dry_round_count = 0, lo_accumulated_usage = default_usage,
      lo_accumulated_artifacts = [], lo_terminal_predicate_result = False,
      lo_status = LS_Running, lo_started_at_ms = started_at_ms, lo_updated_at_ms = started_at_ms\<rparr>"

definition loop_is_terminal :: "loop_state \<Rightarrow> bool" where
  "loop_is_terminal s \<longleftrightarrow> lo_status s \<noteq> LS_Running"

datatype loop_decision = LD_Continue | LD_Complete | LD_Partial

datatype loop_error = Missing_Policy | Loop_Predicate predicate_error | Loop_Json

record loop_env =
  le_output_value :: "node_output \<Rightarrow> json option"
  le_finding_value :: "node_finding \<Rightarrow> json option"
  le_to_vec :: "json \<Rightarrow> string"
  le_sha256 :: "string \<Rightarrow> string"

section \<open>Operations\<close>

definition le_bytes32 :: "u32 \<Rightarrow> string" where
  "le_bytes32 w = map (\<lambda>k. char_of (unat w div 256 ^ k mod 256)) [0, 1, 2, 3]"

definition pad4 :: "nat \<Rightarrow> string" where
  "pad4 n = replicate (4 - length (dec n)) (CHR ''0'') @ dec n"

definition dynamic_node_id :: "loop_env \<Rightarrow> string \<Rightarrow> u32 \<Rightarrow> string \<Rightarrow> string" where
  "dynamic_node_id env loop_node_id iteration dedup_key =
     (let digest = le_sha256 env
            (loop_node_id @ [char_of (0 :: nat)] @ le_bytes32 iteration @ [char_of (0 :: nat)] @ dedup_key)
      in loop_node_id @ ''-iteration-'' @ pad4 (unat iteration) @ ''-'' @ hex_bytes (take 8 digest))"

definition canonical_value :: "loop_env \<Rightarrow> json \<Rightarrow> string" where
  "canonical_value env v = hex_bytes (le_sha256 env (le_to_vec env v))"

definition exceeds_usage :: "u64 option \<Rightarrow> u64 \<Rightarrow> bool" where
  "exceeds_usage limit actual = is_some_and limit (\<lambda>l. l \<le> actual)"

text \<open>\<open>get_json_path(...).ok().flatten()\<close>.\<close>

definition path_value :: "json \<Rightarrow> string \<Rightarrow> json option" where
  "path_value document path = (case get_json_path document path of Inl _ \<Rightarrow> None | Inr v \<Rightarrow> v)"

definition progress_value :: "string option \<Rightarrow> json \<Rightarrow> loop_state \<Rightarrow> u64" where
  "progress_value metric output s =
     (let m = unwrap_or metric ''unique-findings'';
          count = of_nat (length (lo_seen s))
      in if m = ''unique-findings'' \<or> m = ''seen-count'' then count
         else unwrap_or (Option.bind (path_value output m) json_as_u64) count)"

definition add_artifacts :: "artifact_ref list \<Rightarrow> artifact_ref list \<Rightarrow> artifact_ref list" where
  "add_artifacts new acc =
     fold (\<lambda>a acc. if list_ex (\<lambda>e. ar_path e = ar_path a \<and> ar_sha256 e = ar_sha256 a) acc then acc
                   else acc @ [a]) new acc"

definition finding_key :: "loop_env \<Rightarrow> loop_spec \<Rightarrow> json \<Rightarrow> string" where
  "finding_key env policy finding =
     (case Option.bind (ls_deduplication_key policy) (path_value finding) of
        Some v \<Rightarrow> canonical_value env v
      | None \<Rightarrow> canonical_value env finding)"

definition record_key :: "loop_env \<Rightarrow> string \<Rightarrow> string \<Rightarrow> loop_state \<Rightarrow> loop_state" where
  "record_key env instance_id key s =
     (if key \<in> set (lo_seen s) then s
      else s\<lparr>lo_seen := bs_insert key (lo_seen s),
             lo_generated_node_ids := lo_generated_node_ids s
               @ [dynamic_node_id env instance_id (lo_iteration s) key]\<rparr>)"

fun record_findings ::
  "loop_env \<Rightarrow> loop_spec \<Rightarrow> string \<Rightarrow> node_finding list \<Rightarrow> loop_state \<Rightarrow> loop_state \<times> bool" where
  "record_findings env policy instance_id [] s = (s, True)"
| "record_findings env policy instance_id (f # fs) s =
     (case le_finding_value env f of
        None \<Rightarrow> (s, False)
      | Some v \<Rightarrow>
          record_findings env policy instance_id fs
            (record_key env instance_id (finding_key env policy v) s))"

text \<open>The counters after a round that found \<open>new_items\<close> new keys.\<close>

definition note_progress :: "loop_spec \<Rightarrow> json \<Rightarrow> u32 \<Rightarrow> loop_state \<Rightarrow> loop_state" where
  "note_progress policy output_json new_items s =
     (let s1 = s\<lparr>lo_generated_node_count := sat_add (lo_generated_node_count s) new_items\<rparr>;
          progress = progress_value (ls_progress_metric policy) output_json s1;
          dry = (if new_items = 0 \<or> progress \<le> lo_progress_value s1
                 then sat_add (lo_dry_round_count s1) 1 else 0)
      in s1\<lparr>lo_dry_round_count := dry, lo_progress_value := max (lo_progress_value s1) progress\<rparr>)"

definition loop_deadline_reached :: "loop_spec \<Rightarrow> loop_state \<Rightarrow> i64 \<Rightarrow> bool" where
  "loop_deadline_reached policy s at_ms =
     is_some_and (ls_max_wall_time_seconds policy) (\<lambda>seconds.
       i64_sat_add (lo_started_at_ms s) (u64_as_i64 (sat_mul seconds 1000)) \<le> at_ms)"

text \<open>The tests of the code in their order, once the terminal predicate is known.\<close>

definition decide_loop :: "loop_spec \<Rightarrow> bool \<Rightarrow> u32 \<Rightarrow> loop_state \<Rightarrow> loop_status \<times> loop_decision" where
  "decide_loop policy deadline_reached new_items s =
     (if lo_terminal_predicate_result s then (LS_Converged, LD_Complete)
      else if deadline_reached then (LS_WallTimeStopped, LD_Partial)
      else if exceeds_usage (ls_max_input_tokens policy) (ua_input_tokens (lo_accumulated_usage s))
           \<or> exceeds_usage (ls_max_output_tokens policy) (ua_output_tokens (lo_accumulated_usage s))
           \<or> exceeds_usage (ls_max_model_calls policy) (ua_model_calls (lo_accumulated_usage s))
        then (LS_BudgetStopped, LD_Partial)
      else if is_some_and (ls_max_generated_nodes policy) (\<lambda>l. l \<le> lo_generated_node_count s)
        then (LS_GeneratedNodeLimit, LD_Partial)
      else if is_some_and (ls_no_progress_limit policy) (\<lambda>l. l \<le> lo_dry_round_count s)
        then ((if new_items = 0 then LS_Dry else LS_NoProgress), LD_Complete)
      else if is_some_and (ls_max_iterations policy) (\<lambda>l. l \<le> lo_iteration s)
        then (LS_IterationLimit, LD_Partial)
      else (LS_Running, LD_Continue))"

text \<open>The round is entered in the state: its number, time, usage and artifacts.\<close>

definition enter_round :: "loop_state \<Rightarrow> node_output \<Rightarrow> usage_accounting \<Rightarrow> i64 \<Rightarrow> loop_state" where
  "enter_round s output usage at_ms =
     s\<lparr>lo_iteration := sat_add (lo_iteration s) 1, lo_updated_at_ms := at_ms,
       lo_accumulated_usage := add_usage (lo_accumulated_usage s) usage,
       lo_accumulated_artifacts := add_artifacts (no_artifacts output) (lo_accumulated_artifacts s)\<rparr>"

definition terminal_result ::
  "loop_spec \<Rightarrow> json \<Rightarrow> (node_id, node_status) bmap \<Rightarrow> bool \<Rightarrow> (predicate_error, bool) result" where
  "terminal_result policy output_json statuses deadline_reached =
     (case ls_terminal_predicate policy of
        None \<Rightarrow> Ok False
      | Some p \<Rightarrow>
          evaluate_predicate p
            \<lparr>pc_document = output_json, pc_statuses = statuses, pc_deadline_reached = deadline_reached\<rparr>)"

definition advance_loop ::
  "loop_env \<Rightarrow> loop_spec option \<Rightarrow> loop_state \<Rightarrow> node_output \<Rightarrow> usage_accounting
   \<Rightarrow> (node_id, node_status) bmap \<Rightarrow> i64 \<Rightarrow> loop_state \<times> (loop_error, loop_decision) result" where
  "advance_loop env policy0 s output usage statuses at_ms =
     (case policy0 of
        None \<Rightarrow> (s, Err Missing_Policy)
      | Some policy \<Rightarrow>
          let s1 = enter_round s output usage at_ms
          in case le_output_value env output of
               None \<Rightarrow> (s1, Err Loop_Json)
             | Some output_json \<Rightarrow>
                 case record_findings env policy (no_node_instance_id output) (no_findings output) s1 of
                   (s2, False) \<Rightarrow> (s2, Err Loop_Json)
                 | (s2, True) \<Rightarrow>
                     let new_items = of_nat (length (lo_seen s2) - length (lo_seen s1));
                         s3 = note_progress policy output_json new_items s2;
                         deadline_reached = loop_deadline_reached policy s3 at_ms
                     in case terminal_result policy output_json statuses deadline_reached of
                          Inl e \<Rightarrow> (s3, Err (Loop_Predicate e))
                        | Inr b \<Rightarrow>
                            let s4 = s3\<lparr>lo_terminal_predicate_result := b\<rparr>
                            in case decide_loop policy deadline_reached new_items s4 of
                                 (status, decision) \<Rightarrow> (s4\<lparr>lo_status := status\<rparr>, Ok decision))"

section \<open>What a round changes\<close>

lemma record_key_keeps:
  "lo_iteration (record_key env i k s) = lo_iteration s"
  "lo_generated_node_count (record_key env i k s) = lo_generated_node_count s"
  "lo_dry_round_count (record_key env i k s) = lo_dry_round_count s"
  "lo_accumulated_usage (record_key env i k s) = lo_accumulated_usage s"
  "lo_started_at_ms (record_key env i k s) = lo_started_at_ms s"
  by (simp_all add: record_key_def)

lemma record_findings_keeps:
  assumes "record_findings env policy i fs s = (s', b)"
  shows "lo_iteration s' = lo_iteration s" "lo_generated_node_count s' = lo_generated_node_count s"
    and "lo_dry_round_count s' = lo_dry_round_count s" "lo_accumulated_usage s' = lo_accumulated_usage s"
    and "lo_started_at_ms s' = lo_started_at_ms s"
  using assms
  by (induction env policy i fs s rule: record_findings.induct) (auto simp: record_key_keeps split: option.splits)

text \<open>The set of keys and the list of generated ids grow together.\<close>

definition seen_ok :: "loop_state \<Rightarrow> bool" where
  "seen_ok s \<longleftrightarrow> bs_wf (lo_seen s) \<and> length (lo_generated_node_ids s) = length (lo_seen s)"

lemma record_key_seen: "seen_ok s \<Longrightarrow> seen_ok (record_key env i k s)"
  by (auto simp: seen_ok_def record_key_def bs_wf_insert) (simp add: bs_insert_def)

lemma record_key_grows: "length (lo_seen s) \<le> length (lo_seen (record_key env i k s))"
  by (simp add: record_key_def bs_insert_def)

lemma record_findings_seen:
  "record_findings env policy i fs s = (s', b) \<Longrightarrow>
   (seen_ok s \<longrightarrow> seen_ok s') \<and> length (lo_seen s) \<le> length (lo_seen s')"
proof (induction env policy i fs s rule: record_findings.induct)
  case (2 env policy i f fs s)
  show ?case
  proof (cases "le_finding_value env f")
    case None
    then show ?thesis using "2.prems" by simp
  next
    case (Some v)
    with "2.IH" [OF Some] "2.prems" record_key_seen [of s env i] record_key_grows [of s env i] show ?thesis
      by (fastforce intro: order_trans)
  qed
qed simp

text \<open>What is known of a round that asks for another one.\<close>

lemma advance_ContinueE:
  assumes "advance_loop env (Some policy) s output usage statuses at_ms = (s', Ok LD_Continue)"
  obtains s2 new_items output_json where
    "record_findings env policy (no_node_instance_id output) (no_findings output)
       (enter_round s output usage at_ms) = (s2, True)"
    "new_items = of_nat (length (lo_seen s2) - length (lo_seen s))"
    "\<exists>b st. s' = (note_progress policy output_json new_items s2)\<lparr>lo_terminal_predicate_result := b, lo_status := st\<rparr>"
    "decide_loop policy (loop_deadline_reached policy s' at_ms) new_items s' = (LS_Running, LD_Continue)"
proof -
  let ?s1 = "enter_round s output usage at_ms"
  obtain oj s2 where oj: "le_output_value env output = Some oj"
    and rf: "record_findings env policy (no_node_instance_id output) (no_findings output) ?s1 = (s2, True)"
    using assms by (auto simp: advance_loop_def Let_def split: option.splits prod.splits bool.splits)
  let ?new = "of_nat (length (lo_seen s2) - length (lo_seen s)) :: u32"
  let ?s3 = "note_progress policy oj ?new s2"
  let ?d = "loop_deadline_reached policy ?s3 at_ms"
  have seen: "lo_seen ?s1 = lo_seen s" by (simp add: enter_round_def)
  obtain b where b: "terminal_result policy oj statuses ?d = Ok b"
    and dec: "(case decide_loop policy ?d ?new (?s3\<lparr>lo_terminal_predicate_result := b\<rparr>) of
        (status, decision) \<Rightarrow> (?s3\<lparr>lo_terminal_predicate_result := b, lo_status := status\<rparr>, Ok decision :: (loop_error, loop_decision) result))
      = (s', Ok LD_Continue)"
    using assms oj rf by (auto simp: advance_loop_def Let_def seen split: sum.splits)
  obtain st where st: "decide_loop policy ?d ?new (?s3\<lparr>lo_terminal_predicate_result := b\<rparr>) = (st, LD_Continue)"
    and s': "s' = ?s3\<lparr>lo_terminal_predicate_result := b, lo_status := st\<rparr>"
    using dec by (auto split: prod.splits)
  have "loop_deadline_reached policy s' at_ms = ?d" by (simp add: s' loop_deadline_reached_def)
  moreover have "st = LS_Running" using st by (auto simp: decide_loop_def split: if_splits)
  moreover have "decide_loop policy ?d ?new s' = decide_loop policy ?d ?new (?s3\<lparr>lo_terminal_predicate_result := b\<rparr>)"
    by (simp add: s' decide_loop_def)
  ultimately have "decide_loop policy (loop_deadline_reached policy s' at_ms) ?new s' = (LS_Running, LD_Continue)"
    using st by simp
  with s' show thesis by (intro that [OF rf refl]) blast+
qed

lemma decide_Continue:
  assumes "decide_loop policy d new_items s = (LS_Running, LD_Continue)"
  shows "\<not> lo_terminal_predicate_result s" "\<not> d"
    and "\<not> exceeds_usage (ls_max_input_tokens policy) (ua_input_tokens (lo_accumulated_usage s))"
    and "\<not> exceeds_usage (ls_max_output_tokens policy) (ua_output_tokens (lo_accumulated_usage s))"
    and "\<not> exceeds_usage (ls_max_model_calls policy) (ua_model_calls (lo_accumulated_usage s))"
    and "is_none_or (ls_max_generated_nodes policy) (\<lambda>l. lo_generated_node_count s < l)"
    and "is_none_or (ls_no_progress_limit policy) (\<lambda>l. lo_dry_round_count s < l)"
    and "is_none_or (ls_max_iterations policy) (\<lambda>l. lo_iteration s < l)"
  using assms by (auto simp: decide_loop_def is_some_none not_le split: if_splits)

lemma note_progress_counts:
  "lo_iteration (note_progress policy oj new_items s) = lo_iteration s"
  "lo_generated_node_count (note_progress policy oj new_items s) = sat_add (lo_generated_node_count s) new_items"
  "lo_accumulated_usage (note_progress policy oj new_items s) = lo_accumulated_usage s"
  "lo_seen (note_progress policy oj new_items s) = lo_seen s"
  "lo_generated_node_ids (note_progress policy oj new_items s) = lo_generated_node_ids s"
  "lo_dry_round_count (note_progress policy oj new_items s) = sat_add (lo_dry_round_count s) 1 \<or>
   new_items \<noteq> 0 \<and> lo_dry_round_count (note_progress policy oj new_items s) = 0"
  by (auto simp: note_progress_def Let_def)

lemma advance_Continue_counts:
  assumes "advance_loop env (Some policy) s output usage statuses at_ms = (s', Ok LD_Continue)"
  obtains new_items where
    "lo_iteration s' = sat_add (lo_iteration s) 1"
    "lo_generated_node_count s' = sat_add (lo_generated_node_count s) new_items"
    "lo_dry_round_count s' = sat_add (lo_dry_round_count s) 1 \<or> new_items \<noteq> 0 \<and> lo_dry_round_count s' = 0"
    "decide_loop policy (loop_deadline_reached policy s' at_ms) new_items s' = (LS_Running, LD_Continue)"
proof (rule advance_ContinueE [OF assms])
  fix s2 new_items oj
  assume rf: "record_findings env policy (no_node_instance_id output) (no_findings output)
      (enter_round s output usage at_ms) = (s2, True)"
    and st: "\<exists>b st. s' = (note_progress policy oj new_items s2)\<lparr>lo_terminal_predicate_result := b, lo_status := st\<rparr>"
    and dec: "decide_loop policy (loop_deadline_reached policy s' at_ms) new_items s' = (LS_Running, LD_Continue)"
  note k = record_findings_keeps [OF rf]
  show thesis
    by (rule that [OF _ _ _ dec])
      (use st k note_progress_counts [of policy oj new_items s2] in \<open>auto simp: enter_round_def\<close>)
qed

section \<open>Runs of a loop\<close>

text \<open>One round that asks for another, for some output, usage, statuses and time.\<close>

inductive loop_continues :: "loop_env \<Rightarrow> loop_spec \<Rightarrow> loop_state \<Rightarrow> loop_state \<Rightarrow> bool" for env policy where
  "advance_loop env (Some policy) s output usage statuses at_ms = (s', Ok LD_Continue) \<Longrightarrow>
   loop_continues env policy s s'"

lemma continues_iteration:
  assumes "loop_continues env policy s s'" and "ls_max_iterations policy = Some limit"
  shows "unat (lo_iteration s') = unat (lo_iteration s) + 1 \<and> unat (lo_iteration s') < unat limit"
  using assms(1)
proof cases
  case (1 out usage statuses at_ms)
  show ?thesis
  proof (rule advance_Continue_counts [OF 1])
    fix new_items
    assume it: "lo_iteration s' = sat_add (lo_iteration s) 1"
      and "decide_loop policy (loop_deadline_reached policy s' at_ms) new_items s' = (LS_Running, LD_Continue)"
    from decide_Continue(8) [OF this(2)] assms(2) have lt: "unat (lo_iteration s') < unat limit"
      by (simp add: word_less_nat_alt)
    with it unat_le_max [of limit] show ?thesis by (simp add: unat_sat_add)
  qed
qed

lemma rounds_iteration:
  "(loop_continues env policy ^^ n) s s' \<Longrightarrow> ls_max_iterations policy = Some limit \<Longrightarrow>
   unat (lo_iteration s') = unat (lo_iteration s) + n \<and> (0 < n \<longrightarrow> unat (lo_iteration s') < unat limit)"
proof (induction n arbitrary: s')
  case (Suc n)
  then obtain s1 where "(loop_continues env policy ^^ n) s s1" and "loop_continues env policy s1 s'"
    by (auto elim: relpowp_Suc_E)
  with Suc.IH [of s1] Suc.prems(2) continues_iteration [of env policy s1 s' limit] show ?case by auto
qed simp

text \<open>
  Without an iteration limit: a round either is dry or generates a node, and the number of dry
  rounds in a row is bounded. This potential grows with every round.
\<close>

definition loop_potential :: "u32 \<Rightarrow> loop_state \<Rightarrow> nat" where
  "loop_potential dry_limit s =
     unat (lo_generated_node_count s) * unat dry_limit + unat (lo_dry_round_count s)"

lemma continues_potential:
  assumes "loop_continues env policy s s'" and "ls_no_progress_limit policy = Some dry"
    and "ls_max_generated_nodes policy = Some nodes" and "unat (lo_dry_round_count s) < unat dry"
  shows "loop_potential dry s < loop_potential dry s' \<and>
    unat (lo_dry_round_count s') < unat dry \<and> unat (lo_generated_node_count s') < unat nodes"
  using assms(1)
proof cases
  case (1 out usage statuses at_ms)
  show ?thesis
  proof (rule advance_Continue_counts [OF 1])
    fix new_items
    assume gen: "lo_generated_node_count s' = sat_add (lo_generated_node_count s) new_items"
      and dry: "lo_dry_round_count s' = sat_add (lo_dry_round_count s) 1 \<or> new_items \<noteq> 0 \<and> lo_dry_round_count s' = 0"
      and dec: "decide_loop policy (loop_deadline_reached policy s' at_ms) new_items s' = (LS_Running, LD_Continue)"
    have lt: "unat (lo_dry_round_count s') < unat dry" "unat (lo_generated_node_count s') < unat nodes"
      using decide_Continue(6,7) [OF dec] assms(2,3) by (simp_all add: word_less_nat_alt)
    have g: "unat (lo_generated_node_count s') = unat (lo_generated_node_count s) + unat new_items"
      using gen lt(2) unat_le_max [of nodes] by (simp add: unat_sat_add)
    from dry have "loop_potential dry s < loop_potential dry s'"
    proof
      assume "lo_dry_round_count s' = sat_add (lo_dry_round_count s) 1"
      then have "unat (lo_dry_round_count s') = unat (lo_dry_round_count s) + 1"
        using lt(1) unat_le_max [of dry] by (simp add: unat_sat_add)
      then show ?thesis by (simp add: loop_potential_def g add_mult_distrib)
    next
      assume new: "new_items \<noteq> 0 \<and> lo_dry_round_count s' = 0"
      then have "1 \<le> unat new_items" by (simp add: unat_gt_0 Suc_leI)
      then have "1 * unat dry \<le> unat new_items * unat dry" by (rule mult_le_mono1)
      with assms(4) have "unat (lo_dry_round_count s) < unat new_items * unat dry" by linarith
      then show ?thesis using new by (simp add: loop_potential_def g add_mult_distrib)
    qed
    with lt show ?thesis by blast
  qed
qed

lemma rounds_potential:
  "(loop_continues env policy ^^ n) s s' \<Longrightarrow> ls_no_progress_limit policy = Some dry \<Longrightarrow>
   ls_max_generated_nodes policy = Some nodes \<Longrightarrow> unat (lo_dry_round_count s) < unat dry \<Longrightarrow>
   loop_potential dry s + n \<le> loop_potential dry s' \<and> unat (lo_dry_round_count s') < unat dry \<and>
   (0 < n \<longrightarrow> unat (lo_generated_node_count s') < unat nodes)"
proof (induction n arbitrary: s')
  case (Suc n)
  then obtain s1 where "(loop_continues env policy ^^ n) s s1" and "loop_continues env policy s1 s'"
    by (auto elim: relpowp_Suc_E)
  with Suc.IH [of s1] Suc.prems(2-4) continues_potential [of env policy s1 s' dry nodes] show ?case by auto
qed simp

section \<open>Properties\<close>

text \<open>
  A loop asks for another round only below all its limits: the deadline is not reached, the
  usage is below the token and call limits, and the counters of iterations, generated nodes and
  dry rounds are below theirs; the terminal predicate is false.
\<close>

lemma loop_continues_below_limits:
  assumes "advance_loop env (Some policy) s output usage statuses at_ms = (s', Ok LD_Continue)"
  shows "\<not> lo_terminal_predicate_result s' \<and> \<not> loop_deadline_reached policy s' at_ms \<and>
    \<not> exceeds_usage (ls_max_input_tokens policy) (ua_input_tokens (lo_accumulated_usage s')) \<and>
    \<not> exceeds_usage (ls_max_output_tokens policy) (ua_output_tokens (lo_accumulated_usage s')) \<and>
    \<not> exceeds_usage (ls_max_model_calls policy) (ua_model_calls (lo_accumulated_usage s')) \<and>
    is_none_or (ls_max_generated_nodes policy) (\<lambda>l. lo_generated_node_count s' < l) \<and>
    is_none_or (ls_no_progress_limit policy) (\<lambda>l. lo_dry_round_count s' < l) \<and>
    is_none_or (ls_max_iterations policy) (\<lambda>l. lo_iteration s' < l)"
  by (rule advance_Continue_counts [OF assms]) (intro conjI; rule decide_Continue; assumption)

text \<open>A loop limited to three rounds, with an output that reports nothing.\<close>

definition loop3 :: loop_spec where
  "loop3 = \<lparr>ls_max_iterations = Some 3, ls_max_generated_nodes = Some 5, ls_max_input_tokens = None,
    ls_max_output_tokens = None, ls_max_model_calls = None, ls_max_wall_time_seconds = None,
    ls_progress_metric = None, ls_no_progress_limit = Some 2, ls_deduplication_key = None,
    ls_terminal_predicate = None\<rparr>"

definition null_env :: loop_env where
  "null_env = \<lparr>le_output_value = (\<lambda>_. Some JNull), le_finding_value = (\<lambda>_. Some JNull),
    le_to_vec = (\<lambda>_. ''null''), le_sha256 = id\<rparr>"

definition quiet_output :: node_output where
  "quiet_output = \<lparr>no_schema_version = 1, no_graph_run_id = ''run'', no_node_instance_id = ''loop'',
    no_attempt_id = ''a'', no_status = NS_Succeeded, no_summary = ''round'', no_findings = [],
    no_files_read = [], no_files_changed = [], no_commands_run = [], no_tests_run = [],
    no_artifacts = [], no_assumptions = [], no_blockers = [], no_confidence = Fin 1\<rparr>"

lemmas loop3_eval = advance_loop_def loop3_def null_env_def quiet_output_def enter_round_def
  add_artifacts_def note_progress_def progress_value_def loop_deadline_reached_def terminal_result_def
  decide_loop_def exceeds_usage_def new_loop_def sat_add_def Let_def

lemma loop3_first:
  "\<exists>s'. advance_loop null_env (Some loop3) (new_loop 0) quiet_output default_usage [] 10 = (s', Ok LD_Continue) \<and>
     lo_iteration s' = 1"
  by (simp add: loop3_eval word_le_nat_alt)

text \<open>
  Loops end. From a new loop, the number of rounds that ask for another is below the iteration
  limit; and, when there is none, below the product of the limits on generated nodes and on rounds
  without progress.
\<close>

lemma loop_rounds_bounded:
  assumes "(loop_continues env policy ^^ n) (new_loop t0) s"
  shows "(\<forall>limit. ls_max_iterations policy = Some limit \<longrightarrow> n < max 1 (unat limit)) \<and>
    (\<forall>dry nodes. ls_no_progress_limit policy = Some dry \<longrightarrow> ls_max_generated_nodes policy = Some nodes \<longrightarrow>
       0 < dry \<longrightarrow> n < max 1 (unat nodes * unat dry))"
proof (intro conjI allI impI)
  fix limit assume "ls_max_iterations policy = Some limit"
  with rounds_iteration [OF assms] show "n < max 1 (unat limit)"
    by (cases "n = 0") (auto simp: new_loop_def)
next
  fix dry nodes
  assume lim: "ls_no_progress_limit policy = Some dry" "ls_max_generated_nodes policy = Some nodes" "0 < dry"
  have "unat (lo_dry_round_count (new_loop t0)) < unat dry"
    using lim(3) by (simp add: new_loop_def word_less_nat_alt)
  from rounds_potential [OF assms lim(1,2) this]
  have p: "n \<le> loop_potential dry s" "unat (lo_dry_round_count s) < unat dry"
    and g: "0 < n \<Longrightarrow> unat (lo_generated_node_count s) < unat nodes" by auto
  show "n < max 1 (unat nodes * unat dry)"
  proof (cases "n = 0")
    case False
    then have "(unat (lo_generated_node_count s) + 1) * unat dry \<le> unat nodes * unat dry"
      using g by (intro mult_le_mono1) simp
    then show ?thesis using p by (simp add: loop_potential_def add_mult_distrib)
  qed simp
qed

text \<open>
  A wall-time limit whose milliseconds leave \<open>i64\<close> is reached at once: the cast wraps, and the
  deadline lies before the start of the loop.
\<close>

lemma wall_time_limit_wraps:
  "loop_deadline_reached (loop3\<lparr>ls_max_wall_time_seconds := Some (- 1)\<rparr>) (new_loop 0) 0"
  by (simp add: loop_deadline_reached_def new_loop_def sat_mul_def u64_as_i64_def i64_sat_add_def
      i64_sat_def i64_min_def i64_max_def unsigned_minus_1_eq_mask mask_eq_exp_minus_1)

end
