(* ===== verification/Compensation.thy ===== *)
theory Compensation
  imports Retry Loop_Controller "HOL-Library.Sublist"
begin

text \<open>
  Compensation of a failed run, \<^verbatim>\<open>agent_graph/compensation.rs\<close>: the plan that undoes completed
  side effects, built from the events of the run, and its progress. The events are those of
  \<^verbatim>\<open>agent_graph/store.rs\<close>.

  The lemmas show that the plan covers every completed side effect that names a compensation, once
  and in reverse order of completion, and that a plan reports completion only when all its steps
  are completed.
\<close>

section \<open>Data\<close>

datatype compensation_step_status = CS_Pending | CS_Running | CS_Completed | CS_Failed

record compensation_step =
  cst_source_node_id :: node_id
  cst_compensation_node_id :: node_id
  cst_status :: compensation_step_status
  cst_attempt :: u32

datatype compensation_plan_status =
    CPS_Pending | CPS_Running | CPS_Completed | CPS_Failed | CPS_ManualInterventionRequired

record compensation_plan =
  cpl_steps :: "compensation_step list"
  cpl_cursor :: nat
  cpl_status :: compensation_plan_status

datatype graph_event =
    GE_RunCreated run_status
  | GE_RunStatusChanged run_status
  | GE_NodeStatusChanged node_id node_status
  | GE_NodeLeased node_id u32 string i64
  | GE_NodeOutputAccepted node_id u32 node_status
  | GE_LeaseExpired node_id u32
  | GE_RetryScheduled retry_schedule
  | GE_RetryReady node_id u32
  | GE_RunCancelled string
  | GE_RunRecovered string
  | GE_LoopStateUpdated node_id u32 loop_status
  | GE_CompensationUpdated compensation_plan_status nat

section \<open>Operations\<close>

definition current_step :: "compensation_plan \<Rightarrow> compensation_step option" where
  "current_step plan =
     (if cpl_cursor plan < length (cpl_steps plan) then Some (cpl_steps plan ! cpl_cursor plan) else None)"

text \<open>The largest value of the cursor's type, a 64-bit \<^verbatim>\<open>usize\<close>, at which its increment saturates.\<close>

definition usize_max :: nat where
  "usize_max = 2 ^ 64 - 1"

text \<open>Changing the step under the cursor, if there is one.\<close>

definition update_current :: "(compensation_step \<Rightarrow> compensation_step) \<Rightarrow> compensation_plan \<Rightarrow> compensation_plan" where
  "update_current f plan =
     (if cpl_cursor plan < length (cpl_steps plan)
      then plan\<lparr>cpl_steps := (cpl_steps plan)[cpl_cursor plan := f (cpl_steps plan ! cpl_cursor plan)]\<rparr>
      else plan)"

definition mark_running :: "u32 \<Rightarrow> compensation_plan \<Rightarrow> compensation_plan" where
  "mark_running attempt plan =
     update_current (\<lambda>step. step\<lparr>cst_status := CS_Running, cst_attempt := attempt\<rparr>)
       (plan\<lparr>cpl_status := CPS_Running\<rparr>)"

definition mark_completed :: "compensation_plan \<Rightarrow> compensation_plan" where
  "mark_completed plan =
     (let p1 = update_current (\<lambda>step. step\<lparr>cst_status := CS_Completed\<rparr>) plan;
          p2 = p1\<lparr>cpl_cursor := min (cpl_cursor p1 + 1) usize_max\<rparr>
      in if length (cpl_steps p2) \<le> cpl_cursor p2 then p2\<lparr>cpl_status := CPS_Completed\<rparr> else p2)"

definition mark_failed :: "compensation_plan \<Rightarrow> compensation_plan" where
  "mark_failed plan =
     (update_current (\<lambda>step. step\<lparr>cst_status := CS_Failed\<rparr>) plan)\<lparr>cpl_status := CPS_Failed\<rparr>"

definition plan_is_complete :: "compensation_plan \<Rightarrow> bool" where
  "plan_is_complete plan \<longleftrightarrow> cpl_status plan = CPS_Completed"

definition side_effecting :: "graph_spec \<Rightarrow> node_spec \<Rightarrow> bool" where
  "side_effecting spec source \<longleftrightarrow>
     CM_ReadOnly < effective_capability source (sb_defaults (gs_spec spec)) \<or>
     ns_external_effects source \<noteq> [] \<or> ns_write_set source \<noteq> []"

definition find_node :: "graph_spec \<Rightarrow> node_id \<Rightarrow> node_spec option" where
  "find_node spec nid = find (\<lambda>node. ns_id node = nid) (sb_nodes (gs_spec spec))"

text \<open>What has to be undone for a completed node: its id and the compensation it names.\<close>

definition undo_of :: "graph_spec \<Rightarrow> node_id \<Rightarrow> (node_id \<times> node_id) option" where
  "undo_of spec source_id =
     (case find_node spec source_id of
        None \<Rightarrow> None
      | Some source \<Rightarrow>
          (case ns_compensation source of
             None \<Rightarrow> None
           | Some undo \<Rightarrow> if side_effecting spec source then Some (ns_id source, undo) else None))"

fun compensation_steps ::
  "graph_spec \<Rightarrow> node_id list \<Rightarrow> node_id bset \<Rightarrow> compensation_step list" where
  "compensation_steps spec [] seen = []"
| "compensation_steps spec (source_id # ids) seen =
     (case undo_of spec source_id of
        None \<Rightarrow> compensation_steps spec ids seen
      | Some (source, undo) \<Rightarrow>
          if undo \<notin> set seen
          then \<lparr>cst_source_node_id = source, cst_compensation_node_id = undo,
                cst_status = CS_Pending, cst_attempt = 0\<rparr>
               # compensation_steps spec ids (bs_insert undo seen)
          else compensation_steps spec ids seen)"

definition build_compensation_plan :: "graph_spec \<Rightarrow> node_id list \<Rightarrow> compensation_plan" where
  "build_compensation_plan spec completed_in_order =
     (let steps = compensation_steps spec (rev completed_in_order) []
      in \<lparr>cpl_steps = steps, cpl_cursor = 0,
          cpl_status = (if steps = [] then CPS_Completed else CPS_Pending)\<rparr>)"

definition completed_node_order_from_events :: "graph_event list \<Rightarrow> node_id list" where
  "completed_node_order_from_events events =
     fold (\<lambda>event order.
       case event of
         GE_NodeOutputAccepted nid _ NS_Succeeded \<Rightarrow> if nid \<in> set order then order else order @ [nid]
       | _ \<Rightarrow> order) events []"

section \<open>The plan\<close>

lemma find_node_Some: "find_node spec nid = Some node \<Longrightarrow> ns_id node = nid \<and> node \<in> set (sb_nodes (gs_spec spec))"
  unfolding find_node_def by (auto simp: find_Some_iff)

text \<open>A completed node whose effect names a compensation.\<close>

definition needs :: "graph_spec \<Rightarrow> node_id \<Rightarrow> node_id \<Rightarrow> bool" where
  "needs spec nid undo \<longleftrightarrow>
     (\<exists>node. find_node spec nid = Some node \<and> side_effecting spec node \<and> ns_compensation node = Some undo)"

lemma undo_of_iff: "undo_of spec nid = Some (source, undo) \<longleftrightarrow> source = nid \<and> needs spec nid undo"
  by (auto simp: undo_of_def needs_def dest: find_node_Some split: option.splits)

lemma steps_sound:
  "step \<in> set (compensation_steps spec ids seen) \<Longrightarrow>
   cst_source_node_id step \<in> set ids \<and> needs spec (cst_source_node_id step) (cst_compensation_node_id step) \<and>
   cst_compensation_node_id step \<notin> set seen"
  by (induction ids arbitrary: seen)
    (fastforce simp: undo_of_iff set_bs_insert split: option.splits if_splits)+

lemma steps_distinct: "distinct (map cst_compensation_node_id (compensation_steps spec ids seen))"
proof (induction ids arbitrary: seen)
  case (Cons sid ids)
  show ?case
  proof (cases "undo_of spec sid")
    case (Some p)
    obtain source undo where p: "p = (source, undo)" by (cases p)
    have "undo \<notin> cst_compensation_node_id ` set (compensation_steps spec ids (bs_insert undo seen))"
      using steps_sound [of _ spec ids "bs_insert undo seen"] by (auto simp: set_bs_insert)
    with Cons Some p show ?thesis by simp
  qed (use Cons in simp)
qed simp

lemma steps_complete:
  "nid \<in> set ids \<Longrightarrow> needs spec nid undo \<Longrightarrow>
   undo \<in> set seen \<or> undo \<in> cst_compensation_node_id ` set (compensation_steps spec ids seen)"
proof (induction ids arbitrary: seen)
  case (Cons sid ids)
  show ?case
  proof (cases "nid = sid")
    case True
    then have "undo_of spec sid = Some (sid, undo)" using Cons.prems(2) by (simp add: undo_of_iff)
    then show ?thesis by (cases "undo \<in> set seen") simp_all
  next
    case False
    then have "nid \<in> set ids" using Cons.prems(1) by simp
    note ih = Cons.IH [OF this Cons.prems(2)]
    show ?thesis
    proof (cases "undo_of spec sid")
      case None
      then show ?thesis using ih [of seen] by simp
    next
      case (Some su)
      then obtain source u where "undo_of spec sid = Some (source, u)" by (cases su) simp
      then show ?thesis
        using ih [of seen] ih [of "bs_insert u seen"] by (cases "u \<in> set seen") (simp_all add: set_bs_insert, blast)
    qed
  qed
qed simp

lemma steps_order: "subseq (map cst_source_node_id (compensation_steps spec ids seen)) ids"
  by (induction ids arbitrary: seen)
    (auto simp: undo_of_iff split: option.split prod.split intro: subseq_Cons')

section \<open>Progress\<close>

inductive plan_step :: "compensation_plan \<Rightarrow> compensation_plan \<Rightarrow> bool" where
  plan_running: "plan_step p (mark_running attempt p)"
| plan_completed: "plan_step p (mark_completed p)"
| plan_failed: "plan_step p (mark_failed p)"

definition step_ids :: "compensation_plan \<Rightarrow> (node_id \<times> node_id) list" where
  "step_ids p = map (\<lambda>s. (cst_source_node_id s, cst_compensation_node_id s)) (cpl_steps p)"

definition plan_inv :: "(node_id \<times> node_id) list \<Rightarrow> compensation_plan \<Rightarrow> bool" where
  "plan_inv ids p \<longleftrightarrow>
     step_ids p = ids \<and> cpl_cursor p \<le> usize_max \<and>
     (\<forall>i < length (cpl_steps p). i < cpl_cursor p \<longrightarrow> cst_status (cpl_steps p ! i) = CS_Completed) \<and>
     (cpl_status p = CPS_Completed \<longrightarrow> length (cpl_steps p) \<le> cpl_cursor p)"

lemma update_current_ids:
  assumes "\<And>s. cst_source_node_id (f s) = cst_source_node_id s"
    and "\<And>s. cst_compensation_node_id (f s) = cst_compensation_node_id s"
  shows "step_ids (update_current f p) = step_ids p"
  using assms by (auto simp: step_ids_def update_current_def map_update list_update_same_conv)

lemma update_current_fields:
  "cpl_cursor (update_current f p) = cpl_cursor p" "cpl_status (update_current f p) = cpl_status p"
  "length (cpl_steps (update_current f p)) = length (cpl_steps p)"
  "i < length (cpl_steps p) \<Longrightarrow> cpl_steps (update_current f p) ! i =
     (if i = cpl_cursor p then f (cpl_steps p ! i) else cpl_steps p ! i)"
  by (auto simp: update_current_def)

lemma step_ids_other [simp]:
  "step_ids (p\<lparr>cpl_status := st\<rparr>) = step_ids p" "step_ids (p\<lparr>cpl_cursor := c\<rparr>) = step_ids p"
  by (simp_all add: step_ids_def)

lemma plan_inv_update:
  assumes "plan_inv ids p" and "\<And>s. cst_source_node_id (f s) = cst_source_node_id s"
    and "\<And>s. cst_compensation_node_id (f s) = cst_compensation_node_id s" and "st \<noteq> CPS_Completed"
  shows "plan_inv ids ((update_current f p)\<lparr>cpl_status := st\<rparr>)"
  using assms(1,4) by (simp add: plan_inv_def update_current_ids [OF assms(2,3)] update_current_fields)

lemma mark_completed_inv:
  assumes "plan_inv ids p"
  shows "plan_inv ids (mark_completed p)"
proof -
  let ?u = "update_current (\<lambda>s. s\<lparr>cst_status := CS_Completed\<rparr>) p"
  have "step_ids (mark_completed p) = step_ids ?u" by (simp add: mark_completed_def Let_def)
  then have "step_ids (mark_completed p) = ids"
    using assms by (simp add: plan_inv_def update_current_ids)
  moreover have "cpl_steps (mark_completed p) = cpl_steps ?u" "cpl_cursor (mark_completed p) = min (cpl_cursor p + 1) usize_max"
    by (simp_all add: mark_completed_def Let_def update_current_fields)
  moreover have "cpl_status (mark_completed p) = CPS_Completed \<longrightarrow>
      length (cpl_steps (mark_completed p)) \<le> cpl_cursor (mark_completed p)"
    using assms by (auto simp: mark_completed_def Let_def plan_inv_def update_current_fields)
  ultimately show ?thesis
    using assms by (auto simp: plan_inv_def update_current_fields)
qed

lemma plan_inv_step: "plan_step p p' \<Longrightarrow> plan_inv ids p \<Longrightarrow> plan_inv ids p'"
proof (induction rule: plan_step.induct)
  case (plan_running p attempt)
  have "mark_running attempt p =
      (update_current (\<lambda>s. s\<lparr>cst_status := CS_Running, cst_attempt := attempt\<rparr>) p)\<lparr>cpl_status := CPS_Running\<rparr>"
    by (simp add: mark_running_def update_current_def)
  then show ?case using plan_running by (simp add: plan_inv_update)
next
  case (plan_failed p)
  then show ?case by (simp add: mark_failed_def plan_inv_update)
qed (rule mark_completed_inv)

interpretation compensation_run:
  invariant_system
    "\<lambda>p. p = build_compensation_plan spec completed" plan_step
    "plan_inv (step_ids (build_compensation_plan spec completed))"
  for spec completed
proof
  show "plan_inv (step_ids (build_compensation_plan spec completed)) p"
    if "p = build_compensation_plan spec completed" for p spec completed
    using that by (simp add: plan_inv_def build_compensation_plan_def Let_def)
qed (rule plan_inv_step)

section \<open>Properties\<close>

text \<open>
  C39. The plan is exactly what has to be undone: every step undoes a completed side-effecting node
  by the compensation it names; every completed side effect that names a compensation has it in the
  plan; no compensation runs twice; and the steps follow the completion order backwards.
\<close>

theorem compensation_plan_correct:
  fixes spec completed
  defines "steps \<equiv> cpl_steps (build_compensation_plan spec completed)"
  shows "(\<forall>step \<in> set steps. cst_source_node_id step \<in> set completed \<and>
       needs spec (cst_source_node_id step) (cst_compensation_node_id step)) \<and>
     (\<forall>nid \<in> set completed. \<forall>undo. needs spec nid undo \<longrightarrow> undo \<in> cst_compensation_node_id ` set steps) \<and>
     distinct (map cst_compensation_node_id steps) \<and>
     subseq (map cst_source_node_id steps) (rev completed)"
proof -
  have steps: "steps = compensation_steps spec (rev completed) []"
    by (simp add: steps_def build_compensation_plan_def Let_def)
  show ?thesis
    unfolding steps
    using steps_sound [of _ spec "rev completed" "[]"] steps_complete [of _ "rev completed" spec _ "[]"]
      steps_distinct steps_order by auto
qed

theorem compensation_plan_correct_witness:
  "let write = (minimal_node ''w'' NK_Agent ''x'')\<lparr>ns_write_set := [''f''], ns_compensation := Some ''undo''\<rparr>;
       spec = minimal_graph [write, minimal_node ''undo'' NK_Compensation ''y''] []
   in ''undo'' \<in> cst_compensation_node_id ` set (cpl_steps (build_compensation_plan spec [''w'']))"
proof -
  let ?w = "(minimal_node ''w'' NK_Agent ''x'')\<lparr>ns_write_set := [''f''], ns_compensation := Some ''undo''\<rparr>"
  let ?spec = "minimal_graph [?w, minimal_node ''undo'' NK_Compensation ''y''] []"
  have "needs ?spec ''w'' ''undo''"
    by (simp add: needs_def find_node_def minimal_graph_def minimal_node_def side_effecting_def)
  with compensation_plan_correct [of ?spec "[''w'']"] show ?thesis by (simp add: Let_def)
qed

text \<open>
  A plan that reports completion has completed every step it was built with, whatever sequence
  of running, completed and failed marks led there.
\<close>

lemma complete_plan_all_steps_done:
  assumes "plan_step\<^sup>*\<^sup>* (build_compensation_plan spec completed) p" and "plan_is_complete p"
  shows "list_all (\<lambda>step. cst_status step = CS_Completed) (cpl_steps p) \<and>
    step_ids p = step_ids (build_compensation_plan spec completed)"
proof -
  have "plan_inv (step_ids (build_compensation_plan spec completed)) p"
    by (rule compensation_run.reach_inv [OF refl assms(1)])
  then show ?thesis
    using assms(2) by (auto simp: plan_inv_def plan_is_complete_def list_all_length)
qed

end
