(* ===== verification/Normalization.thy ===== *)
theory Normalization
  imports Graph_Types "HOL-Library.Multiset"
begin

text \<open>
  The normal form of a graph and its hash, \<^verbatim>\<open>agent_graph/normalization.rs\<close>. Serialization by
  \<^verbatim>\<open>serde_json\<close>, the hash \<^verbatim>\<open>Sha256\<close> and the \<^verbatim>\<open>Debug\<close> form of predicates and strings are
  arguments, the fields of \<open>norm_env\<close>. The sorts of the code are stable, as \<open>sort_key\<close> is.

  The lemmas show that the normal form, and with it the hash, does not depend on the order in
  which nodes and edges are listed, that JSON values which are equal have the same normal form,
  and that the lists of a normal node are sorted and free of duplicates.
\<close>

section \<open>Definitions\<close>

record norm_env =
  ne_to_vec :: "graph_spec \<Rightarrow> (string, string) result"
  ne_sha256 :: "string \<Rightarrow> string"
  ne_predicate_json :: "predicate \<Rightarrow> string option"
  ne_predicate_debug :: "predicate \<Rightarrow> string"
  ne_debug_str :: "string \<Rightarrow> string"

record normalized_graph_spec =
  ng_spec :: graph_spec
  ng_hash :: string

datatype normalization_error = Serialize string

fun normalization_error_display :: "normalization_error \<Rightarrow> string" where
  "normalization_error_display (Serialize e) = ''failed to serialize normalized graph: '' @ e"

fun normalize_json_value :: "json \<Rightarrow> json"
  and normalize_json_list :: "json list \<Rightarrow> json list"
  and normalize_json_entries :: "(string \<times> json) list \<Rightarrow> (string \<times> json) list" where
  "normalize_json_value (JObject entries) = JObject (bm_of_list (normalize_json_entries entries))"
| "normalize_json_value (JArray values) = JArray (normalize_json_list values)"
| "normalize_json_value JNull = JNull"
| "normalize_json_value (JBool b) = JBool b"
| "normalize_json_value (JNumber n) = JNumber n"
| "normalize_json_value (JString s) = JString s"
| "normalize_json_list [] = []"
| "normalize_json_list (v # vs) = normalize_json_value v # normalize_json_list vs"
| "normalize_json_entries [] = []"
| "normalize_json_entries ((k, v) # es) = (k, normalize_json_value v) # normalize_json_entries es"

definition normalize_pattern :: "string \<Rightarrow> string" where
  "normalize_pattern value =
     collapse_slashes (trim_start_matches ''./'' (replace_char (char_of (92 :: nat)) CHR ''/'' (trim value)))"

definition normalize_string_list :: "string list \<Rightarrow> string list" where
  "normalize_string_list values = remdups_adj (sort (map normalize_pattern values))"

definition predicate_sort_value :: "norm_env \<Rightarrow> predicate \<Rightarrow> string" where
  "predicate_sort_value env p = unwrap_or (ne_predicate_json env p) (ne_predicate_debug env p)"

fun external_effect_debug :: "norm_env \<Rightarrow> external_effect \<Rightarrow> string" where
  "external_effect_debug env EE_FileWrite = ''FileWrite''"
| "external_effect_debug env EE_Network = ''Network''"
| "external_effect_debug env EE_Database = ''Database''"
| "external_effect_debug env EE_Deployment = ''Deployment''"
| "external_effect_debug env EE_Publication = ''Publication''"
| "external_effect_debug env EE_CredentialChange = ''CredentialChange''"
| "external_effect_debug env EE_DestructiveAction = ''DestructiveAction''"
| "external_effect_debug env (EE_Other s) = ''Other('' @ ne_debug_str env s @ '')''"

definition resource_claim_sort_key :: "resource_claim \<Rightarrow> string \<times> u32" where
  "resource_claim_sort_key claim = (rc_resource claim, rc_amount claim)"

definition route_sort_key :: "norm_env \<Rightarrow> route_spec \<Rightarrow> string \<times> bool \<times> string" where
  "route_sort_key env route = (rt_to route, rt_fallback route, predicate_sort_value env (rt_predicate route))"

definition normalize_node :: "norm_env \<Rightarrow> node_spec \<Rightarrow> node_spec" where
  "normalize_node env node =
     node\<lparr>ns_read_set := normalize_string_list (ns_read_set node),
          ns_write_set := normalize_string_list (ns_write_set node),
          ns_tool_allowlist := normalize_string_list (ns_tool_allowlist node),
          ns_tool_denylist := normalize_string_list (ns_tool_denylist node),
          ns_credential_refs := normalize_string_list (ns_credential_refs node),
          ns_definition_of_done := normalize_string_list (ns_definition_of_done node),
          ns_evidence_requirements :=
            sort_key (\<lambda>r. (er_kind r, er_required r)) (ns_evidence_requirements node),
          ns_verification_requirements :=
            sort_key (\<lambda>r. (vr_kind r, vr_required r)) (ns_verification_requirements node),
          ns_resource_claims := sort_key resource_claim_sort_key (ns_resource_claims node),
          ns_external_effects := sort_key (external_effect_debug env) (ns_external_effects node),
          ns_tags := normalize_string_list (ns_tags node),
          ns_routes := sort_key (route_sort_key env) (ns_routes node),
          ns_output_schema := map_option normalize_json_value (ns_output_schema node)\<rparr>"

definition edge_sort_key :: "edge_spec \<Rightarrow> string \<times> string \<times> string \<times> string" where
  "edge_sort_key edge = (unwrap_or (es_id edge) [], es_from edge, es_to edge, edge_kind_debug (es_kind edge))"

definition binding_sort_key :: "edge_binding \<Rightarrow> string \<times> string \<times> string option" where
  "binding_sort_key b = (eb_input b, eb_path b, eb_schema_ref b)"

definition normalize_edge :: "edge_spec \<Rightarrow> edge_spec" where
  "normalize_edge edge = edge\<lparr>es_bindings := sort_key binding_sort_key (es_bindings edge)\<rparr>"

text \<open>The specification with schemas, nodes and edges in their normal form.\<close>

definition normalize_spec :: "norm_env \<Rightarrow> graph_spec \<Rightarrow> graph_spec" where
  "normalize_spec env spec =
     spec\<lparr>gs_spec := (gs_spec spec)
       \<lparr>sb_schemas := bm_of_list (map (\<lambda>(key, value). (key, normalize_json_value value)) (sb_schemas (gs_spec spec))),
        sb_nodes := map (normalize_node env) (sort_key ns_id (sb_nodes (gs_spec spec))),
        sb_edges := map normalize_edge (sort_key edge_sort_key (sb_edges (gs_spec spec)))\<rparr>\<rparr>"

definition hash_graph_spec :: "norm_env \<Rightarrow> graph_spec \<Rightarrow> (normalization_error, string) result" where
  "hash_graph_spec env spec =
     (case ne_to_vec env spec of
        Inl e \<Rightarrow> Err (Serialize e)
      | Inr bytes \<Rightarrow> Ok (''sha256:'' @ hex_bytes (ne_sha256 env bytes)))"

definition normalize_graph_spec :: "norm_env \<Rightarrow> graph_spec \<Rightarrow> (normalization_error, normalized_graph_spec) result" where
  "normalize_graph_spec env spec =
     (let normalized = normalize_spec env spec
      in bind_r (hash_graph_spec env normalized) (\<lambda>hash. Ok \<lparr>ng_spec = normalized, ng_hash = hash\<rparr>))"

definition canonical_graph_hash :: "norm_env \<Rightarrow> graph_spec \<Rightarrow> (normalization_error, string) result" where
  "canonical_graph_hash env spec =
     bind_r (normalize_graph_spec env spec) (\<lambda>normalized. Ok (ng_hash normalized))"

section \<open>JSON values\<close>

text \<open>The keys of an object are distinct, at every depth.\<close>

fun json_wf :: "json \<Rightarrow> bool"
  and json_wf_list :: "json list \<Rightarrow> bool"
  and json_wf_entries :: "(string \<times> json) list \<Rightarrow> bool" where
  "json_wf (JObject es) = (distinct (map fst es) \<and> json_wf_entries es)"
| "json_wf (JArray vs) = json_wf_list vs"
| "json_wf JNull = True"
| "json_wf (JBool b) = True"
| "json_wf (JNumber n) = True"
| "json_wf (JString s) = True"
| "json_wf_list [] = True"
| "json_wf_list (v # vs) = (json_wf v \<and> json_wf_list vs)"
| "json_wf_entries [] = True"
| "json_wf_entries ((k, v) # es) = (json_wf v \<and> json_wf_entries es)"

lemma map_of_normalize_entries:
  "map_of (normalize_json_entries es) k = map_option normalize_json_value (map_of es k)"
  by (induction es) auto

lemma keys_normalize_entries: "map fst (normalize_json_entries es) = map fst es"
  by (induction es) auto

lemma json_wf_entries_map_of: "json_wf_entries es \<Longrightarrow> map_of es k = Some v \<Longrightarrow> json_wf v"
  by (induction es) (auto split: if_splits)

lemma json_number_eq_iff: "json_number_eq a b \<Longrightarrow> a = b"
  by (cases a; cases b) (simp_all add: f64_eq_def)

lemma bm_ext: "bm_wf m \<Longrightarrow> bm_wf m' \<Longrightarrow> (\<And>k. bm_get m k = bm_get m' k) \<Longrightarrow> m = m'"
proof -
  assume wf: "bm_wf m" "bm_wf m'" and eq: "\<And>k. bm_get m k = bm_get m' k"
  have "p \<in> set m \<longleftrightarrow> p \<in> set m'" for p
    using bm_get_Some_iff [OF wf(1), of "fst p" "snd p"] bm_get_Some_iff [OF wf(2), of "fst p" "snd p"] eq [of "fst p"]
    by simp
  then have "set m = set m'" by blast
  then show "m = m'"
    using wf by (intro map_sorted_distinct_set_unique [of fst]) (auto simp: bm_wf_def distinct_map)
qed

lemma bm_get_of_list: "distinct (map fst ps) \<Longrightarrow> bm_get (bm_of_list ps) k = map_of ps k"
proof -
  have "distinct (map fst ps) \<Longrightarrow>
      bm_get (fold (\<lambda>(k, v). bm_insert k v) ps m) k = (case map_of ps k of None \<Rightarrow> bm_get m k | Some v \<Rightarrow> Some v)" for m
    by (induction ps arbitrary: m)
      (auto simp: bm_get_insert map_of_eq_None_iff split: option.splits dest: map_of_SomeD intro: rev_image_eqI)
  then show "distinct (map fst ps) \<Longrightarrow> bm_get (bm_of_list ps) k = map_of ps k"
    by (simp add: bm_of_list_def bm_get_empty split: option.split)
qed

lemma object_normal_form:
  assumes "distinct (map fst a)" and "distinct (map fst b)" and "length a = length b"
    and sub: "\<And>k v. (k, v) \<in> set a \<Longrightarrow> map_of (normalize_json_entries b) k = Some (normalize_json_value v)"
  shows "bm_of_list (normalize_json_entries a) = bm_of_list (normalize_json_entries b)"
proof (rule bm_ext)
  have "fst ` set a \<subseteq> fst ` set b"
  proof
    fix k assume "k \<in> fst ` set a"
    then obtain v where "(k, v) \<in> set a" by auto
    from sub [OF this] have "map_of b k \<noteq> None" by (auto simp: map_of_normalize_entries)
    then show "k \<in> fst ` set b" by (simp add: map_of_eq_None_iff)
  qed
  moreover have "card (fst ` set a) = card (fst ` set b)"
    using assms(1-3) by (metis distinct_card length_map list.set_map)
  ultimately have keys: "fst ` set a = fst ` set b" by (simp add: card_subset_eq)
  fix k
  have "map_of (normalize_json_entries a) k = map_of (normalize_json_entries b) k"
  proof (cases "map_of a k")
    case None
    then have "map_of b k = None" using keys by (simp add: map_of_eq_None_iff)
    with None show ?thesis by (simp add: map_of_normalize_entries)
  next
    case (Some v)
    from sub [OF map_of_SomeD [OF this]] Some show ?thesis by (auto simp: map_of_normalize_entries)
  qed
  then show "bm_get (bm_of_list (normalize_json_entries a)) k = bm_get (bm_of_list (normalize_json_entries b)) k"
    using assms(1,2) by (simp add: bm_get_of_list keys_normalize_entries)
qed (rule bm_wf_of_list)+

lemma json_eq_normal:
  "json_eq v w \<Longrightarrow> json_wf v \<Longrightarrow> json_wf w \<Longrightarrow> normalize_json_value v = normalize_json_value w"
  "json_eq_list vs ws \<Longrightarrow> json_wf_list vs \<Longrightarrow> json_wf_list ws \<Longrightarrow> normalize_json_list vs = normalize_json_list ws"
  "json_sub_object a b \<Longrightarrow> json_wf_entries a \<Longrightarrow> json_wf_entries b \<Longrightarrow> (k, x) \<in> set a \<Longrightarrow>
     map_of (normalize_json_entries b) k = Some (normalize_json_value x)"
proof (induction v w and vs ws and a b arbitrary: and and k x rule: json_eq_json_eq_list_json_sub_object.induct)
  case (6 a b)
  then show ?case by (simp add: object_normal_form)
next
  case (12 key v a b)
  then show ?case
    by (auto simp: map_of_normalize_entries split: option.splits dest: json_wf_entries_map_of)
qed (auto dest: json_number_eq_iff)

lemma set_bm_of_list: "set (bm_of_list ps) \<subseteq> set ps"
proof -
  have "set (fold (\<lambda>(k, v). bm_insert k v) ps m) \<subseteq> set m \<union> set ps" for m
    by (induction ps arbitrary: m) (fastforce simp: bm_insert_def bm_remove_def set_insort_key split: prod.splits)+
  from this [of "[]"] show ?thesis by (simp add: bm_of_list_def)
qed

lemma normalize_entries_id: "\<forall>p \<in> set es. normalize_json_value (snd p) = snd p \<Longrightarrow> normalize_json_entries es = es"
  by (induction es) auto

lemma normalize_json_idem:
  "normalize_json_value (normalize_json_value v) = normalize_json_value v"
  "normalize_json_list (normalize_json_list vs) = normalize_json_list vs"
  "\<forall>p \<in> set (normalize_json_entries es). normalize_json_value (snd p) = snd p"
proof (induction v and vs and es rule: normalize_json_value_normalize_json_list_normalize_json_entries.induct)
  case (1 entries)
  have "normalize_json_entries (bm_of_list (normalize_json_entries entries)) = bm_of_list (normalize_json_entries entries)"
    using 1 set_bm_of_list by (intro normalize_entries_id) blast
  then show ?case by (simp add: bm_of_list_id bm_wf_of_list)
qed auto

section \<open>Order of nodes, edges and lists\<close>

lemma sort_key_order:
  assumes "mset xs = mset ys" and "distinct (map f xs)"
  shows "sort_key f xs = sort_key f ys"
  using assms by (intro sort_key_inj_key_eq) (auto simp: distinct_map)

lemma distinct_remdups_adj_sorted: "sorted xs \<Longrightarrow> distinct (remdups_adj xs)"
  for xs :: "'a::linorder list"
  by (induction xs rule: remdups_adj.induct) auto

lemma normalize_string_list_set:
  "normalize_string_list values = sorted_list_of_set (normalize_pattern ` set values)"
proof -
  have "sorted (normalize_string_list values)" "distinct (normalize_string_list values)"
    "set (normalize_string_list values) = normalize_pattern ` set values"
    by (simp_all add: normalize_string_list_def remdups_adj_set distinct_remdups_adj_sorted sorted_remdups_adj)
  then show ?thesis by (metis sorted_list_of_set.idem_if_sorted_distinct)
qed

text \<open>A string that keeps its leading blank: the normal form is taken once more and changes.\<close>

lemma trim_blank: "trim '' a'' = ''a''"
proof -
  have "strip_one ws_seqs '' a'' = Some ''a''" by (simp add: strip_one_def ws_seqs_def upt_conv_Cons char_of_def bit_0)
  then have "trim_start '' a'' = trim_by ws_seqs ''a''" unfolding trim_start_def by (subst trim_by.simps) simp
  also have "\<dots> = ''a''" using ws_not_printable by (intro trim_by_printable) (auto simp: list_all_iff printable_def)
  finally have "trim_start '' a'' = ''a''" .
  moreover have "trim_end ''a'' = ''a''"
    using trim_by_printable [of "map rev ws_seqs" "CHR ''a''" "[]"] ws_not_printable
    by (simp add: trim_end_def list_all_iff hd_rev printable_def)
  ultimately show ?thesis by (simp add: trim_def)
qed

lemma normalize_pattern_not_idempotent:
  "normalize_pattern ''./ a'' = '' a''" "normalize_pattern '' a'' = ''a''"
proof -
  have backslash: "char_of (92 :: nat) = CHR 0x5C" by (simp add: char_of_def bit_0)
  show "normalize_pattern ''./ a'' = '' a''" "normalize_pattern '' a'' = ''a''"
    unfolding normalize_pattern_def backslash trim_blank
    by (simp_all add: trim_printable printable_def replace_char_def trim_start_matches.simps collapse_slashes_id)
qed

section \<open>Properties\<close>

text \<open>
  C40. The normal form of a graph, and with it the hash that approvals and the store use, does not
  depend on the order in which the specification lists its nodes and edges, as long as node ids
  and the keys of edges are unambiguous.
\<close>

theorem normal_form_order_independent:
  assumes "mset nodes = mset (sb_nodes (gs_spec spec))" and "distinct (map ns_id nodes)"
    and "mset edges = mset (sb_edges (gs_spec spec))" and "distinct (map edge_sort_key edges)"
  shows "normalize_graph_spec env (spec\<lparr>gs_spec := (gs_spec spec)\<lparr>sb_nodes := nodes, sb_edges := edges\<rparr>\<rparr>) =
      normalize_graph_spec env spec \<and>
    canonical_graph_hash env (spec\<lparr>gs_spec := (gs_spec spec)\<lparr>sb_nodes := nodes, sb_edges := edges\<rparr>\<rparr>) =
      canonical_graph_hash env spec"
proof -
  have "normalize_spec env (spec\<lparr>gs_spec := (gs_spec spec)\<lparr>sb_nodes := nodes, sb_edges := edges\<rparr>\<rparr>) =
      normalize_spec env spec"
    by (simp add: normalize_spec_def sort_key_order [OF assms(1,2)] sort_key_order [OF assms(3,4)])
  then show ?thesis by (simp add: normalize_graph_spec_def canonical_graph_hash_def)
qed

definition plain_norm_env :: norm_env where
  "plain_norm_env =
     \<lparr>ne_to_vec = (\<lambda>spec. Ok (concat (map ns_id (sb_nodes (gs_spec spec))))), ne_sha256 = id,
      ne_predicate_json = (\<lambda>_. None), ne_predicate_debug = (\<lambda>_. []), ne_debug_str = id\<rparr>"

theorem normal_form_order_independent_witness:
  "canonical_graph_hash plain_norm_env (minimal_graph [minimal_node ''b'' NK_Agent ''x'', minimal_node ''a'' NK_Agent ''y''] []) =
   canonical_graph_hash plain_norm_env (minimal_graph [minimal_node ''a'' NK_Agent ''y'', minimal_node ''b'' NK_Agent ''x''] [])"
  using normal_form_order_independent [of "[minimal_node ''b'' NK_Agent ''x'', minimal_node ''a'' NK_Agent ''y'']"
      "minimal_graph [minimal_node ''a'' NK_Agent ''y'', minimal_node ''b'' NK_Agent ''x''] []" "[]" plain_norm_env]
  by (simp add: minimal_graph_def minimal_node_def add_mset_commute)

text \<open>
  Schemas that are equal as JSON values, whatever the order of the entries of their objects,
  have the same normal form, and taking the normal form again changes nothing.
\<close>

lemma equal_json_same_normal_form:
  assumes "json_wf v" and "json_wf w" and "json_eq v w"
  shows "normalize_json_value v = normalize_json_value w \<and>
    normalize_json_value (normalize_json_value v) = normalize_json_value v"
  using json_eq_normal(1) [OF assms(3,1,2)] normalize_json_idem(1) by blast

end
