(* ===== verification/Validation.thy ===== *)
theory Validation
  imports Normalization Topology Predicate_Eval Resources Loop_Controller Retry
begin

text \<open>
  Validation of graph specifications, \<^verbatim>\<open>agent_graph/validation.rs\<close>: the header, ids, limits,
  budgets, execution policy, every node with its references, predicates, loop and map bounds,
  retries, authority, paths and resources, the edges with their joins, write conflicts, the
  topology and the lint warnings. A function of the code that pushes errors on a vector is the
  function that returns the errors it pushes, in order; \<open>validate_graph_spec\<close> concatenates them.

  The lemmas say what a valid graph is good for: its nodes can be ordered, its predicates evaluate
  without error, its loops and retries are bounded, its nodes stay within their authority, its
  paths stay in the repository, and acquiring the resources of a node fails only by contention.
\<close>

section \<open>Data\<close>

record validation_options =
  vo_parent_capability_ceiling :: capability_mode
  vo_available_tools :: "tool_name bset option"
  vo_parent_tool_allowlist :: "tool_name bset option"
  vo_allowed_roots :: "string list"
  vo_plan_mode :: bool
  vo_require_exact_ready_agents :: "u32 option"
  vo_max_total_nodes :: "u32 option"
  vo_max_dynamic_nodes :: "u32 option"

definition default_validation_options :: validation_options where
  "default_validation_options =
     \<lparr>vo_parent_capability_ceiling = CM_ExternalEffect, vo_available_tools = None,
      vo_parent_tool_allowlist = None, vo_allowed_roots = [], vo_plan_mode = False,
      vo_require_exact_ready_agents = None, vo_max_total_nodes = None, vo_max_dynamic_nodes = None\<rparr>"

record exact_ready_report =
  xr_required_ready_agents :: u32
  xr_actual_ready_agents :: u32

datatype validation_severity = VS_Error | VS_Warning

record validation_warning =
  vw_code :: string
  vw_message :: string
  vw_node_id :: "node_id option"

datatype validation_error =
    VE_UnsupportedApiVersion string
  | VE_UnsupportedKind string
  | VE_UnsupportedSchemaVersion u32
  | VE_InvalidId string string string
  | VE_DuplicateNode node_id
  | VE_DuplicateEdge string
  | VE_MissingNodeReference node_id node_id
  | VE_MissingEdgeNodeReference string node_id
  | VE_MissingInputProducer node_id string node_id
  | VE_MissingSchemaReference node_id string
  | VE_MissingTemplateReference node_id string
  | VE_MissingModelSelector node_id string
  | VE_MissingCredentialReference node_id string
  | VE_MissingResourceReference node_id string
  | VE_DataEdgeWithoutBinding string
  | VE_Cycle "node_id list"
  | VE_InvalidPredicate node_id string
  | VE_InvalidJsonPath node_id string string
  | VE_UnboundedLoop node_id string
  | VE_UnboundedMap node_id
  | VE_NonDeterministicMapIds node_id
  | VE_InvalidJoin string string
  | VE_UnboundedRetry node_id
  | VE_NonIdempotentRetryNeedsCompensation node_id
  | VE_CapabilityWidening node_id capability_mode capability_mode
  | VE_PlanModeWriter node_id
  | VE_UnavailableTool node_id string
  | VE_ToolWidening node_id string
  | VE_NestedOrchestrationTool node_id string
  | VE_WorkerIsolationDisabled string
  | VE_InvalidPath node_id string string
  | VE_WriteSetConflict node_id node_id string
  | VE_ResourceLimitExceeded node_id string u32 u32
  | VE_InvalidBudget string
  | VE_DynamicExpansionTooLarge u32 u32
  | VE_GraphTooLarge u32 u32
  | VE_ExactReadyMismatch u32 u32
  | VE_NormalizationFailed string

record validation_report =
  vp_errors :: "validation_error list"
  vp_warnings :: "validation_warning list"
  vp_normalized_hash :: "string option"
  vp_topology :: "topology_report option"
  vp_exact_ready :: "exact_ready_report option"

definition report_is_valid :: "validation_report \<Rightarrow> bool" where
  "report_is_valid report \<longleftrightarrow> vp_errors report = []"

text \<open>Pushing an error under a condition, and the text of the errors of predicates.\<close>

definition push_if :: "bool \<Rightarrow> 'e \<Rightarrow> 'e list" where
  "push_if c e = (if c then [e] else [])"

fun predicate_error_display :: "predicate_error \<Rightarrow> string" where
  "predicate_error_display (Invalid_Json_Path path reason) =
     ''invalid json path `'' @ path @ ''`: '' @ reason"
| "predicate_error_display (Empty_Compound operator) =
     ''compound predicate `'' @ operator @ ''` must contain at least one child''"
| "predicate_error_display (Predicate_Unknown_Node nid) =
     ''predicate references unknown node `'' @ nid @ ''`''"
| "predicate_error_display Invalid_Success_Count =
     ''success count predicate must require at least one success''"
| "predicate_error_display Empty_Node_Set = ''success count predicate must include at least one node''"
| "predicate_error_display Empty_In_Set = ''in predicate must include at least one value''"

section \<open>Header, ids and limits\<close>

definition is_id_char :: "char \<Rightarrow> bool" where
  "is_id_char ch \<longleftrightarrow> is_ascii_alphanumeric ch \<or> ch = CHR ''-'' \<or> ch = CHR ''_'' \<or> ch = CHR ''.''"

definition validate_id :: "string \<Rightarrow> string \<Rightarrow> validation_error list" where
  "validate_id field0 i =
     (if i = [] then [VE_InvalidId field0 i ''id cannot be empty'']
      else if \<not> is_ascii_alphanumeric (hd i) then
        [VE_InvalidId field0 i ''id must start with an ASCII letter or number'']
      else push_if (\<not> list_all is_id_char i)
        (VE_InvalidId field0 i
           ''id can contain only ASCII letters, numbers, dots, dashes, and underscores''))"

definition validate_header :: "graph_spec \<Rightarrow> validation_error list" where
  "validate_header spec =
     push_if (gs_api_version spec \<noteq> AGENTGRAPH_API_VERSION) (VE_UnsupportedApiVersion (gs_api_version spec))
     @ push_if (gs_kind spec \<noteq> AGENTGRAPH_KIND) (VE_UnsupportedKind (gs_kind spec))
     @ push_if (gs_schema_version spec \<noteq> AGENTGRAPH_SCHEMA_VERSION)
         (VE_UnsupportedSchemaVersion (gs_schema_version spec))
     @ validate_id ''metadata.name'' (gm_name (gs_metadata spec))"

fun index_nodes :: "node_spec list \<Rightarrow> node_map \<Rightarrow> validation_error list \<times> node_map" where
  "index_nodes [] node_index = ([], node_index)"
| "index_nodes (node # nodes) node_index =
     (case index_nodes nodes (bm_insert (ns_id node) node node_index) of
        (errors, final) \<Rightarrow>
          (validate_id ''node.id'' (ns_id node)
           @ push_if (bm_contains node_index (ns_id node)) (VE_DuplicateNode (ns_id node)) @ errors, final))"

definition validate_node_ids :: "graph_spec \<Rightarrow> validation_error list \<times> node_map" where
  "validate_node_ids spec = index_nodes (sb_nodes (gs_spec spec)) []"

fun check_edge_ids :: "edge_spec list \<Rightarrow> edge_id bset \<Rightarrow> validation_error list" where
  "check_edge_ids [] ids = []"
| "check_edge_ids (edge # edges) ids =
     (case es_id edge of None \<Rightarrow> [] | Some i \<Rightarrow> validate_id ''edge.id'' i)
     @ push_if (stable_id edge \<in> set ids) (VE_DuplicateEdge (stable_id edge))
     @ check_edge_ids edges (bs_insert (stable_id edge) ids)"

definition validate_edge_ids :: "graph_spec \<Rightarrow> validation_error list" where
  "validate_edge_ids spec = check_edge_ids (sb_edges (gs_spec spec)) []"

definition dynamic_node_count :: "graph_spec \<Rightarrow> u32" where
  "dynamic_node_count spec =
     sum_list (List.map_filter (\<lambda>m. opt_or (ms_expected_instances m) (ms_max_generated_instances m))
       (List.map_filter ns_map (sb_nodes (gs_spec spec))))"

definition validate_graph_limits :: "graph_spec \<Rightarrow> validation_options \<Rightarrow> validation_error list" where
  "validate_graph_limits spec options =
     (let node_count = of_nat (length (sb_nodes (gs_spec spec))) :: u32;
          spec_limit = ep_max_total_nodes (sb_execution (gs_spec spec));
          dynamic_nodes = dynamic_node_count spec
      in push_if (spec_limit < node_count) (VE_GraphTooLarge node_count spec_limit)
         @ (case vo_max_total_nodes options of
              None \<Rightarrow> []
            | Some l \<Rightarrow> push_if (l < node_count) (VE_GraphTooLarge node_count l))
         @ (case vo_max_dynamic_nodes options of
              None \<Rightarrow> []
            | Some l \<Rightarrow> push_if (l < dynamic_nodes) (VE_DynamicExpansionTooLarge dynamic_nodes l)))"

definition validate_budgets :: "graph_spec \<Rightarrow> validation_error list" where
  "validate_budgets spec =
     (let budgets = sb_budgets (gs_spec spec)
      in push_if (gb_max_wall_time_seconds budgets = Some 0) (VE_InvalidBudget ''maxWallTimeSeconds'')
         @ push_if (gb_max_input_tokens budgets = Some 0) (VE_InvalidBudget ''maxInputTokens'')
         @ push_if (gb_max_output_tokens budgets = Some 0) (VE_InvalidBudget ''maxOutputTokens'')
         @ push_if (is_some_and (gb_max_estimated_cost_usd budgets) (\<lambda>cost. f64_le cost (Fin 0)))
             (VE_InvalidBudget ''maxEstimatedCostUsd''))"

definition validate_execution_policy :: "graph_spec \<Rightarrow> node_map \<Rightarrow> validation_error list" where
  "validate_execution_policy spec node_index =
     (let has_worker = list_ex is_model_worker (bm_values node_index);
          execution = sb_execution (gs_spec spec)
      in push_if (1 < ep_max_depth execution) (VE_WorkerIsolationDisabled ''maxDepth<=1'')
         @ push_if (has_worker \<and> \<not> ep_disable_nested_bandicot_agents execution)
             (VE_WorkerIsolationDisabled ''disableNestedBandicotAgents'')
         @ push_if (has_worker \<and> \<not> ep_disable_provider_multi_agent_for_workers execution)
             (VE_WorkerIsolationDisabled ''disableProviderMultiAgentForWorkers'')
         @ push_if (ep_orchestration_policy execution = OM_Swarm \<and> 100 < ep_max_active_model_calls execution)
             (VE_InvalidBudget ''maxActiveModelCalls''))"

section \<open>Nodes\<close>

definition validate_schema_ref :: "graph_spec \<Rightarrow> node_spec \<Rightarrow> string \<Rightarrow> validation_error list" where
  "validate_schema_ref spec node schema_ref =
     push_if (\<not> bm_contains (sb_schemas (gs_spec spec)) schema_ref)
       (VE_MissingSchemaReference (ns_id node) schema_ref)"

definition optional_schema_ref :: "graph_spec \<Rightarrow> node_spec \<Rightarrow> string option \<Rightarrow> validation_error list" where
  "optional_schema_ref spec node schema_ref =
     (case schema_ref of None \<Rightarrow> [] | Some r \<Rightarrow> validate_schema_ref spec node r)"

definition check_json_path :: "node_id \<Rightarrow> json_path \<Rightarrow> validation_error list" where
  "check_json_path nid path =
     (case validate_json_path path of
        Inl err \<Rightarrow> [VE_InvalidJsonPath nid path (predicate_error_display err)]
      | Inr _ \<Rightarrow> [])"

definition check_predicate :: "node_id \<Rightarrow> predicate \<Rightarrow> node_id bset \<Rightarrow> validation_error list" where
  "check_predicate nid p known_nodes =
     (case validate_predicate p known_nodes of
        Inl err \<Rightarrow> [VE_InvalidPredicate nid (predicate_error_display err)]
      | Inr _ \<Rightarrow> [])"

definition validate_node_references ::
  "graph_spec \<Rightarrow> node_spec \<Rightarrow> node_map \<Rightarrow> validation_error list" where
  "validate_node_references spec node node_index =
     concat (map (\<lambda>(input, binding).
         push_if (\<not> bm_contains node_index (ib_from_node binding))
           (VE_MissingInputProducer (ns_id node) input (ib_from_node binding))
         @ optional_schema_ref spec node (ib_schema_ref binding)
         @ check_json_path (ns_id node) (ib_path binding)) (ns_inputs node))
     @ optional_schema_ref spec node (ns_output_schema_ref node)
     @ (case ns_compensation node of
          None \<Rightarrow> []
        | Some undo \<Rightarrow> push_if (\<not> bm_contains node_index undo) (VE_MissingNodeReference (ns_id node) undo))
     @ (case ns_model_selector node of
          None \<Rightarrow> []
        | Some selector \<Rightarrow>
            push_if (sb_model_selectors (gs_spec spec) \<noteq> [] \<and> selector \<notin> set (sb_model_selectors (gs_spec spec)))
              (VE_MissingModelSelector (ns_id node) selector))
     @ concat (map (\<lambda>credential_ref.
         push_if (credential_ref \<notin> set (sb_credential_refs (gs_spec spec)))
           (VE_MissingCredentialReference (ns_id node) credential_ref)) (ns_credential_refs node))
     @ (case ns_operation node of
          None \<Rightarrow> []
        | Some template \<Rightarrow>
            push_if (starts_with template ''bundled://'' \<and> sb_templates (gs_spec spec) \<noteq> []
                \<and> template \<notin> set (sb_templates (gs_spec spec)))
              (VE_MissingTemplateReference (ns_id node) template))"

definition validate_node_predicates :: "node_spec \<Rightarrow> node_id bset \<Rightarrow> validation_error list" where
  "validate_node_predicates node known_nodes =
     concat (map (\<lambda>route. check_predicate (ns_id node) (rt_predicate route) known_nodes) (ns_routes node))
     @ push_if (ns_kind node = NK_Router \<and> ns_routes node \<noteq> [] \<and> \<not> list_ex rt_fallback (ns_routes node))
         (VE_InvalidPredicate (ns_id node) ''router routes must include an explicit fallback'')"

definition LOOP_BOUNDS :: "string list" where
  "LOOP_BOUNDS =
     [''maxIterations'', ''maxGeneratedNodes'', ''maxInputTokens'', ''maxOutputTokens'',
      ''maxWallTimeSeconds'', ''progressMetric'', ''noProgressLimit'', ''deduplicationKey'',
      ''terminalPredicate'']"

definition validate_loop :: "node_spec \<Rightarrow> node_id bset \<Rightarrow> validation_error list" where
  "validate_loop node known_nodes =
     (if ns_kind node \<noteq> NK_Loop then []
      else case ns_loop_policy node of
        None \<Rightarrow> map (VE_UnboundedLoop (ns_id node)) LOOP_BOUNDS
      | Some p \<Rightarrow>
          push_if (is_none_or (ls_max_iterations p) (\<lambda>v. v = 0)) (VE_UnboundedLoop (ns_id node) ''maxIterations'')
          @ push_if (is_none_or (ls_max_generated_nodes p) (\<lambda>v. v = 0))
              (VE_UnboundedLoop (ns_id node) ''maxGeneratedNodes'')
          @ push_if (is_none_or (ls_max_input_tokens p) (\<lambda>v. v = 0))
              (VE_UnboundedLoop (ns_id node) ''maxInputTokens'')
          @ push_if (is_none_or (ls_max_output_tokens p) (\<lambda>v. v = 0))
              (VE_UnboundedLoop (ns_id node) ''maxOutputTokens'')
          @ push_if (is_none_or (ls_max_wall_time_seconds p) (\<lambda>v. v = 0))
              (VE_UnboundedLoop (ns_id node) ''maxWallTimeSeconds'')
          @ push_if (unwrap_or (ls_progress_metric p) [] = []) (VE_UnboundedLoop (ns_id node) ''progressMetric'')
          @ push_if (is_none_or (ls_no_progress_limit p) (\<lambda>v. v = 0))
              (VE_UnboundedLoop (ns_id node) ''noProgressLimit'')
          @ push_if (unwrap_or (ls_deduplication_key p) [] = [])
              (VE_UnboundedLoop (ns_id node) ''deduplicationKey'')
          @ (case ls_terminal_predicate p of
               Some q \<Rightarrow> check_predicate (ns_id node) q known_nodes
             | None \<Rightarrow> [VE_UnboundedLoop (ns_id node) ''terminalPredicate'']))"

definition validate_map :: "node_spec \<Rightarrow> graph_spec \<Rightarrow> node_map \<Rightarrow> validation_error list" where
  "validate_map node spec node_index =
     (if ns_kind node \<noteq> NK_MapAgent then []
      else case ns_map node of
        None \<Rightarrow> [VE_UnboundedMap (ns_id node)]
      | Some m \<Rightarrow>
          push_if (\<not> bm_contains node_index (ms_from_node m)) (VE_MissingNodeReference (ns_id node) (ms_from_node m))
          @ check_json_path (ns_id node) (ms_path m)
          @ push_if (is_none_or (opt_or (ms_expected_instances m) (ms_max_generated_instances m)) (\<lambda>b. b = 0))
              (VE_UnboundedMap (ns_id node))
          @ push_if (\<not> ms_deterministic_instance_ids m) (VE_NonDeterministicMapIds (ns_id node))
          @ (case ms_item_schema_ref m of
               Some r \<Rightarrow> validate_schema_ref spec node r
             | None \<Rightarrow> [VE_MissingSchemaReference (ns_id node) ''<map.itemSchemaRef>''])
          @ optional_schema_ref spec node (ms_output_schema_ref m))"

definition validate_retry :: "node_spec \<Rightarrow> validation_error list" where
  "validate_retry node =
     (let attempts = rp_max_attempts (ns_retry_policy node);
          has_side_effect = ns_external_effects node \<noteq> [] \<or> ns_write_set node \<noteq> []
            \<or> ns_idempotency_policy node = IP_NonIdempotent
      in push_if (attempts = 0 \<or> 10 < attempts) (VE_UnboundedRetry (ns_id node))
         @ push_if (has_side_effect \<and> ns_idempotency_policy node = IP_NonIdempotent \<and> 1 < attempts
             \<and> ns_compensation node = None \<and> ns_failure_policy node \<noteq> FP_Compensate)
             (VE_NonIdempotentRetryNeedsCompensation (ns_id node)))"

definition nested_tool_names :: "tool_name list" where
  "nested_tool_names =
     [''task'', ''spawn_agent'', ''agent'', ''subagent'', ''graph'', ''/graph'', ''swarm'', ''/swarm'',
      ''provider_multi_agent'', ''hosted_multi_agent'']"

definition validation_nested_tool :: "tool_name \<Rightarrow> bool" where
  "validation_nested_tool tool \<longleftrightarrow> to_ascii_lowercase tool \<in> set nested_tool_names"

definition validate_authority ::
  "graph_spec \<Rightarrow> validation_options \<Rightarrow> node_spec \<Rightarrow> validation_error list" where
  "validate_authority spec options node =
     (let capability = effective_capability node (sb_defaults (gs_spec spec))
      in push_if (vo_parent_capability_ceiling options < capability)
           (VE_CapabilityWidening (ns_id node) capability (vo_parent_capability_ceiling options))
         @ push_if (vo_plan_mode options \<and> CM_ReadOnly < capability) (VE_PlanModeWriter (ns_id node))
         @ concat (map (\<lambda>tool.
             (case vo_available_tools options of
                None \<Rightarrow> []
              | Some available \<Rightarrow> push_if (tool \<notin> set available) (VE_UnavailableTool (ns_id node) tool))
             @ (case vo_parent_tool_allowlist options of
                  None \<Rightarrow> []
                | Some allowlist \<Rightarrow> push_if (tool \<notin> set allowlist) (VE_ToolWidening (ns_id node) tool))
             @ push_if (is_model_worker node \<and> validation_nested_tool tool)
                 (VE_NestedOrchestrationTool (ns_id node) tool)) (ns_tool_allowlist node))
         @ push_if (np_mode (ns_network_policy node) = NM_Unrestricted \<and> capability < CM_ExternalEffect)
             (VE_CapabilityWidening (ns_id node) CM_ExternalEffect capability))"

definition validate_path_pattern :: "string \<Rightarrow> string list \<Rightarrow> (string, unit) result" where
  "validate_path_pattern path allowed_roots =
     (let normalized = replace_char (CHR 0x5C) CHR ''/'' (trim path)
      in if normalized = [] then Err ''path cannot be empty''
         else if CHR 0x00 \<in> set normalized then Err ''path contains a NUL byte''
         else if starts_with normalized ''/'' \<or> starts_with normalized ''~/'' \<or> normalized = ''~''
         then Err ''path must be repository-relative''
         else if str_contains normalized ''://'' \<or> starts_with normalized ''$''
         then Err ''path must not be a URL or environment expansion''
         else if ''..'' \<in> set (split_char CHR ''/'' normalized) then Err ''path traversal is not allowed''
         else if allowed_roots \<noteq> [] \<and>
           \<not> list_ex (\<lambda>root0. let root = trim_matches CHR ''/'' root0;
                                without_dot = trim_start_matches ''./'' normalized
                            in without_dot = root \<or> starts_with without_dot (root @ ''/'')) allowed_roots
         then Err ''path is outside allowed roots''
         else Ok ())"

definition check_path :: "node_id \<Rightarrow> string list \<Rightarrow> string \<Rightarrow> validation_error list" where
  "check_path nid allowed_roots path =
     (case validate_path_pattern path allowed_roots of
        Inl reason \<Rightarrow> [VE_InvalidPath nid path reason]
      | Inr _ \<Rightarrow> [])"

definition validate_paths :: "node_spec \<Rightarrow> validation_options \<Rightarrow> validation_error list" where
  "validate_paths node options =
     concat (map (check_path (ns_id node) (vo_allowed_roots options)) (ns_read_set node @ ns_write_set node))"

definition check_claim :: "graph_spec \<Rightarrow> node_spec \<Rightarrow> resource_claim \<Rightarrow> validation_error list" where
  "check_claim spec node claim =
     (case bm_get (sb_resources (gs_spec spec)) (rc_resource claim) of
        None \<Rightarrow> [VE_MissingResourceReference (ns_id node) (rc_resource claim)]
      | Some d \<Rightarrow>
          push_if (rc_amount claim = 0 \<or> rd_limit d < rc_amount claim)
            (VE_ResourceLimitExceeded (ns_id node) (rc_resource claim) (rc_amount claim) (rd_limit d))
          @ push_if (rd_kind d = RK_ExclusiveLock \<and> rc_amount claim \<noteq> 1)
              (VE_ResourceLimitExceeded (ns_id node) (rc_resource claim) (rc_amount claim) 1))"

definition validate_resources :: "graph_spec \<Rightarrow> node_spec \<Rightarrow> validation_error list" where
  "validate_resources spec node = concat (map (check_claim spec node) (ns_resource_claims node))"

definition validate_node_contract :: "node_spec \<Rightarrow> validation_warning list" where
  "validate_node_contract node =
     push_if (is_model_worker node \<and> trim (ns_objective node) = [])
       \<lparr>vw_code = ''missing-objective'', vw_message = ''model worker should have a bounded objective'',
        vw_node_id = Some (ns_id node)\<rparr>
     @ push_if (ns_cache_policy node = CP_ReadWrite \<and> ns_write_set node = [])
         \<lparr>vw_code = ''cache-without-write-set'',
          vw_message = ''read-write cache nodes should declare write scope'', vw_node_id = Some (ns_id node)\<rparr>"

definition validate_node ::
  "graph_spec \<Rightarrow> validation_options \<Rightarrow> node_map \<Rightarrow> node_spec \<Rightarrow> validation_error list" where
  "validate_node spec options node_index node =
     validate_node_references spec node node_index
     @ validate_node_predicates node (bm_keys node_index)
     @ validate_loop node (bm_keys node_index)
     @ validate_map node spec node_index
     @ validate_retry node
     @ validate_authority spec options node
     @ validate_paths node options
     @ validate_resources spec node"

definition validate_nodes ::
  "graph_spec \<Rightarrow> validation_options \<Rightarrow> node_map \<Rightarrow> validation_error list \<times> validation_warning list" where
  "validate_nodes spec options node_index =
     (concat (map (validate_node spec options node_index) (sb_nodes (gs_spec spec))),
      concat (map validate_node_contract (sb_nodes (gs_spec spec))))"

section \<open>Edges, joins and write conflicts\<close>

text \<open>Collecting the nodes into the map keeps the last node of an id.\<close>

definition upstream_width_for_target :: "graph_spec \<Rightarrow> node_id \<Rightarrow> u32" where
  "upstream_width_for_target spec target =
     (let node_index = bm_of_list (map (\<lambda>node. (ns_id node, node)) (sb_nodes (gs_spec spec)))
      in sum_list (map expected_instance_count
           (List.map_filter (\<lambda>edge. bm_get node_index (es_from edge))
             (filter (\<lambda>edge. es_to edge = target) (sb_edges (gs_spec spec))))))"

definition validate_join :: "graph_spec \<Rightarrow> node_id \<Rightarrow> edge_id \<Rightarrow> join_spec \<Rightarrow> validation_error list" where
  "validate_join spec target edge_id join =
     (let upstream_width = upstream_width_for_target spec target
      in if js_policy join \<in> {JP_Quorum, JP_MinimumSuccess} then
           (case js_required join of
              None \<Rightarrow> [VE_InvalidJoin edge_id ''required count is missing'']
            | Some required \<Rightarrow>
                push_if (required = 0) (VE_InvalidJoin edge_id ''required count must be greater than zero'')
                @ push_if (0 < upstream_width \<and> upstream_width < required)
                    (VE_InvalidJoin edge_id
                       (''required count '' @ dec (unat required) @ '' exceeds upstream width ''
                        @ dec (unat upstream_width))))
         else [])"

definition validate_edge :: "graph_spec \<Rightarrow> node_map \<Rightarrow> edge_spec \<Rightarrow> validation_error list" where
  "validate_edge spec node_index edge =
     push_if (\<not> bm_contains node_index (es_from edge))
       (VE_MissingEdgeNodeReference (stable_id edge) (es_from edge))
     @ push_if (\<not> bm_contains node_index (es_to edge))
         (VE_MissingEdgeNodeReference (stable_id edge) (es_to edge))
     @ push_if (es_kind edge = EK_Data \<and> es_bindings edge = [] \<and>
           \<not> is_some_and (bm_get node_index (es_to edge))
               (\<lambda>node. list_ex (\<lambda>input. ib_from_node input = es_from edge) (bm_values (ns_inputs node))))
         (VE_DataEdgeWithoutBinding (stable_id edge))
     @ concat (map (\<lambda>binding.
         (case eb_schema_ref binding of
            None \<Rightarrow> []
          | Some r \<Rightarrow> push_if (\<not> bm_contains (sb_schemas (gs_spec spec)) r) (VE_MissingSchemaReference (es_to edge) r))
         @ check_json_path (es_to edge) (eb_path binding)) (es_bindings edge))
     @ (case es_join edge of None \<Rightarrow> [] | Some join \<Rightarrow> validate_join spec (es_to edge) (stable_id edge) join)
     @ (case es_condition edge of
          None \<Rightarrow> []
        | Some condition \<Rightarrow> check_predicate (es_to edge) condition (bm_keys node_index))"

definition validate_edges :: "graph_spec \<Rightarrow> node_map \<Rightarrow> validation_error list" where
  "validate_edges spec node_index = concat (map (validate_edge spec node_index) (sb_edges (gs_spec spec)))"

definition write_prefix :: "string \<Rightarrow> string" where
  "write_prefix path =
     trim_end_matches ''/'' (trim_end_matches ''/*'' (trim_end_matches ''/**''
       (trim_start_matches ''./'' (trim path))))"

definition validation_patterns_overlap :: "string \<Rightarrow> string \<Rightarrow> bool" where
  "validation_patterns_overlap left0 right0 =
     (let left = write_prefix left0; right = write_prefix right0
      in left = right \<or> starts_with left (right @ ''/'') \<or> starts_with right (left @ ''/''))"

definition pair_conflicts :: "node_spec \<Rightarrow> node_spec \<Rightarrow> validation_error list" where
  "pair_conflicts left right =
     concat (map (\<lambda>left_path. concat (map (\<lambda>right_path.
       push_if (validation_patterns_overlap left_path right_path)
         (VE_WriteSetConflict (ns_id left) (ns_id right) (left_path @ '' <-> '' @ right_path)))
       (ns_write_set right))) (ns_write_set left))"

fun write_conflicts :: "node_spec list \<Rightarrow> validation_error list" where
  "write_conflicts [] = []"
| "write_conflicts (left # writers) = concat (map (pair_conflicts left) writers) @ write_conflicts writers"

definition validate_write_conflicts :: "graph_spec \<Rightarrow> validation_error list" where
  "validate_write_conflicts spec =
     write_conflicts (filter (\<lambda>node.
       effective_capability node (sb_defaults (gs_spec spec)) = CM_UnisolatedWrite \<and> ns_write_set node \<noteq> [])
       (sb_nodes (gs_spec spec)))"

definition validate_exact_ready :: "topology_report \<Rightarrow> validation_options \<Rightarrow> validation_error list" where
  "validate_exact_ready topology options =
     (case vo_require_exact_ready_agents options of
        None \<Rightarrow> []
      | Some required \<Rightarrow>
          let actual = tp_initial_ready_agent_width topology
          in push_if (actual \<noteq> required) (VE_ExactReadyMismatch required actual))"

section \<open>Lint\<close>

definition lint_node :: "graph_spec \<Rightarrow> node_spec \<Rightarrow> validation_warning list" where
  "lint_node spec node =
     push_if (is_model_worker node \<and> ns_output_schema node = None \<and> ns_output_schema_ref node = None)
       \<lparr>vw_code = ''weak-output-schema'', vw_message = ''model worker should declare an output schema'',
        vw_node_id = Some (ns_id node)\<rparr>
     @ push_if (is_model_worker node \<and> ns_evidence_requirements node = [])
         \<lparr>vw_code = ''missing-evidence-requirements'',
          vw_message = ''model worker should declare evidence requirements'', vw_node_id = Some (ns_id node)\<rparr>
     @ push_if (word_count (ns_objective node) \<le> 3 \<and> is_model_worker node)
         \<lparr>vw_code = ''small-agent-node'', vw_message = ''agent node objective is very small'',
          vw_node_id = Some (ns_id node)\<rparr>
     @ push_if (ns_kind node = NK_Barrier \<and>
           (length (filter (\<lambda>edge. es_to edge = ns_id node) (sb_edges (gs_spec spec))) \<le> 1 \<or>
            length (filter (\<lambda>edge. es_from edge = ns_id node) (sb_edges (gs_spec spec))) \<le> 1))
         \<lparr>vw_code = ''unnecessary-barrier'',
          vw_message = ''barrier has one or fewer inputs or outputs and may be removable'',
          vw_node_id = Some (ns_id node)\<rparr>"

definition lint_edge :: "edge_spec \<Rightarrow> validation_warning list" where
  "lint_edge edge =
     push_if (es_kind edge = EK_Control \<and> es_bindings edge = [] \<and> es_condition edge = None \<and> es_join edge = None)
       \<lparr>vw_code = ''fake-dependency-candidate'',
        vw_message = ''control-only dependency '' @ es_from edge @ '' -> '' @ es_to edge
          @ '' carries no data, condition, or join policy'',
        vw_node_id = Some (es_to edge)\<rparr>"

definition lint :: "graph_spec \<Rightarrow> topology_report option \<Rightarrow> validation_warning list" where
  "lint spec topology =
     concat (map (lint_node spec) (sb_nodes (gs_spec spec)))
     @ concat (map lint_edge (sb_edges (gs_spec spec)))
     @ (case topology of
          None \<Rightarrow> []
        | Some t \<Rightarrow>
            push_if (0 < tp_critical_path_length t \<and> tp_maximum_theoretical_width t = 1 \<and> 10 < tp_node_count t)
              \<lparr>vw_code = ''single-bottleneck-critical-path'',
               vw_message = ''graph has a long single-lane critical path'', vw_node_id = None\<rparr>)"

section \<open>The whole graph\<close>

definition topology_outcome ::
  "graph_spec \<Rightarrow> validation_options \<Rightarrow> validation_error list \<times> topology_report option" where
  "topology_outcome spec options =
     (case analyze_topology spec of
        Inr report \<Rightarrow> (validate_exact_ready report options, Some report)
      | Inl (Cycle nodes) \<Rightarrow> ([VE_Cycle nodes], None)
      | Inl (Duplicate_Node nid) \<Rightarrow> ([VE_DuplicateNode nid], None)
      | Inl (Unknown_Node nid) \<Rightarrow> ([VE_MissingEdgeNodeReference ''<implicit>'' nid], None))"

definition validate_graph_spec ::
  "norm_env \<Rightarrow> graph_spec \<Rightarrow> validation_options \<Rightarrow> validation_report" where
  "validate_graph_spec env spec options =
     (let (id_errors, node_index) = validate_node_ids spec;
          (node_errors, node_warnings) = validate_nodes spec options node_index;
          (topology_errors, topology) = topology_outcome spec options;
          hash = canonical_graph_hash env spec
      in \<lparr>vp_errors =
            validate_header spec @ id_errors @ validate_edge_ids spec @ validate_graph_limits spec options
            @ validate_budgets spec @ validate_execution_policy spec node_index @ node_errors
            @ validate_edges spec node_index @ validate_write_conflicts spec @ topology_errors
            @ (case hash of
                 Inl err \<Rightarrow> [VE_NormalizationFailed (normalization_error_display err)] | Inr _ \<Rightarrow> []),
          vp_warnings = node_warnings @ lint spec topology,
          vp_normalized_hash = (case hash of Inl _ \<Rightarrow> None | Inr h \<Rightarrow> Some h),
          vp_topology = topology,
          vp_exact_ready =
            map_option (\<lambda>required. \<lparr>xr_required_ready_agents = required,
              xr_actual_ready_agents = unwrap_or (map_option tp_initial_ready_agent_width topology) 0\<rparr>)
              (vo_require_exact_ready_agents options)\<rparr>)"

record compiled_graph =
  cg_normalized :: normalized_graph_spec
  cg_topology :: topology_report
  cg_warnings :: "validation_warning list"

text \<open>
  Compilation; the outcome \<open>None\<close> of the inner option is the panic of \<open>expect\<close> on a missing topology.
\<close>

definition compile ::
  "norm_env \<Rightarrow> validation_options \<Rightarrow> graph_spec \<Rightarrow> (validation_report, compiled_graph option) result" where
  "compile env options spec =
     (let report = validate_graph_spec env spec options
      in if \<not> report_is_valid report then Err report
         else case normalize_graph_spec env spec of
           Inl err \<Rightarrow>
             Err (report\<lparr>vp_errors := vp_errors report @ [VE_NormalizationFailed (normalization_error_display err)]\<rparr>)
         | Inr normalized \<Rightarrow>
             Ok (case vp_topology report of
                   None \<Rightarrow> None
                 | Some topology \<Rightarrow>
                     Some \<lparr>cg_normalized = normalized, cg_topology = topology, cg_warnings = vp_warnings report\<rparr>))"

section \<open>Outputs\<close>

definition validate_node_output :: "node_output \<Rightarrow> validation_error list" where
  "validate_node_output out =
     push_if (no_schema_version out \<noteq> AGENTGRAPH_SCHEMA_VERSION)
       (VE_UnsupportedSchemaVersion (no_schema_version out))
     @ validate_id ''graphRunId'' (no_graph_run_id out)
     @ validate_id ''nodeInstanceId'' (no_node_instance_id out)
     @ validate_id ''attemptId'' (no_attempt_id out)
     @ concat (map (check_path (no_node_instance_id out) [])
         (no_files_read out @ no_files_changed out @ map ar_path (no_artifacts out)
          @ concat (map (\<lambda>finding. map ev_path (nf_evidence finding)) (no_findings out))))"

definition collect_statuses :: "node_output list \<Rightarrow> (node_id, node_status) bmap" where
  "collect_statuses outputs = bm_of_list (map (\<lambda>out. (no_node_instance_id out, no_status out)) outputs)"

section \<open>What validity gives\<close>

definition valid_graph :: "norm_env \<Rightarrow> validation_options \<Rightarrow> graph_spec \<Rightarrow> bool" where
  "valid_graph env options spec \<longleftrightarrow> report_is_valid (validate_graph_spec env spec options)"

lemma push_if_Nil [simp]: "push_if c e = [] \<longleftrightarrow> \<not> c"
  by (simp add: push_if_def)

text \<open>The index of the nodes, and what the checks of a valid graph leave empty.\<close>

definition node_index_of :: "graph_spec \<Rightarrow> node_map" where
  "node_index_of spec = snd (validate_node_ids spec)"

lemma index_nodes_keys:
  "set (bm_keys (snd (index_nodes nodes m))) = set (bm_keys m) \<union> ns_id ` set nodes"
  by (induction nodes arbitrary: m) (simp_all add: bmap_simps case_prod_beta)

lemma node_index_keys: "set (bm_keys (node_index_of spec)) = ns_id ` set (sb_nodes (gs_spec spec))"
  by (simp add: node_index_of_def validate_node_ids_def index_nodes_keys) (simp add: bm_keys_def)

lemma valid_graphD:
  assumes "valid_graph env options spec"
  shows "fst (validate_node_ids spec) = []"
    and "validate_graph_limits spec options = []"
    and "validate_execution_policy spec (node_index_of spec) = []"
    and "\<And>node. node \<in> set (sb_nodes (gs_spec spec)) \<Longrightarrow> validate_node spec options (node_index_of spec) node = []"
    and "\<And>edge. edge \<in> set (sb_edges (gs_spec spec)) \<Longrightarrow> validate_edge spec (node_index_of spec) edge = []"
    and "validate_write_conflicts spec = []"
    and "fst (topology_outcome spec options) = []"
    and "\<exists>hash. canonical_graph_hash env spec = Ok hash"
  using assms
  by (auto simp: valid_graph_def report_is_valid_def validate_graph_spec_def node_index_of_def validate_nodes_def
      validate_edges_def Let_def split: prod.splits sum.splits)

lemma valid_topology:
  assumes "valid_graph env options spec"
  shows "\<exists>report. analyze_topology spec = Ok report \<and> snd (topology_outcome spec options) = Some report"
  using valid_graphD(7) [OF assms] by (auto simp: topology_outcome_def split: sum.splits topology_error.splits)

lemma valid_nodeD:
  assumes "valid_graph env options spec" and "node \<in> set (sb_nodes (gs_spec spec))"
  shows "validate_node_predicates node (bm_keys (node_index_of spec)) = []"
    and "validate_loop node (bm_keys (node_index_of spec)) = []"
    and "validate_retry node = []"
    and "validate_authority spec options node = []"
    and "validate_paths node options = []"
    and "validate_resources spec node = []"
  using valid_graphD(4) [OF assms] by (simp_all add: validate_node_def)

lemma check_predicate_Nil: "check_predicate nid p known = [] \<longleftrightarrow> validate_predicate p known = Ok ()"
  by (auto simp: check_predicate_def split: sum.splits)

text \<open>The bounds of a validated loop node.\<close>

lemma validate_loop_bounds:
  assumes "validate_loop node known = []" and "ns_kind node = NK_Loop"
  obtains p iterations q where "ns_loop_policy node = Some p" and "ls_max_iterations p = Some iterations"
    and "iterations \<noteq> 0" and "ls_terminal_predicate p = Some q" and "validate_predicate q known = Ok ()"
proof -
  have "LOOP_BOUNDS \<noteq> []" by (simp add: LOOP_BOUNDS_def)
  then obtain p where p: "ns_loop_policy node = Some p"
    using assms by (auto simp: validate_loop_def split: option.splits)
  moreover obtain q where "ls_terminal_predicate p = Some q" "validate_predicate q known = Ok ()"
    using assms p by (auto simp: validate_loop_def check_predicate_Nil split: option.splits)
  moreover have "\<not> is_none_or (ls_max_iterations p) (\<lambda>v. v = 0)"
    using assms p by (simp add: validate_loop_def)
  then obtain iterations where "ls_max_iterations p = Some iterations" "iterations \<noteq> 0"
    by (cases "ls_max_iterations p") auto
  ultimately show ?thesis using that by blast
qed

section \<open>Resources of a valid graph\<close>

lemma same_tools: "validation_nested_tool tool \<longleftrightarrow> is_nested_orchestration_tool tool"
  by (simp add: validation_nested_tool_def is_nested_orchestration_tool_def nested_tool_names_def
      denied_worker_tools_def set_bs_of_list)

lemma valid_tools: "validate_authority spec options node = [] \<Longrightarrow> check_tools node = Ok ()"
proof -
  assume v: "validate_authority spec options node = []"
  have "\<forall>tool \<in> set (ns_tool_allowlist node). \<not> (is_model_worker node \<and> is_nested_orchestration_tool tool)"
    using v by (auto simp: validate_authority_def Let_def same_tools)
  moreover have "\<forall>tool \<in> set tools. \<not> (is_model_worker node \<and> is_nested_orchestration_tool tool) \<Longrightarrow>
      fold_r (\<lambda>tool _. if is_model_worker node \<and> is_nested_orchestration_tool tool
        then Err (Nested_Orchestration_Tool (ns_id node) tool) else Ok ()) tools () = Ok ()" for tools
    by (induction tools) auto
  ultimately show ?thesis by (simp add: check_tools_def)
qed

lemma claim_contention:
  assumes "check_claim spec node claim = []" and "rm_definitions m = sb_resources (gs_spec spec)"
    and "request_claim m claim requested = Err e"
  shows "is_contention e"
  using assms
  by (auto simp: check_claim_def request_claim_def limit_of_def Let_def
      split: option.splits if_splits resource_kind.splits)

lemma fold_r_Err: "fold_r f xs s = Err e \<Longrightarrow> \<exists>x \<in> set xs. \<exists>s'. f x s' = Err e"
proof (induction xs arbitrary: s)
  case (Cons x xs)
  then show ?case by (cases "f x s") auto
qed simp

lemma check_writes_contention: "check_writes m ws = Err e \<Longrightarrow> is_contention e"
  by (auto simp: check_writes_def split: option.splits prod.splits dest!: fold_r_Err)

lemma acquire_contention:
  assumes "validate_authority spec options node = []" and "validate_resources spec node = []"
    and "plan_mode \<longrightarrow> vo_plan_mode options" and "rm_definitions m = sb_resources (gs_spec spec)"
    and "try_acquire m node (sb_defaults (gs_spec spec)) plan_mode = Err e"
  shows "is_contention e"
proof -
  have claims: "check_claim spec node claim = []" if "claim \<in> set (ns_resource_claims node)" for claim
    using assms(2) that by (simp add: validate_resources_def)
  have plan: "\<not> (plan_mode \<and> CM_ReadOnly < effective_capability node (sb_defaults (gs_spec spec)))"
    using assms(1,3) by (auto simp: validate_authority_def Let_def)
  consider "check_writes m (normalized_write_set node) = Err e"
    | "fold_r (request_claim m) (ns_resource_claims node) [] = Err e"
    using assms(5) plan valid_tools [OF assms(1)]
    by (auto simp: try_acquire_def bind_r_def Let_def split: if_splits sum.splits)
  then show ?thesis
    by cases (auto dest!: fold_r_Err intro: check_writes_contention claim_contention [OF claims assms(4)])
qed

lemma resource_step_definitions: "resource_step s s' \<Longrightarrow> rm_definitions (fst s') = rm_definitions (fst s)"
  by (induction rule: resource_step.induct) (auto elim!: try_acquire_OkE simp: release_resources_def)

lemma resource_run_definitions: "resource_step\<^sup>*\<^sup>* s s' \<Longrightarrow> rm_definitions (fst s') = rm_definitions (fst s)"
  by (induction rule: rtranclp_induct) (auto dest: resource_step_definitions)

section \<open>Paths of a valid graph\<close>

text \<open>Following a relative path from a directory: \<open>..\<close> goes up, an empty segment or \<open>.\<close> stays.\<close>

fun walk :: "string list \<Rightarrow> string list \<Rightarrow> string list option" where
  "walk dir [] = Some dir"
| "walk dir (segment # segments) =
     (if segment = [] \<or> segment = ''.'' then walk dir segments
      else if segment = ''..'' then (if dir = [] then None else walk (butlast dir) segments)
      else walk (dir @ [segment]) segments)"

lemma walk_inside: "''..'' \<notin> set segments \<Longrightarrow> \<exists>rest. walk dir segments = Some (dir @ rest)"
proof (induction segments arbitrary: dir)
  case (Cons segment segments)
  then show ?case using Cons.IH [of dir] Cons.IH [of "dir @ [segment]"] by auto
qed simp

definition path_text :: "string \<Rightarrow> string" where
  "path_text path = replace_char (CHR 0x5C) CHR ''/'' (trim path)"

lemma validate_path_OkD:
  assumes "validate_path_pattern path roots = Ok ()"
  shows "path_text path \<noteq> []" and "\<not> starts_with (path_text path) ''/''"
    and "''..'' \<notin> set (split_char CHR ''/'' (path_text path))"
    and "roots \<noteq> [] \<Longrightarrow> \<exists>root \<in> set roots. \<exists>zs.
      split_char CHR ''/'' (trim_start_matches ''./'' (path_text path)) =
      split_char CHR ''/'' (trim_matches CHR ''/'' root) @ zs"
proof -
  have *: "path_text path \<noteq> [] \<and> \<not> starts_with (path_text path) ''/'' \<and>
      ''..'' \<notin> set (split_char CHR ''/'' (path_text path)) \<and>
      (roots \<noteq> [] \<longrightarrow> (\<exists>root \<in> set roots.
        trim_start_matches ''./'' (path_text path) = trim_matches CHR ''/'' root \<or>
        starts_with (trim_start_matches ''./'' (path_text path)) (trim_matches CHR ''/'' root @ ''/'')))"
    using assms unfolding path_text_def validate_path_pattern_def Let_def
    by (simp add: list_ex_iff split: if_splits) blast
  then show "path_text path \<noteq> []" "\<not> starts_with (path_text path) ''/''"
    "''..'' \<notin> set (split_char CHR ''/'' (path_text path))" by blast+
  show "roots \<noteq> [] \<Longrightarrow> \<exists>root \<in> set roots. \<exists>zs.
      split_char CHR ''/'' (trim_start_matches ''./'' (path_text path)) =
      split_char CHR ''/'' (trim_matches CHR ''/'' root) @ zs"
    using * unfolding starts_with_dir_iff [symmetric] by auto
qed

section \<open>A valid graph\<close>

text \<open>A writer that holds a lock, a loop of at most three rounds after it, and a router.\<close>

definition build_loop :: node_spec where
  "build_loop =
     (minimal_node ''l'' NK_Loop ''repeat the build'')
       \<lparr>ns_loop_policy := Some (loop3
         \<lparr>ls_max_generated_nodes := Some 5, ls_max_input_tokens := Some 1000,
          ls_max_output_tokens := Some 1000, ls_max_wall_time_seconds := Some 60,
          ls_progress_metric := Some ''$.done'', ls_no_progress_limit := Some 2,
          ls_deduplication_key := Some ''claim'',
          ls_terminal_predicate := Some (P_StatusIs ''a'' NS_Succeeded)\<rparr>)\<rparr>"

definition build_graph :: graph_spec where
  "build_graph =
     (let g = minimal_graph [cargo_node ''a'' ''src'', build_loop] [minimal_edge ''a'' ''l'' EK_Control]
      in g\<lparr>gs_spec := (gs_spec g)
             \<lparr>sb_resources := [(''cargo'', \<lparr>rd_kind = RK_ExclusiveLock, rd_limit = 1\<rparr>)]\<rparr>\<rparr>)"

lemma build_graph_nodes: "sb_nodes (gs_spec build_graph) = [cargo_node ''a'' ''src'', build_loop]"
  by (simp add: build_graph_def minimal_graph_def Let_def)

lemma build_graph_valid: "valid_graph plain_norm_env default_validation_options build_graph"
proof -
  let ?index = "snd (validate_node_ids build_graph)"
  have "validate_header build_graph = []" "fst (validate_node_ids build_graph) = []"
    "validate_edge_ids build_graph = []" "validate_graph_limits build_graph default_validation_options = []"
    "validate_budgets build_graph = []" "validate_execution_policy build_graph ?index = []"
    "concat (map (validate_node build_graph default_validation_options ?index) (sb_nodes (gs_spec build_graph))) = []"
    "validate_edges build_graph ?index = []" "validate_write_conflicts build_graph = []"
    "fst (topology_outcome build_graph default_validation_options) = []"
    by code_simp+
  moreover have "\<exists>hash. canonical_graph_hash plain_norm_env build_graph = Ok hash"
    by (simp add: canonical_graph_hash_def normalize_graph_spec_def hash_graph_spec_def plain_norm_env_def Let_def)
  ultimately show ?thesis
    by (auto simp: valid_graph_def report_is_valid_def validate_graph_spec_def validate_nodes_def Let_def
        split: prod.splits)
qed

section \<open>Properties\<close>

text \<open>
  C25. On a valid graph, acquiring the resources of a node never fails for a reason that waiting
  could not remove: whatever tickets are held, the only errors are missing permits and write
  conflicts with nodes that run now. (Plan mode is checked when the graph was validated for it.)
\<close>

theorem valid_graph_acquires_or_waits:
  assumes "valid_graph env options spec" and "node \<in> set (sb_nodes (gs_spec spec))"
    and "resource_step\<^sup>*\<^sup>* (from_graph spec, []) (m, held)" and "plan_mode \<longrightarrow> vo_plan_mode options"
    and "try_acquire m node (sb_defaults (gs_spec spec)) plan_mode = Err e"
  shows "is_contention e"
proof -
  have "rm_definitions m = sb_resources (gs_spec spec)"
    using resource_run_definitions [OF assms(3)] by (simp add: from_graph_def)
  with acquire_contention valid_nodeD(4,6) [OF assms(1,2)] assms(4,5) show ?thesis by blast
qed

lemma build_cargo_held:
  "try_acquire (from_graph build_graph) (cargo_node ''a'' ''src'') default_node_defaults False = Ok (cargo_manager, cargo_ticket)"
proof -
  have "from_graph build_graph = from_graph cargo_graph"
    by (simp add: from_graph_def build_graph_def cargo_graph_def minimal_graph_def Let_def)
  then show ?thesis by (simp add: cargo_acquires)
qed

theorem valid_graph_acquires_or_waits_witness:
  "\<exists>e. try_acquire cargo_manager (cargo_node ''a'' ''src'') default_node_defaults False = Err e \<and> is_contention e"
proof -
  have defaults: "sb_defaults (gs_spec build_graph) = default_node_defaults"
    "cargo_node ''a'' ''src'' \<in> set (sb_nodes (gs_spec build_graph))"
    by (simp_all add: build_graph_def minimal_graph_def Let_def)
  have "resource_step\<^sup>*\<^sup>* (from_graph build_graph, []) (cargo_manager, [cargo_ticket])"
    by (rule r_into_rtranclp, rule step_acquire [OF build_cargo_held]) simp
  note ok = valid_graph_acquires_or_waits [OF build_graph_valid defaults(2) this, of False, unfolded defaults]
  have "\<exists>e. try_acquire cargo_manager (cargo_node ''a'' ''src'') default_node_defaults False = Err e"
    by (simp add: try_acquire_def check_tools_def check_writes_def conflicting_write_def cargo_manager_def
        normalized_write_set_def normalize_src cargo_node_def minimal_node_def path_patterns_overlap_def Let_def)
  with ok show ?thesis by blast
qed

text \<open>
  C26. Everything a valid graph repeats is bounded: a chain of retries of a node has less than ten
  links, and a loop node has an iteration limit which the number of rounds that ask for another
  stays below.
\<close>

theorem valid_graph_repetition_bounded:
  assumes "valid_graph env options spec" and "node \<in> set (sb_nodes (gs_spec spec))"
  shows "((retry_next run_id node ^^ n) 1 attempt \<longrightarrow> n < 10) \<and>
    (ns_kind node = NK_Loop \<longrightarrow>
      (\<exists>policy limit. ns_loop_policy node = Some policy \<and> ls_max_iterations policy = Some limit \<and>
        ((loop_continues loop_env policy ^^ rounds) (new_loop t0) s \<longrightarrow> rounds < unat limit)))"
proof (intro conjI impI)
  assume "(retry_next run_id node ^^ n) 1 attempt"
  note chain = retry_chain_counts [OF this]
  have "0 < rp_max_attempts (ns_retry_policy node)" "rp_max_attempts (ns_retry_policy node) \<le> 10"
    using valid_nodeD(3) [OF assms] by (auto simp: validate_retry_def Let_def word_gt_0 not_less)
  then have "max (rp_max_attempts (ns_retry_policy node)) 1 \<le> 10" by simp
  with chain have "0 < n \<longrightarrow> attempt \<le> 10" by (meson order_trans)
  with chain show "n < 10" by (cases "n = 0") (auto simp: word_le_nat_alt)
next
  assume "ns_kind node = NK_Loop"
  with valid_nodeD(2) [OF assms] obtain policy limit where
    "ns_loop_policy node = Some policy" "ls_max_iterations policy = Some limit" "limit \<noteq> 0"
    by (rule validate_loop_bounds)
  then show "\<exists>policy limit. ns_loop_policy node = Some policy \<and> ls_max_iterations policy = Some limit \<and>
      ((loop_continues loop_env policy ^^ rounds) (new_loop t0) s \<longrightarrow> rounds < unat limit)"
    using rounds_iteration [of rounds loop_env policy "new_loop t0" s limit]
    by (cases "rounds = 0") (auto simp: new_loop_def unat_gt_0)
qed

theorem valid_graph_repetition_bounded_witness:
  "\<exists>node \<in> set (sb_nodes (gs_spec build_graph)). ns_kind node = NK_Loop \<and>
     (\<exists>policy limit. ns_loop_policy node = Some policy \<and> ls_max_iterations policy = Some limit)"
proof -
  have "build_loop \<in> set (sb_nodes (gs_spec build_graph))" "ns_kind build_loop = NK_Loop"
    by (simp_all add: build_graph_nodes build_loop_def minimal_node_def)
  with valid_graph_repetition_bounded [OF build_graph_valid] show ?thesis by blast
qed

text \<open>
  C27. The predicates of a valid graph, those of routes, of loops and of conditional edges, evaluate
  without error on every document and to their meaning.
\<close>

theorem valid_graph_predicates_evaluate:
  assumes "valid_graph env options spec"
    and "(\<exists>node \<in> set (sb_nodes (gs_spec spec)). \<exists>route \<in> set (ns_routes node). p = rt_predicate route)
      \<or> (\<exists>node \<in> set (sb_nodes (gs_spec spec)). \<exists>policy. ns_kind node = NK_Loop \<and>
           ns_loop_policy node = Some policy \<and> ls_terminal_predicate policy = Some p)
      \<or> (\<exists>edge \<in> set (sb_edges (gs_spec spec)). es_condition edge = Some p)"
  shows "evaluate_predicate p ctx = Ok (holds ctx p)"
proof -
  let ?known = "bm_keys (node_index_of spec)"
  from assms(2) have "validate_predicate p ?known = Ok ()"
  proof (elim disjE bexE exE conjE)
    fix node route assume "node \<in> set (sb_nodes (gs_spec spec))" "route \<in> set (ns_routes node)" "p = rt_predicate route"
    then show ?thesis
      using valid_nodeD(1) [OF assms(1)] by (auto simp: validate_node_predicates_def check_predicate_Nil)
  next
    fix node policy
    assume "node \<in> set (sb_nodes (gs_spec spec))" "ns_kind node = NK_Loop" "ns_loop_policy node = Some policy"
      "ls_terminal_predicate policy = Some p"
    then show ?thesis
      using validate_loop_bounds [OF valid_nodeD(2) [OF assms(1)]] by (metis option.inject)
  next
    fix edge assume "edge \<in> set (sb_edges (gs_spec spec))" "es_condition edge = Some p"
    with valid_graphD(5) [OF assms(1)] show ?thesis by (fastforce simp: validate_edge_def check_predicate_Nil)
  qed
  then show ?thesis by (rule evaluate_meaning(1))
qed

theorem valid_graph_predicates_evaluate_witness:
  "evaluate_predicate (P_StatusIs ''a'' NS_Succeeded) \<lparr>pc_document = JNull, pc_statuses = [(''a'', NS_Succeeded)], pc_deadline_reached = False\<rparr> =
     Ok (holds \<lparr>pc_document = JNull, pc_statuses = [(''a'', NS_Succeeded)], pc_deadline_reached = False\<rparr> (P_StatusIs ''a'' NS_Succeeded))"
proof (rule valid_graph_predicates_evaluate [OF build_graph_valid], rule disjI2, rule disjI1)
  have "ns_kind build_loop = NK_Loop" "\<exists>policy. ns_loop_policy build_loop = Some policy \<and>
      ls_terminal_predicate policy = Some (P_StatusIs ''a'' NS_Succeeded)"
    by (simp_all add: build_loop_def minimal_node_def)
  then show "\<exists>node \<in> set (sb_nodes (gs_spec build_graph)). \<exists>policy. ns_kind node = NK_Loop \<and>
      ns_loop_policy node = Some policy \<and> ls_terminal_predicate policy = Some (P_StatusIs ''a'' NS_Succeeded)"
    by (auto simp: build_graph_nodes)
qed

text \<open>
  C28. The paths of a valid graph stay where they belong: read and write sets name relative paths
  which, followed from any directory, lead to that directory or below it, and, when roots are
  given, below one of the roots.
\<close>

theorem valid_graph_paths_contained:
  assumes "valid_graph env options spec" and "node \<in> set (sb_nodes (gs_spec spec))"
    and "path \<in> set (ns_read_set node) \<union> set (ns_write_set node)"
  shows "\<not> starts_with (path_text path) ''/'' \<and>
    (\<exists>rest. walk dir (split_char CHR ''/'' (path_text path)) = Some (dir @ rest)) \<and>
    (vo_allowed_roots options \<noteq> [] \<longrightarrow>
      (\<exists>root \<in> set (vo_allowed_roots options). \<exists>zs.
        split_char CHR ''/'' (trim_start_matches ''./'' (path_text path)) =
        split_char CHR ''/'' (trim_matches CHR ''/'' root) @ zs))"
proof -
  have "check_path (ns_id node) (vo_allowed_roots options) path = []"
    using valid_nodeD(5) [OF assms(1,2)] assms(3) by (auto simp: validate_paths_def)
  then have "validate_path_pattern path (vo_allowed_roots options) = Ok ()"
    by (auto simp: check_path_def split: sum.splits)
  note ok = validate_path_OkD [OF this]
  show ?thesis using ok(2,4) walk_inside [OF ok(3)] by blast
qed

theorem valid_graph_paths_contained_witness:
  "\<exists>rest. walk [''home'', ''repo''] (split_char CHR ''/'' (path_text ''src'')) = Some ([''home'', ''repo''] @ rest)"
proof -
  have "cargo_node ''a'' ''src'' \<in> set (sb_nodes (gs_spec build_graph))"
    "''src'' \<in> set (ns_read_set (cargo_node ''a'' ''src'')) \<union> set (ns_write_set (cargo_node ''a'' ''src''))"
    by (simp_all add: build_graph_def minimal_graph_def cargo_node_def Let_def)
  from valid_graph_paths_contained [OF build_graph_valid this] show ?thesis by blast
qed

text \<open>
  Compilation succeeds exactly on valid graphs, and never panics: a valid graph has a topology
  and a normal form.
\<close>

lemma compile_iff_valid:
  "((\<exists>compiled. compile env options spec = Ok (Some compiled)) \<longleftrightarrow> valid_graph env options spec) \<and>
   compile env options spec \<noteq> Ok None"
proof -
  have valid: "\<exists>compiled. compile env options spec = Ok (Some compiled)" if v: "valid_graph env options spec"
  proof -
    obtain hash where "canonical_graph_hash env spec = Ok hash" using valid_graphD(8) [OF v] by blast
    then obtain normalized where "normalize_graph_spec env spec = Ok normalized"
      by (auto simp: canonical_graph_hash_def bind_r_eq_Ok)
    moreover obtain report where "snd (topology_outcome spec options) = Some report"
      using valid_topology [OF v] by blast
    then have "vp_topology (validate_graph_spec env spec options) = Some report"
      by (simp add: validate_graph_spec_def Let_def case_prod_beta)
    ultimately show ?thesis using v by (simp add: compile_def valid_graph_def Let_def)
  qed
  have invalid: "compile env options spec \<noteq> Ok r" if "\<not> valid_graph env options spec" for r
    using that by (simp add: compile_def valid_graph_def Let_def)
  show ?thesis using valid invalid by (cases "valid_graph env options spec") auto
qed

text \<open>
  Validation compares write sets with its own prefix, the resource manager with its normal form.
  They disagree on backslashes and doubled slashes, and neither sees that a pattern for the whole
  tree contains the others.
\<close>

lemmas path_evaluation =
  trim_printable printable_def replace_char_def trim_start_matches.simps trim_end_matches_def
  collapse_slashes.simps

lemma overlap_checks_disagree:
  defines "back \<equiv> ''a'' @ [CHR 0x5C] @ ''b''"
  shows "path_patterns_overlap back ''a/b''" "\<not> validation_patterns_overlap back ''a/b''"
    "\<not> validation_patterns_overlap ''**'' ''src''"
proof -
  have "normalize_path_pattern back = ''a/b''" "normalize_path_pattern ''a/b'' = ''a/b''"
    by (simp_all add: back_def normalize_path_pattern_def path_evaluation)
  then show "path_patterns_overlap back ''a/b''" by (simp add: path_patterns_overlap_def)
  have "write_prefix back = back" "write_prefix ''a/b'' = ''a/b''"
    "write_prefix ''**'' = ''**''" "write_prefix ''src'' = ''src''"
    by (simp_all add: back_def write_prefix_def path_evaluation)
  then show "\<not> validation_patterns_overlap back ''a/b''" "\<not> validation_patterns_overlap ''**'' ''src''"
    by (simp_all add: back_def validation_patterns_overlap_def starts_with_def)
qed

end
