(* ===== verification/Worker.thy ===== *)
theory Worker
  imports Rate_Limit "HOL-Library.Multiset"
begin

text \<open>
  Workers, the part of \<^verbatim>\<open>agent_graph/worker.rs\<close> the scheduler relies on: requests, completions,
  errors, the trait \<^verbatim>\<open>WorkerBackend\<close> and its in-memory implementation \<^verbatim>\<open>FakeWorkerBackend\<close>. A
  backend is the record of its operations over a state; its \<open>active_count\<close> only reports. The
  backend that drives subagents is in \<open>Subagent_Worker\<close>.

  The contract of a backend is the locale \<open>faithful_backend\<close>: a completion answers a request that
  was started and not answered or cancelled yet. The in-memory backend keeps it.
\<close>

section \<open>Data\<close>

record worker_request =
  wq_graph_run_id :: string
  wq_node_id :: node_id
  wq_attempt :: u32
  wq_objective :: string

record worker_completion =
  wc_graph_run_id :: string
  wc_node_id :: node_id
  wc_attempt :: u32
  wc_output :: node_output
  wc_usage :: usage_accounting
  wc_provider_capacity :: "provider_capacity_observation option"

record worker_handle =
  wh_worker_id :: string
  wh_node_id :: node_id
  wh_attempt :: u32

datatype worker_error =
    WE_NotFound string
  | WE_Rejected node_id string

fun worker_error_display :: "worker_error \<Rightarrow> string" where
  "worker_error_display (WE_NotFound worker_id) = ''worker `'' @ worker_id @ ''` was not found''"
| "worker_error_display (WE_Rejected nid reason) =
     ''worker backend rejected node `'' @ nid @ ''`: '' @ reason"

record 'b worker_backend =
  wb_start :: "worker_request \<Rightarrow> 'b \<Rightarrow> 'b \<times> (worker_error, worker_handle) result"
  wb_poll_completed :: "'b \<Rightarrow> 'b \<times> worker_completion list"
  wb_cancel :: "string \<Rightarrow> 'b \<Rightarrow> 'b \<times> (worker_error, unit) result"

section \<open>The in-memory backend\<close>

record fake_worker_backend =
  fw_complete_immediately :: bool
  fw_active :: "(string, worker_request) bmap"
  fw_completions :: "worker_completion list"

definition complete_immediately :: fake_worker_backend where
  "complete_immediately = \<lparr>fw_complete_immediately = True, fw_active = [], fw_completions = []\<rparr>"

definition manual_backend :: fake_worker_backend where
  "manual_backend = \<lparr>fw_complete_immediately = False, fw_active = [], fw_completions = []\<rparr>"

definition completion_for_request :: "worker_request \<Rightarrow> node_status \<Rightarrow> worker_completion" where
  "completion_for_request request status =
     \<lparr>wc_graph_run_id = wq_graph_run_id request, wc_node_id = wq_node_id request,
      wc_attempt = wq_attempt request,
      wc_output =
        \<lparr>no_schema_version = AGENTGRAPH_SCHEMA_VERSION, no_graph_run_id = wq_graph_run_id request,
         no_node_instance_id = wq_node_id request,
         no_attempt_id = ''attempt-'' @ dec (unat (wq_attempt request)), no_status = status,
         no_summary = ''fake worker completed '' @ wq_node_id request, no_findings = [],
         no_files_read = [], no_files_changed = [], no_commands_run = [], no_tests_run = [],
         no_artifacts = [], no_assumptions = [], no_blockers = [], no_confidence = Fin 1\<rparr>,
      wc_usage = default_usage\<lparr>ua_model_calls := 1, ua_node_attempts := 1\<rparr>,
      wc_provider_capacity = None\<rparr>"

definition fake_finish ::
  "string \<Rightarrow> node_status \<Rightarrow> fake_worker_backend \<Rightarrow> fake_worker_backend \<times> (worker_error, unit) result" where
  "fake_finish worker_id status b =
     (case bm_get (fw_active b) worker_id of
        None \<Rightarrow> (b, Err (WE_NotFound worker_id))
      | Some request \<Rightarrow>
          (b\<lparr>fw_active := bm_remove worker_id (fw_active b),
             fw_completions := fw_completions b @ [completion_for_request request status]\<rparr>, Ok ()))"

definition fake_worker_id :: "worker_request \<Rightarrow> string" where
  "fake_worker_id request = wq_node_id request @ ''-attempt-'' @ dec (unat (wq_attempt request))"

definition fake_start ::
  "worker_request \<Rightarrow> fake_worker_backend \<Rightarrow> fake_worker_backend \<times> (worker_error, worker_handle) result" where
  "fake_start request b =
     (let worker_id = fake_worker_id request;
          handle = \<lparr>wh_worker_id = worker_id, wh_node_id = wq_node_id request, wh_attempt = wq_attempt request\<rparr>;
          b1 = b\<lparr>fw_active := bm_insert worker_id request (fw_active b)\<rparr>
      in if fw_complete_immediately b1 then
           (case fake_finish worker_id NS_Succeeded b1 of
              (b2, Inl e) \<Rightarrow> (b2, Err e)
            | (b2, Inr _) \<Rightarrow> (b2, Ok handle))
         else (b1, Ok handle))"

definition fake_poll_completed :: "fake_worker_backend \<Rightarrow> fake_worker_backend \<times> worker_completion list" where
  "fake_poll_completed b = (b\<lparr>fw_completions := []\<rparr>, fw_completions b)"

definition fake_cancel :: "string \<Rightarrow> fake_worker_backend \<Rightarrow> fake_worker_backend \<times> (worker_error, unit) result" where
  "fake_cancel worker_id b =
     (if bm_contains (fw_active b) worker_id
      then (b\<lparr>fw_active := bm_remove worker_id (fw_active b)\<rparr>, Ok ())
      else (b, Err (WE_NotFound worker_id)))"

definition fake_active_count :: "fake_worker_backend \<Rightarrow> nat" where
  "fake_active_count b = length (fw_active b)"

definition fake_backend :: "fake_worker_backend worker_backend" where
  "fake_backend =
     \<lparr>wb_start = fake_start, wb_poll_completed = fake_poll_completed, wb_cancel = fake_cancel\<rparr>"

section \<open>The contract of a backend\<close>

text \<open>
  \<open>pending b\<close> are the nodes of requests that were started and have no answer yet. Starting adds one
  node at most, cancelling adds none, polling answers pending nodes only, each once, and what the
  workers do between the calls (\<open>progress\<close>) adds none.
\<close>

locale faithful_backend =
  fixes backend :: "'b worker_backend"
    and pending :: "'b \<Rightarrow> node_id multiset"
    and progress :: "'b \<Rightarrow> 'b \<Rightarrow> bool"
  assumes start_pending: "wb_start backend request b = (b', r) \<Longrightarrow> pending b' \<subseteq># add_mset (wq_node_id request) (pending b)"
    and poll_pending: "wb_poll_completed backend b = (b', cs) \<Longrightarrow> pending b' + mset (map wc_node_id cs) \<subseteq># pending b"
    and cancel_pending: "wb_cancel backend worker_id b = (b', r') \<Longrightarrow> pending b' \<subseteq># pending b"
    and progress_pending: "progress b b' \<Longrightarrow> pending b' \<subseteq># pending b"

text \<open>A worker of the in-memory backend ends when its owner calls \<open>finish\<close>.\<close>

definition fake_progress :: "fake_worker_backend \<Rightarrow> fake_worker_backend \<Rightarrow> bool" where
  "fake_progress b b' \<longleftrightarrow> (\<exists>worker_id status. b' = fst (fake_finish worker_id status b))"

definition fake_pending :: "fake_worker_backend \<Rightarrow> node_id multiset" where
  "fake_pending b = mset (map (wq_node_id \<circ> snd) (fw_active b)) + mset (map wc_node_id (fw_completions b))"

lemma mset_bm_insert: "mset (bm_insert k v m) = add_mset (k, v) (mset (bm_remove k m))"
proof -
  have "mset (insort_key fst p xs) = add_mset p (mset xs)" for p and xs :: "('a \<times> 'b) list"
    by (induction xs) simp_all
  then show ?thesis by (simp add: bm_insert_def)
qed

lemma mset_bm_remove: "mset (bm_remove k m) \<subseteq># mset m"
  by (simp add: bm_remove_def)

lemma mset_bm_take: "bm_get m k = Some v \<Longrightarrow> add_mset (k, v) (mset (bm_remove k m)) \<subseteq># mset m"
proof (induction m)
  case (Cons p m)
  show ?case
  proof (cases "fst p = k")
    case True
    with Cons.prems have "p = (k, v)" by (cases p) (simp add: bm_get_def)
    then show ?thesis using mset_bm_remove [of k m] by (simp add: bm_remove_def)
  next
    case False
    with Cons show ?thesis by (cases p) (simp add: bm_get_def bm_remove_def add_mset_commute)
  qed
qed (simp add: bm_get_def)

lemma fake_finish_pending:
  assumes "fake_finish worker_id status b = (b', r)"
  shows "fake_pending b' \<subseteq># fake_pending b"
proof (cases "bm_get (fw_active b) worker_id")
  case (Some request)
  have "image_mset (wq_node_id \<circ> snd) (add_mset (worker_id, request) (mset (bm_remove worker_id (fw_active b)))) \<subseteq>#
      image_mset (wq_node_id \<circ> snd) (mset (fw_active b))"
    by (rule image_mset_subseteq_mono [OF mset_bm_take [OF Some]])
  then show ?thesis
    using assms Some by (auto simp: fake_finish_def fake_pending_def completion_for_request_def)
qed (use assms in \<open>simp add: fake_finish_def\<close>)

interpretation fake: faithful_backend fake_backend fake_pending fake_progress
proof
  fix request :: worker_request and b b' :: fake_worker_backend and r
  assume start: "wb_start fake_backend request b = (b', r)"
  let ?b1 = "b\<lparr>fw_active := bm_insert (fake_worker_id request) request (fw_active b)\<rparr>"
  have "image_mset (wq_node_id \<circ> snd) (mset (bm_remove (fake_worker_id request) (fw_active b))) \<subseteq>#
      image_mset (wq_node_id \<circ> snd) (mset (fw_active b))"
    by (rule image_mset_subseteq_mono [OF mset_bm_remove])
  then have "fake_pending ?b1 \<subseteq># add_mset (wq_node_id request) (fake_pending b)"
    by (simp add: fake_pending_def mset_bm_insert)
  moreover have "fake_pending b' \<subseteq># fake_pending ?b1"
    using start by (auto simp: fake_backend_def fake_start_def Let_def split: if_splits prod.splits sum.splits
        dest: fake_finish_pending)
  ultimately show "fake_pending b' \<subseteq># add_mset (wq_node_id request) (fake_pending b)"
    by (rule subset_mset.order_trans [rotated])
next
  fix b b' :: fake_worker_backend and cs
  assume "wb_poll_completed fake_backend b = (b', cs)"
  then show "fake_pending b' + mset (map wc_node_id cs) \<subseteq># fake_pending b"
    by (auto simp: fake_backend_def fake_poll_completed_def fake_pending_def)
next
  fix worker_id and b b' :: fake_worker_backend and r'
  assume "wb_cancel fake_backend worker_id b = (b', r')"
  moreover have "image_mset (wq_node_id \<circ> snd) (mset (bm_remove worker_id (fw_active b))) \<subseteq>#
      image_mset (wq_node_id \<circ> snd) (mset (fw_active b))"
    by (rule image_mset_subseteq_mono [OF mset_bm_remove])
  ultimately show "fake_pending b' \<subseteq># fake_pending b"
    by (auto simp: fake_backend_def fake_cancel_def fake_pending_def split: if_splits)
next
  show "fake_progress b b' \<Longrightarrow> fake_pending b' \<subseteq># fake_pending b" for b b'
    by (auto simp: fake_progress_def intro: fake_finish_pending [OF prod.collapse [symmetric]])
qed

end
