(* ===== verification/Approval.thy ===== *)
theory Approval
  imports Normalization
begin

text \<open>
  Approvals, \<^verbatim>\<open>agent_graph/approval.rs\<close>: the binding of an approval to the hashes of a graph, its
  budgets, side effects and permissions, to a commit and a time, and its check before execution.
  Serialization and SHA-256 are arguments, the fields of \<open>approval_env\<close>; reading a file below
  \<^verbatim>\<open>.git\<close> is the argument \<open>read\<close> of \<open>resolve_repository_commit\<close>.

  The lemmas show what an approval that passes the check fixes, up to a collision of SHA-256, and
  that an approval passes for the graph it was given for until it expires.
\<close>

section \<open>Definitions\<close>

record approval_binding =
  ab_schema_version :: u32
  ab_normalized_graph_hash :: string
  ab_graph_revision :: u32
  ab_budget_hash :: string
  ab_side_effect_summary_hash :: string
  ab_permission_summary_hash :: string
  ab_repository_commit :: string
  ab_expires_at_ms :: i64

record execution_approval =
  ea_binding :: approval_binding
  ea_approved_at_ms :: i64
  ea_acknowledgment :: string

datatype approval_error =
    AE_Normalization normalization_error
  | AE_Expired
  | AE_BindingChanged string
  | AE_RepositoryCommitUnavailable

type_synonym side_effect_summary = "(node_id \<times> string list \<times> external_effect list) list"
type_synonym permission_summary =
  "(node_id \<times> capability_mode \<times> tool_name list \<times> tool_name list \<times> network_policy) list"

record approval_env =
  av_norm :: norm_env
  av_budgets_to_vec :: "graph_budgets \<Rightarrow> string option"
  av_effects_to_vec :: "side_effect_summary \<Rightarrow> string option"
  av_permissions_to_vec :: "permission_summary \<Rightarrow> string option"

text \<open>A value that cannot be serialized is hashed as no bytes.\<close>

definition hash_json :: "approval_env \<Rightarrow> ('a \<Rightarrow> string option) \<Rightarrow> 'a \<Rightarrow> string" where
  "hash_json env to_vec v = hex_bytes (ne_sha256 (av_norm env) (unwrap_or (to_vec v) []))"

definition side_effects :: "graph_spec \<Rightarrow> side_effect_summary" where
  "side_effects spec =
     map (\<lambda>node. (ns_id node, ns_write_set node, ns_external_effects node)) (sb_nodes (gs_spec spec))"

definition permissions :: "graph_spec \<Rightarrow> permission_summary" where
  "permissions spec =
     map (\<lambda>node. (ns_id node, effective_capability node (sb_defaults (gs_spec spec)),
            ns_tool_allowlist node, ns_tool_denylist node, ns_network_policy node))
       (sb_nodes (gs_spec spec))"

definition for_spec ::
  "approval_env \<Rightarrow> graph_spec \<Rightarrow> string \<Rightarrow> i64 \<Rightarrow> (approval_error, approval_binding) result" where
  "for_spec env spec repository_commit expires_at_ms =
     (if trim repository_commit = [] then Err AE_RepositoryCommitUnavailable
      else case canonical_graph_hash (av_norm env) spec of
             Inl e \<Rightarrow> Err (AE_Normalization e)
           | Inr hash \<Rightarrow>
               Ok \<lparr>ab_schema_version = 1, ab_normalized_graph_hash = hash,
                   ab_graph_revision = gm_graph_version (gs_metadata spec),
                   ab_budget_hash = hash_json env (av_budgets_to_vec env) (sb_budgets (gs_spec spec)),
                   ab_side_effect_summary_hash = hash_json env (av_effects_to_vec env) (side_effects spec),
                   ab_permission_summary_hash =
                     hash_json env (av_permissions_to_vec env) (permissions spec),
                   ab_repository_commit = repository_commit, ab_expires_at_ms = expires_at_ms\<rparr>)"

definition same :: "bool \<Rightarrow> string \<Rightarrow> (approval_error, unit) result" where
  "same equal name = (if equal then Ok () else Err (AE_BindingChanged name))"

definition verify_binding ::
  "approval_env \<Rightarrow> approval_binding \<Rightarrow> graph_spec \<Rightarrow> string \<Rightarrow> i64 \<Rightarrow> (approval_error, unit) result" where
  "verify_binding env b spec repository_commit now =
     (if ab_expires_at_ms b \<le> now then Err AE_Expired
      else bind_r (for_spec env spec repository_commit (ab_expires_at_ms b)) (\<lambda>current.
        bind_r (same (ab_normalized_graph_hash b = ab_normalized_graph_hash current) ''graph'') (\<lambda>_.
        bind_r (same (ab_graph_revision b = ab_graph_revision current) ''revision'') (\<lambda>_.
        bind_r (same (ab_budget_hash b = ab_budget_hash current) ''budget'') (\<lambda>_.
        bind_r (same (ab_side_effect_summary_hash b = ab_side_effect_summary_hash current)
          ''side effects'') (\<lambda>_.
        bind_r (same (ab_permission_summary_hash b = ab_permission_summary_hash current)
          ''permissions'') (\<lambda>_.
        same (ab_repository_commit b = ab_repository_commit current) ''repository commit'')))))))"

definition graph_requires_execution_approval :: "graph_spec \<Rightarrow> bool" where
  "graph_requires_execution_approval spec \<longleftrightarrow>
     ep_orchestration_policy (sb_execution (gs_spec spec)) = OM_Swarm \<or>
     10 \<le> length (sb_nodes (gs_spec spec)) \<or>
     list_ex (\<lambda>node. CM_ReadOnly < effective_capability node (sb_defaults (gs_spec spec)) \<or>
                ns_external_effects node \<noteq> []) (sb_nodes (gs_spec spec))"

definition resolve_repository_commit ::
  "(string \<Rightarrow> string option) \<Rightarrow> (approval_error, string) result" where
  "resolve_repository_commit read =
     (case read ''HEAD'' of
        None \<Rightarrow> Err AE_RepositoryCommitUnavailable
      | Some raw \<Rightarrow>
          let head = trim raw
          in case strip_prefix ''ref: '' head of
               Some reference \<Rightarrow>
                 (case read reference of
                    Some value \<Rightarrow> Ok (trim value)
                  | None \<Rightarrow> Err AE_RepositoryCommitUnavailable)
             | None \<Rightarrow>
                 if 7 \<le> length head then Ok head else Err AE_RepositoryCommitUnavailable)"


section \<open>Digests\<close>

lemma hex_digit_inject: "d < 16 \<Longrightarrow> e < 16 \<Longrightarrow> hex_digit d = hex_digit e \<longleftrightarrow> d = e"
proof -
  assume small: "d < 16" "e < 16"
  have code: "(of_char (hex_digit n) :: nat) = (if n < 10 then 48 + n else 87 + n)" if "n < 16" for n
    using that by (simp add: hex_digit_def)
  have "d = e" if "hex_digit d = hex_digit e"
  proof -
    from that have "(if d < 10 then 48 + d else 87 + d) = (if e < 10 then 48 + e else 87 + e)"
      using code [OF small(1)] code [OF small(2)] by simp
    with small show "d = e" by (simp split: if_splits)
  qed
  then show ?thesis by blast
qed

lemma hex_bytes_inject: "hex_bytes s = hex_bytes t \<longleftrightarrow> s = t"
proof (induction s arbitrary: t)
  case Nil
  show ?case by (cases t) (simp_all add: hex_bytes_def)
next
  case (Cons c s)
  have digits: "(of_char c :: nat) div 16 < 16" "(of_char c :: nat) mod 16 < 16" for c :: char
    by (simp_all add: less_mult_imp_div_less)
  show ?case
  proof (cases t)
    case (Cons d t')
    have "c = d" if "(of_char c :: nat) div 16 = of_char d div 16" "(of_char c :: nat) mod 16 = of_char d mod 16"
      using that by (metis div_mult_mod_eq of_char_eq_iff)
    with Cons Cons.IH [of t'] digits show ?thesis
      by (auto simp: hex_bytes_def hex_digit_inject)
  qed (simp add: hex_bytes_def)
qed

text \<open>The byte strings that are digested for a graph.\<close>

definition digested :: "approval_env \<Rightarrow> graph_spec \<Rightarrow> string list" where
  "digested env spec =
     [unwrap_or (av_budgets_to_vec env (sb_budgets (gs_spec spec))) [],
      unwrap_or (av_effects_to_vec env (side_effects spec)) [],
      unwrap_or (av_permissions_to_vec env (permissions spec)) []]"

text \<open>A serializer that succeeds on two values and tells them apart.\<close>

definition serializes :: "('a \<Rightarrow> string option) \<Rightarrow> 'a \<Rightarrow> 'a \<Rightarrow> bool" where
  "serializes to_vec v w \<longleftrightarrow> to_vec v \<noteq> None \<and> to_vec w \<noteq> None \<and> (to_vec v = to_vec w \<longrightarrow> v = w)"

lemma hash_json_inject:
  assumes "hash_json env to_vec v = hash_json env to_vec w" and "inj_on (ne_sha256 (av_norm env)) S"
    and "unwrap_or (to_vec v) [] \<in> S" and "unwrap_or (to_vec w) [] \<in> S" and "serializes to_vec v w"
  shows "v = w"
  using assms inj_onD [OF assms(2) _ assms(3,4)]
  by (auto simp: hash_json_def hex_bytes_inject serializes_def)

lemma same_Ok [simp]: "same b name = Ok u \<longleftrightarrow> b"
  by (simp add: same_def)

lemma for_spec_Ok:
  "for_spec env spec commit expires = Ok b \<longleftrightarrow>
   trim commit \<noteq> [] \<and> canonical_graph_hash (av_norm env) spec = Ok (ab_normalized_graph_hash b) \<and>
   ab_schema_version b = 1 \<and> ab_graph_revision b = gm_graph_version (gs_metadata spec) \<and>
   ab_budget_hash b = hash_json env (av_budgets_to_vec env) (sb_budgets (gs_spec spec)) \<and>
   ab_side_effect_summary_hash b = hash_json env (av_effects_to_vec env) (side_effects spec) \<and>
   ab_permission_summary_hash b = hash_json env (av_permissions_to_vec env) (permissions spec) \<and>
   ab_repository_commit b = commit \<and> ab_expires_at_ms b = expires"
  by (cases b) (auto simp: for_spec_def split: sum.splits)

lemma verify_binding_Ok:
  "verify_binding env b spec commit now = Ok u \<longleftrightarrow>
   now < ab_expires_at_ms b \<and>
   for_spec env spec commit (ab_expires_at_ms b) = Ok (b\<lparr>ab_schema_version := 1\<rparr>)"
  by (cases b) (auto simp: verify_binding_def bind_r_eq_Ok for_spec_def split: if_splits sum.splits)

section \<open>Properties\<close>

text \<open>
  C18. An approval fixes what it was given for: if a binding made for one graph passes the check for
  another, then it has not expired, the commit and the revision are the same, the canonical hashes
  agree, and, as long as SHA-256 does not collide on the serialized summaries, budgets, write sets,
  external effects, capabilities, tool lists and network policies of the two graphs are the same.
\<close>

theorem approval_pins_authority:
  assumes "for_spec env spec commit expires = Ok b" and "verify_binding env b spec' commit' now = Ok ()"
    and "inj_on (ne_sha256 (av_norm env)) (set (digested env spec) \<union> set (digested env spec'))"
    and "serializes (av_budgets_to_vec env) (sb_budgets (gs_spec spec)) (sb_budgets (gs_spec spec'))"
    and "serializes (av_effects_to_vec env) (side_effects spec) (side_effects spec')"
    and "serializes (av_permissions_to_vec env) (permissions spec) (permissions spec')"
  shows "now < expires \<and> commit' = commit \<and>
    gm_graph_version (gs_metadata spec') = gm_graph_version (gs_metadata spec) \<and>
    canonical_graph_hash (av_norm env) spec' = canonical_graph_hash (av_norm env) spec \<and>
    sb_budgets (gs_spec spec') = sb_budgets (gs_spec spec) \<and>
    side_effects spec' = side_effects spec \<and> permissions spec' = permissions spec"
  using assms(1,2) hash_json_inject [OF _ assms(3) _ _ assms(4)] hash_json_inject [OF _ assms(3) _ _ assms(5)]
    hash_json_inject [OF _ assms(3) _ _ assms(6)]
  by (auto simp: verify_binding_Ok for_spec_Ok digested_def)

definition plain_approval_env :: approval_env where
  "plain_approval_env =
     \<lparr>av_norm = plain_norm_env\<lparr>ne_to_vec := \<lambda>_. Ok ''g''\<rparr>, av_budgets_to_vec = (\<lambda>_. Some ''b''),
      av_effects_to_vec = (\<lambda>effects. Some (concat (map fst effects))),
      av_permissions_to_vec = (\<lambda>perms. Some (concat (map fst perms)))\<rparr>"

definition plain_binding :: approval_binding where
  "plain_binding =
     \<lparr>ab_schema_version = 1, ab_normalized_graph_hash = ''sha256:67'', ab_graph_revision = 1,
      ab_budget_hash = ''62'', ab_side_effect_summary_hash = ''61'', ab_permission_summary_hash = ''61'',
      ab_repository_commit = ''abc'', ab_expires_at_ms = 200\<rparr>"

definition approved_graph :: "string \<Rightarrow> graph_spec" where
  "approved_graph objective = minimal_graph [minimal_node ''a'' NK_Agent objective] []"

lemma plain_binding_for: "for_spec plain_approval_env (approved_graph objective) ''abc'' 200 = Ok plain_binding"
proof -
  have "trim ''abc'' = ''abc''" by (rule trim_printable) (simp_all add: printable_def)
  moreover have "hex_bytes ''g'' = ''67''" "hex_bytes ''b'' = ''62''" "hex_bytes ''a'' = ''61''"
    by code_simp+
  moreover have "canonical_graph_hash (av_norm plain_approval_env) spec = Ok (''sha256:'' @ hex_bytes ''g'')" for spec
    by (simp add: canonical_graph_hash_def normalize_graph_spec_def hash_graph_spec_def Let_def
        plain_approval_env_def plain_norm_env_def)
  moreover have "map fst (side_effects (approved_graph objective)) = [''a'']"
      "map fst (permissions (approved_graph objective)) = [''a'']"
      "gm_graph_version (gs_metadata (approved_graph objective)) = 1"
    by (simp_all add: side_effects_def permissions_def approved_graph_def minimal_graph_def minimal_node_def
        AGENTGRAPH_SCHEMA_VERSION_def)
  ultimately show ?thesis
    by (simp add: for_spec_Ok plain_binding_def hash_json_def) (simp add: plain_approval_env_def plain_norm_env_def)
qed

theorem approval_pins_authority_witness:
  "(100 :: int) < 200 \<and>
   side_effects (approved_graph ''y'') = side_effects (approved_graph ''x'') \<and>
   permissions (approved_graph ''y'') = permissions (approved_graph ''x'')"
proof -
  have "verify_binding plain_approval_env plain_binding (approved_graph ''y'') ''abc'' 100 = Ok ()"
    using plain_binding_for [of "''y''"] by (simp add: verify_binding_Ok) (simp add: plain_binding_def)
  moreover have "side_effects (approved_graph ''y'') = side_effects (approved_graph ''x'')"
      "permissions (approved_graph ''y'') = permissions (approved_graph ''x'')"
      "sb_budgets (gs_spec (approved_graph ''y'')) = sb_budgets (gs_spec (approved_graph ''x''))"
    by (simp_all add: side_effects_def permissions_def approved_graph_def minimal_graph_def minimal_node_def
        effective_capability_def)
  moreover have "ne_sha256 (av_norm plain_approval_env) = id"
    by (simp add: plain_approval_env_def plain_norm_env_def)
  ultimately show ?thesis
    using approval_pins_authority [OF plain_binding_for [of "''x''"], of "approved_graph ''y''" "''abc''" 100]
    by (simp add: serializes_def plain_approval_env_def)
qed

end
