(* ===== verification/Store.thy ===== *)
theory Store
  imports Budget Compensation Approval
begin

text \<open>
  The durable store, \<^verbatim>\<open>agent_graph/store.rs\<close>. The tables of the SQLite database are the fields of
  \<open>store\<close>: a table with a primary key is an ordered map from the key to the other columns, the event
  log is a list in the order of its sequence numbers. Tables that the code creates and clears and
  never writes (\<^verbatim>\<open>graph_revisions\<close>, \<^verbatim>\<open>node_attempts\<close>, \<^verbatim>\<open>artifacts\<close>, \<^verbatim>\<open>usage_records\<close>, \<^verbatim>\<open>approvals\<close>,
  \<^verbatim>\<open>resource_claims\<close>, \<^verbatim>\<open>cache_entries\<close>) are left out. A status column holds the variant whose text the
  code writes there; \<open>run_status_text\<close> and \<open>node_status_text\<close> are that text, which is read back to the
  same variant.

  An operation that runs in a transaction is a function to the new tables or an error;
  \<open>transaction\<close> commits the one and, as dropping a \<^verbatim>\<open>Transaction\<close> does, rolls back the other. A
  statement fails where a primary key is taken, a row is missing, a foreign key has no target, or a
  number does not fit its column; failures of the disk are not modelled.

  What the store leaves to libraries is the argument \<open>engine\<close>: JSON text of the values it keeps
  (of any type \<open>'j\<close>), the hash of a graph, whether foreign keys are enforced, and the order of the
  rows of a query without \<^verbatim>\<open>ORDER BY\<close>. The clock is the argument \<open>now\<close>.
\<close>

section \<open>Data\<close>

text \<open>The errors of \<^verbatim>\<open>rusqlite\<close> that the statements of the store can give.\<close>

datatype sqlite_error =
    SQ_ConstraintViolation
  | SQ_QueryReturnedNoRows
  | SQ_FromSqlConversionFailure
  | SQ_ToSqlConversionFailure
  | SQ_IntegerOverflow

datatype store_error =
    STE_Sqlite sqlite_error
  | STE_Json string
  | STE_Normalization normalization_error
  | STE_RunNotFound string
  | STE_NodeNotFound string node_id
  | STE_Budget budget_error
  | STE_UnsupportedSchema u32 u32

record node_lease =
  nl_run_id :: string
  nl_node_id :: node_id
  nl_attempt :: u32
  nl_owner :: string
  nl_lease_expires_at_ms :: i64

datatype lease_reservation_outcome =
    LRO_Leased node_lease
  | LRO_NotRunnable
  | LRO_BudgetStopped stop_reason

record recoverable_run =
  rr_run_id :: string
  rr_status :: run_status
  rr_session_id :: "string option"
  rr_repo_root :: string
  rr_created_at_ms :: i64
  rr_updated_at_ms :: i64

record coordinator_lease =
  cl_scope :: string
  cl_owner :: string
  cl_expires_at_ms :: i64
  cl_heartbeat_at_ms :: i64

record node_state_snapshot =
  nss_node_id :: node_id
  nss_status :: node_status
  nss_attempt :: u32
  nss_lease_owner :: "string option"
  nss_lease_expires_at_ms :: "i64 option"
  nss_output :: "node_output option"

record graph_run_snapshot =
  grs_run_id :: string
  grs_status :: run_status
  grs_spec_hash :: string
  grs_node_states :: "node_state_snapshot list"
  grs_events :: "graph_event list"

text \<open>The rows of the tables, less their keys.\<close>

record 'j spec_row =
  sp_name :: string
  sp_spec_json :: 'j
  sp_created_at_ms :: i64

record run_row =
  ru_status :: run_status
  ru_spec_hash :: string
  ru_session_id :: "string option"
  ru_repo_root :: string
  ru_created_at_ms :: i64
  ru_updated_at_ms :: i64

record 'j node_row =
  nr_status :: node_status
  nr_attempt :: u32
  nr_lease_owner :: "string option"
  nr_lease_expires_at_ms :: "i64 option"
  nr_output_json :: "'j option"
  nr_updated_at_ms :: i64

record lease_row =
  lr_owner :: string
  lr_attempt :: u32
  lr_expires_at_ms :: i64

record 'j event_row =
  er_run_id :: string
  er_event_type :: string
  er_event_json :: 'j
  er_created_at_ms :: i64

record 'j history_row =
  hr_schedule_json :: 'j
  hr_chosen_delay_ms :: u64
  hr_created_at_ms :: i64

record coordinator_row =
  co_owner :: string
  co_expires_at_ms :: i64
  co_heartbeat_at_ms :: i64

type_synonym attempt_key = "string \<times> node_id \<times> u32"

record 'j store =
  st_schema_version :: "u32 option"
  st_specs :: "(string, 'j spec_row) bmap"
  st_runs :: "(string, run_row) bmap"
  st_active_runs :: "(string \<times> string, string \<times> i64) bmap"
  st_nodes :: "(string \<times> node_id, 'j node_row) bmap"
  st_events :: "'j event_row list"
  st_leases :: "(string \<times> node_id, lease_row) bmap"
  st_usage :: "(attempt_key, 'j \<times> i64) bmap"
  st_approvals :: "(string, 'j \<times> i64) bmap"
  st_retry_schedules :: "(string \<times> node_id, retry_schedule \<times> i64) bmap"
  st_retry_history :: "(attempt_key, 'j history_row) bmap"
  st_coordinators :: "(string, coordinator_row) bmap"
  st_budgets :: "(string, 'j \<times> i64) bmap"
  st_reservations :: "(attempt_key, 'j \<times> i64) bmap"
  st_loops :: "(string \<times> node_id, 'j \<times> i64) bmap"
  st_plans :: "(string, 'j \<times> i64) bmap"

text \<open>\<^verbatim>\<open>serde_json::to_string\<close> and \<^verbatim>\<open>serde_json::from_str\<close> at one type; an error is its text.\<close>

record ('a, 'j) codec =
  to_string :: "'a \<Rightarrow> (string, 'j) result"
  from_str :: "'j \<Rightarrow> (string, 'a) result"

record 'j engine =
  en_norm :: norm_env
  en_foreign_keys :: bool
  en_scan :: "attempt_key list \<Rightarrow> attempt_key list"
  en_spec :: "(graph_spec, 'j) codec"
  en_budget :: "(budget_persistent_state, 'j) codec"
  en_usage :: "(usage_accounting, 'j) codec"
  en_output :: "(node_output, 'j) codec"
  en_event :: "(graph_event, 'j) codec"
  en_schedule :: "(retry_schedule, 'j) codec"
  en_loop :: "(loop_state, 'j) codec"
  en_plan :: "(compensation_plan, 'j) codec"
  en_approval :: "(execution_approval, 'j) codec"

section \<open>Statements\<close>

definition STORE_SCHEMA_VERSION :: u32 where
  "STORE_SCHEMA_VERSION = 2"

text \<open>\<open>?\<close> on a result of \<^verbatim>\<open>serde_json\<close>.\<close>

definition json :: "(string, 'a) result \<Rightarrow> (store_error, 'a) result" where
  "json r = (case r of Inl e \<Rightarrow> Err (STE_Json e) | Inr v \<Rightarrow> Ok v)"

text \<open>A text that is read inside of a row is an error of the conversion.\<close>

definition column :: "(string, 'a) result \<Rightarrow> (store_error, 'a) result" where
  "column r = (case r of Inl e \<Rightarrow> Err (STE_Sqlite SQ_FromSqlConversionFailure) | Inr v \<Rightarrow> Ok v)"

definition ok_or :: "'e \<Rightarrow> 'a option \<Rightarrow> ('e, 'a) result" where
  "ok_or e x = (case x of None \<Rightarrow> Err e | Some v \<Rightarrow> Ok v)"

definition query_row :: "'a option \<Rightarrow> (store_error, 'a) result" where
  "query_row = ok_or (STE_Sqlite SQ_QueryReturnedNoRows)"

text \<open>A statement that needs a condition: a key that is free, a foreign key with a target.\<close>

definition constraint :: "bool \<Rightarrow> (store_error, unit) result" where
  "constraint c = (if c then Ok () else Err (STE_Sqlite SQ_ConstraintViolation))"

definition references :: "'j engine \<Rightarrow> ('k, 'v) bmap \<Rightarrow> 'k \<Rightarrow> (store_error, unit) result" where
  "references en table k = constraint (en_foreign_keys en \<longrightarrow> bm_contains table k)"

text \<open>A \<open>u64\<close> in a column of 64-bit signed integers.\<close>

definition u64_column :: "u64 \<Rightarrow> (store_error, unit) result" where
  "u64_column w = (if int (unat w) \<le> i64_max then Ok () else Err (STE_Sqlite SQ_ToSqlConversionFailure))"

text \<open>\<^verbatim>\<open>UPDATE ... WHERE\<close> the key is \<open>k\<close> and the row satisfies \<open>p\<close>.\<close>

definition update_row :: "'k::linorder \<Rightarrow> ('v \<Rightarrow> bool) \<Rightarrow> ('v \<Rightarrow> 'v) \<Rightarrow> ('k, 'v) bmap \<Rightarrow> ('k, 'v) bmap" where
  "update_row k p f table =
     (case bm_get table k of
        Some row \<Rightarrow> if p row then bm_insert k (f row) table else table
      | None \<Rightarrow> table)"

text \<open>\<^verbatim>\<open>DELETE ... WHERE\<close> the key satisfies \<open>p\<close>.\<close>

definition delete_rows :: "('k \<Rightarrow> bool) \<Rightarrow> ('k, 'v) bmap \<Rightarrow> ('k, 'v) bmap" where
  "delete_rows p table = filter (\<lambda>(k, _). \<not> p k) table"

definition delete_row :: "'k \<Rightarrow> ('v \<Rightarrow> bool) \<Rightarrow> ('k, 'v) bmap \<Rightarrow> ('k, 'v) bmap" where
  "delete_row k p table = (if is_some_and (bm_get table k) p then bm_remove k table else table)"

definition transaction ::
  "('j store \<Rightarrow> (store_error, 'j store \<times> 'a) result) \<Rightarrow> 'j store \<Rightarrow> 'j store \<times> (store_error, 'a) result" where
  "transaction body s = (case body s of Inl e \<Rightarrow> (s, Err e) | Inr (s', v) \<Rightarrow> (s', Ok v))"

definition update_run :: "string \<Rightarrow> (run_row \<Rightarrow> run_row) \<Rightarrow> 'j store \<Rightarrow> 'j store" where
  "update_run run_id f s = s\<lparr>st_runs := update_row run_id (\<lambda>_. True) f (st_runs s)\<rparr>"

definition update_node ::
  "string \<Rightarrow> node_id \<Rightarrow> ('j node_row \<Rightarrow> bool) \<Rightarrow> ('j node_row \<Rightarrow> 'j node_row) \<Rightarrow> 'j store \<Rightarrow> 'j store" where
  "update_node run_id nid p f s = s\<lparr>st_nodes := update_row (run_id, nid) p f (st_nodes s)\<rparr>"


section \<open>Events\<close>

text \<open>The names that \<^verbatim>\<open>serde\<close> gives the variants (\<^verbatim>\<open>rename_all = "kebab-case"\<close>).\<close>

fun node_status_text :: "node_status \<Rightarrow> string" where
  "node_status_text NS_Pending = ''pending''"
| "node_status_text NS_Blocked = ''blocked''"
| "node_status_text NS_Ready = ''ready''"
| "node_status_text NS_Leased = ''leased''"
| "node_status_text NS_Starting = ''starting''"
| "node_status_text NS_Running = ''running''"
| "node_status_text NS_WaitingForApproval = ''waiting-for-approval''"
| "node_status_text NS_Succeeded = ''succeeded''"
| "node_status_text NS_Failed = ''failed''"
| "node_status_text NS_TimedOut = ''timed-out''"
| "node_status_text NS_Cancelled = ''cancelled''"
| "node_status_text NS_Skipped = ''skipped''"
| "node_status_text NS_Stale = ''stale''"
| "node_status_text NS_Retrying = ''retrying''"
| "node_status_text NS_Compensating = ''compensating''"

fun run_status_text :: "run_status \<Rightarrow> string" where
  "run_status_text RS_Draft = ''draft''"
| "run_status_text RS_Validating = ''validating''"
| "run_status_text RS_Validated = ''validated''"
| "run_status_text RS_AwaitingApproval = ''awaiting-approval''"
| "run_status_text RS_Running = ''running''"
| "run_status_text RS_Pausing = ''pausing''"
| "run_status_text RS_Paused = ''paused''"
| "run_status_text RS_Draining = ''draining''"
| "run_status_text RS_Reducing = ''reducing''"
| "run_status_text RS_Verifying = ''verifying''"
| "run_status_text RS_Completed = ''completed''"
| "run_status_text RS_PartiallyCompleted = ''partially-completed''"
| "run_status_text RS_Failed = ''failed''"
| "run_status_text RS_BudgetStopped = ''budget-stopped''"
| "run_status_text RS_Cancelled = ''cancelled''"
| "run_status_text RS_Compensating = ''compensating''"
| "run_status_text RS_Compensated = ''compensated''"
| "run_status_text RS_CompensationFailed = ''compensation-failed''"
| "run_status_text RS_ManualInterventionRequired = ''manual-intervention-required''"

fun event_type :: "graph_event \<Rightarrow> string" where
  "event_type (GE_RunCreated _) = ''run_created''"
| "event_type (GE_RunStatusChanged _) = ''run_status_changed''"
| "event_type (GE_NodeStatusChanged _ _) = ''node_status_changed''"
| "event_type (GE_NodeLeased _ _ _ _) = ''node_leased''"
| "event_type (GE_NodeOutputAccepted _ _ _) = ''node_output_accepted''"
| "event_type (GE_LeaseExpired _ _) = ''lease_expired''"
| "event_type (GE_RetryScheduled _) = ''node_retry_scheduled''"
| "event_type (GE_RetryReady _ _) = ''node_retry_ready''"
| "event_type (GE_RunCancelled _) = ''run_cancelled''"
| "event_type (GE_RunRecovered _) = ''graph_recovered''"
| "event_type (GE_LoopStateUpdated _ _ _) = ''loop_state_updated''"
| "event_type (GE_CompensationUpdated _ _) = ''compensation_updated''"

definition insert_event_tx ::
  "'j engine \<Rightarrow> string \<Rightarrow> graph_event \<Rightarrow> i64 \<Rightarrow> 'j store \<Rightarrow> (store_error, 'j store) result" where
  "insert_event_tx en run_id event now s =
     bind_r (json (to_string (en_event en) event)) (\<lambda>text.
     bind_r (references en (st_runs s) run_id) (\<lambda>_.
     Ok (s\<lparr>st_events := st_events s @
       [\<lparr>er_run_id = run_id, er_event_type = event_type event, er_event_json = text,
         er_created_at_ms = now\<rparr>]\<rparr>)))"

text \<open>The graph of a run, and its ledger as the database has it.\<close>

definition spec_json_for_run :: "'j store \<Rightarrow> string \<Rightarrow> 'j option" where
  "spec_json_for_run s run_id =
     (case bm_get (st_runs s) run_id of
        None \<Rightarrow> None
      | Some run \<Rightarrow> map_option sp_spec_json (bm_get (st_specs s) (ru_spec_hash run)))"

definition load_ledger :: "'j engine \<Rightarrow> string \<Rightarrow> 'j store \<Rightarrow> (store_error, budget_ledger) result" where
  "load_ledger en run_id s =
     bind_r (query_row (spec_json_for_run s run_id)) (\<lambda>spec_raw.
     bind_r (json (from_str (en_spec en) spec_raw)) (\<lambda>spec.
     bind_r (query_row (bm_get (st_budgets s) run_id)) (\<lambda>(state_raw, _).
     bind_r (json (from_str (en_budget en) state_raw)) (\<lambda>state.
     Ok (from_persistent_state (sb_budgets (gs_spec spec)) state)))))"

definition save_ledger ::
  "'j engine \<Rightarrow> string \<Rightarrow> budget_ledger \<Rightarrow> i64 \<Rightarrow> 'j store \<Rightarrow> (store_error, 'j store) result" where
  "save_ledger en run_id ledger at_ms s =
     bind_r (json (to_string (en_budget en) (persistent_state ledger))) (\<lambda>text.
     Ok (s\<lparr>st_budgets := update_row run_id (\<lambda>_. True) (\<lambda>_. (text, at_ms)) (st_budgets s)\<rparr>))"

text \<open>An upsert that keeps the time of the first record.\<close>

definition insert_usage ::
  "'j engine \<Rightarrow> attempt_key \<Rightarrow> usage_accounting \<Rightarrow> i64 \<Rightarrow> 'j store \<Rightarrow> (store_error, 'j store) result" where
  "insert_usage en k usage at_ms s =
     bind_r (json (to_string (en_usage en) usage)) (\<lambda>text.
     Ok (s\<lparr>st_usage := bm_insert k
            (text, case bm_get (st_usage s) k of Some (_, created) \<Rightarrow> created | None \<Rightarrow> at_ms)
            (st_usage s)\<rparr>))"

definition settle_reservation ::
  "'j engine \<Rightarrow> attempt_key \<Rightarrow> usage_accounting option \<Rightarrow> i64 \<Rightarrow> 'j store \<Rightarrow> (store_error, 'j store) result" where
  "settle_reservation en k actual at_ms s =
     bind_r (load_ledger en (fst k) s) (\<lambda>ledger.
     case reconcile ledger k actual of
       (_, Inl e) \<Rightarrow> Err (STE_Budget e)
     | (ledger', Inr charged) \<Rightarrow>
         bind_r (save_ledger en (fst k) ledger' at_ms s) (\<lambda>s1.
         insert_usage en k charged at_ms (s1\<lparr>st_reservations := bm_remove k (st_reservations s1)\<rparr>)))"

definition reconcile_budget_tx ::
  "'j engine \<Rightarrow> string \<Rightarrow> node_id \<Rightarrow> u32 \<Rightarrow> usage_accounting option \<Rightarrow> i64 \<Rightarrow> 'j store
   \<Rightarrow> (store_error, 'j store) result" where
  "reconcile_budget_tx en run_id nid attempt actual at_ms s =
     (if bm_contains (st_reservations s) (run_id, nid, attempt)
      then settle_reservation en (run_id, nid, attempt) actual at_ms s
      else Ok s)"

fun run_status_of_plan :: "compensation_plan_status \<Rightarrow> run_status" where
  "run_status_of_plan CPS_Pending = RS_Compensating"
| "run_status_of_plan CPS_Running = RS_Compensating"
| "run_status_of_plan CPS_Completed = RS_Compensated"
| "run_status_of_plan CPS_Failed = RS_CompensationFailed"
| "run_status_of_plan CPS_ManualInterventionRequired = RS_ManualInterventionRequired"

definition set_run_status :: "string \<Rightarrow> run_status \<Rightarrow> i64 \<Rightarrow> 'j store \<Rightarrow> 'j store" where
  "set_run_status run_id status now =
     update_run run_id (\<lambda>r. r\<lparr>ru_status := status, ru_updated_at_ms := now\<rparr>)"

definition end_lease :: "node_status \<Rightarrow> i64 \<Rightarrow> 'j node_row \<Rightarrow> 'j node_row" where
  "end_lease status now r =
     r\<lparr>nr_status := status, nr_lease_owner := None, nr_lease_expires_at_ms := None, nr_updated_at_ms := now\<rparr>"

fun apply_event_tx ::
  "'j engine \<Rightarrow> string \<Rightarrow> graph_event \<Rightarrow> i64 \<Rightarrow> 'j store \<Rightarrow> (store_error, 'j store) result" where
  "apply_event_tx en run_id (GE_RunCreated status) now s = Ok (set_run_status run_id status now s)"
| "apply_event_tx en run_id (GE_RunStatusChanged status) now s = Ok (set_run_status run_id status now s)"
| "apply_event_tx en run_id (GE_NodeStatusChanged nid status) now s =
     Ok (update_node run_id nid (\<lambda>_. True) (\<lambda>r. r\<lparr>nr_status := status, nr_updated_at_ms := now\<rparr>) s)"
| "apply_event_tx en run_id (GE_NodeLeased nid attempt owner lease_expires_at_ms) now s =
     (let s1 = update_node run_id nid (\<lambda>_. True)
                 (\<lambda>r. r\<lparr>nr_status := NS_Leased, nr_attempt := attempt, nr_lease_owner := Some owner,
                        nr_lease_expires_at_ms := Some lease_expires_at_ms, nr_updated_at_ms := now\<rparr>) s
      in Ok (s1\<lparr>st_leases := bm_insert (run_id, nid)
           \<lparr>lr_owner = owner, lr_attempt = attempt, lr_expires_at_ms = lease_expires_at_ms\<rparr> (st_leases s1)\<rparr>))"
| "apply_event_tx en run_id (GE_NodeOutputAccepted nid attempt status) now s =
     (let s1 = update_node run_id nid (\<lambda>_. True) (end_lease status now) s
      in Ok (s1\<lparr>st_leases := bm_remove (run_id, nid) (st_leases s1)\<rparr>))"
| "apply_event_tx en run_id (GE_LeaseExpired nid attempt) now s =
     (let s1 = update_node run_id nid (\<lambda>r. nr_attempt r = attempt) (end_lease NS_Stale now) s;
          s2 = s1\<lparr>st_leases := delete_row (run_id, nid) (\<lambda>l. lr_attempt l = attempt) (st_leases s1)\<rparr>
      in reconcile_budget_tx en run_id nid attempt None now s2)"
| "apply_event_tx en run_id (GE_RetryScheduled schedule) now s =
     (let nid = rsch_node_id schedule;
          s1 = update_node run_id nid (\<lambda>r. nr_attempt r = rsch_prior_attempt schedule)
                 (end_lease NS_Retrying now) s
      in Ok (s1\<lparr>st_leases := bm_remove (run_id, nid) (st_leases s1)\<rparr>))"
| "apply_event_tx en run_id (GE_RetryReady nid next_attempt) now s =
     Ok (update_node run_id nid (\<lambda>r. nr_status r = NS_Retrying)
           (\<lambda>r. r\<lparr>nr_status := NS_Ready, nr_updated_at_ms := now\<rparr>) s)"
| "apply_event_tx en run_id (GE_RunCancelled reason) now s = Ok (set_run_status run_id RS_Cancelled now s)"
| "apply_event_tx en run_id (GE_RunRecovered owner) now s =
     Ok (update_run run_id (\<lambda>r. r\<lparr>ru_updated_at_ms := now\<rparr>) s)"
| "apply_event_tx en run_id (GE_LoopStateUpdated nid iteration status) now s = Ok s"
| "apply_event_tx en run_id (GE_CompensationUpdated status cursor) now s =
     Ok (set_run_status run_id (run_status_of_plan status) now s)"

text \<open>Most operations write an event and apply it.\<close>

definition record_event ::
  "'j engine \<Rightarrow> string \<Rightarrow> graph_event \<Rightarrow> i64 \<Rightarrow> 'j store \<Rightarrow> (store_error, 'j store) result" where
  "record_event en run_id event now s =
     bind_r (insert_event_tx en run_id event now s) (apply_event_tx en run_id event now)"


section \<open>Runs\<close>

definition default_persistent_state :: budget_persistent_state where
  "default_persistent_state = \<lparr>bps_charged = default_usage, bps_reservations = [], bps_stopped = None\<rparr>"

text \<open>The store of a database file that does not exist yet.\<close>

definition empty_store :: "'j store" where
  "empty_store =
     \<lparr>st_schema_version = None, st_specs = [], st_runs = [], st_active_runs = [], st_nodes = [],
      st_events = [], st_leases = [], st_usage = [], st_approvals = [], st_retry_schedules = [],
      st_retry_history = [], st_coordinators = [], st_budgets = [], st_reservations = [],
      st_loops = [], st_plans = []\<rparr>"

definition migrate :: "'j store \<Rightarrow> (store_error, 'j store) result" where
  "migrate s =
     (if is_some_and (st_schema_version s) (\<lambda>found. STORE_SCHEMA_VERSION < found)
      then Err (STE_UnsupportedSchema (unwrap_or (st_schema_version s) 0) STORE_SCHEMA_VERSION)
      else Ok (s\<lparr>st_schema_version := Some STORE_SCHEMA_VERSION\<rparr>))"

definition ensure_run :: "'j store \<Rightarrow> string \<Rightarrow> (store_error, unit) result" where
  "ensure_run s run_id = (if bm_contains (st_runs s) run_id then Ok () else Err (STE_RunNotFound run_id))"

definition insert_spec :: "string \<Rightarrow> 'j spec_row \<Rightarrow> 'j store \<Rightarrow> 'j store" where
  "insert_spec hash row s =
     (if bm_contains (st_specs s) hash then s else s\<lparr>st_specs := bm_insert hash row (st_specs s)\<rparr>)"

definition insert_node :: "string \<Rightarrow> i64 \<Rightarrow> node_spec \<Rightarrow> 'j store \<Rightarrow> (store_error, 'j store) result" where
  "insert_node run_id now node s =
     bind_r (constraint (\<not> bm_contains (st_nodes s) (run_id, ns_id node))) (\<lambda>_.
     Ok (s\<lparr>st_nodes := bm_insert (run_id, ns_id node)
       \<lparr>nr_status = NS_Pending, nr_attempt = 0, nr_lease_owner = None, nr_lease_expires_at_ms = None,
        nr_output_json = None, nr_updated_at_ms = now\<rparr> (st_nodes s)\<rparr>))"

definition create_run_tx ::
  "'j engine \<Rightarrow> string \<Rightarrow> graph_spec \<Rightarrow> string option \<Rightarrow> string \<Rightarrow> i64 \<Rightarrow> string \<Rightarrow> 'j \<Rightarrow> 'j store
   \<Rightarrow> (store_error, 'j store \<times> unit) result" where
  "create_run_tx en run_id spec session_id repo_root now hash spec_json s =
     (let s1 = insert_spec hash
                 \<lparr>sp_name = gm_name (gs_metadata spec), sp_spec_json = spec_json, sp_created_at_ms = now\<rparr> s
      in bind_r (constraint (\<not> bm_contains (st_runs s1) run_id)) (\<lambda>_.
         let s2 = s1\<lparr>st_runs := bm_insert run_id
                    \<lparr>ru_status = RS_AwaitingApproval, ru_spec_hash = hash, ru_session_id = session_id,
                     ru_repo_root = repo_root, ru_created_at_ms = now, ru_updated_at_ms = now\<rparr>
                    (st_runs s1)\<rparr>
         in bind_r (fold_r (insert_node run_id now) (sb_nodes (gs_spec spec)) s2) (\<lambda>s3.
            bind_r (insert_event_tx en run_id (GE_RunCreated RS_AwaitingApproval) now s3) (\<lambda>s4.
            bind_r (json (to_string (en_budget en) default_persistent_state)) (\<lambda>text.
            bind_r (constraint (\<not> bm_contains (st_budgets s4) run_id)) (\<lambda>_.
            Ok (s4\<lparr>st_budgets := bm_insert run_id (text, now) (st_budgets s4)\<rparr>, ())))))))"

definition create_run_with_id ::
  "'j engine \<Rightarrow> string \<Rightarrow> graph_spec \<Rightarrow> string option \<Rightarrow> string \<Rightarrow> i64 \<Rightarrow> 'j store
   \<Rightarrow> 'j store \<times> (store_error, unit) result" where
  "create_run_with_id en run_id spec session_id repo_root now s =
     (case canonical_graph_hash (en_norm en) spec of
        Inl e \<Rightarrow> (s, Err (STE_Normalization e))
      | Inr hash \<Rightarrow>
          (case json (to_string (en_spec en) spec) of
             Inl e \<Rightarrow> (s, Err e)
           | Inr spec_json \<Rightarrow>
               transaction (create_run_tx en run_id spec session_id repo_root now hash spec_json) s))"

text \<open>The identifier of a new run is drawn by \<open>new_v4\<close>.\<close>

definition create_run ::
  "'j engine \<Rightarrow> string \<Rightarrow> graph_spec \<Rightarrow> string option \<Rightarrow> string \<Rightarrow> i64 \<Rightarrow> 'j store
   \<Rightarrow> 'j store \<times> (store_error, string) result" where
  "create_run en new_v4 spec session_id repo_root now s =
     (case create_run_with_id en new_v4 spec session_id repo_root now s of
        (s', Inl e) \<Rightarrow> (s', Err e)
      | (s', Inr _) \<Rightarrow> (s', Ok new_v4))"

text \<open>An operation that needs the run to exist.\<close>

definition in_run ::
  "string \<Rightarrow> ('j store \<Rightarrow> 'j store \<times> (store_error, 'a) result) \<Rightarrow> 'j store
   \<Rightarrow> 'j store \<times> (store_error, 'a) result" where
  "in_run run_id op s = (case ensure_run s run_id of Inl e \<Rightarrow> (s, Err e) | Inr _ \<Rightarrow> op s)"

definition with_unit :: "(store_error, 'j store) result \<Rightarrow> (store_error, 'j store \<times> unit) result" where
  "with_unit r = bind_r r (\<lambda>s. Ok (s, ()))"

definition append_event ::
  "'j engine \<Rightarrow> string \<Rightarrow> graph_event \<Rightarrow> i64 \<Rightarrow> 'j store \<Rightarrow> 'j store \<times> (store_error, unit) result" where
  "append_event en run_id event now =
     in_run run_id (transaction (\<lambda>s. with_unit (record_event en run_id event now s)))"

definition store_run_status :: "'j store \<Rightarrow> string \<Rightarrow> (store_error, run_status) result" where
  "store_run_status s run_id =
     ok_or (STE_RunNotFound run_id) (map_option ru_status (bm_get (st_runs s) run_id))"

definition attach_active_run ::
  "string \<Rightarrow> string \<Rightarrow> string \<Rightarrow> i64 \<Rightarrow> 'j store \<Rightarrow> 'j store \<times> (store_error, unit) result" where
  "attach_active_run session_id repo_root run_id now =
     in_run run_id (\<lambda>s.
       (s\<lparr>st_active_runs := bm_insert (session_id, repo_root) (run_id, now) (st_active_runs s)\<rparr>, Ok ()))"

definition active_run_for_session :: "'j store \<Rightarrow> string \<Rightarrow> string \<Rightarrow> string option" where
  "active_run_for_session s session_id repo_root =
     map_option fst (bm_get (st_active_runs s) (session_id, repo_root))"

definition graph_spec_for_run :: "'j engine \<Rightarrow> 'j store \<Rightarrow> string \<Rightarrow> (store_error, graph_spec) result" where
  "graph_spec_for_run en s run_id =
     bind_r (ok_or (STE_RunNotFound run_id) (spec_json_for_run s run_id)) (\<lambda>raw.
     json (from_str (en_spec en) raw))"

definition store_node_status :: "'j store \<Rightarrow> string \<Rightarrow> node_id \<Rightarrow> (store_error, node_status) result" where
  "store_node_status s run_id nid =
     ok_or (STE_NodeNotFound run_id nid) (map_option nr_status (bm_get (st_nodes s) (run_id, nid)))"

definition mark_run_status ::
  "'j engine \<Rightarrow> string \<Rightarrow> run_status \<Rightarrow> i64 \<Rightarrow> 'j store \<Rightarrow> 'j store \<times> (store_error, unit) result" where
  "mark_run_status en run_id status = append_event en run_id (GE_RunStatusChanged status)"

definition mark_node_status ::
  "'j engine \<Rightarrow> string \<Rightarrow> node_id \<Rightarrow> node_status \<Rightarrow> i64 \<Rightarrow> 'j store \<Rightarrow> 'j store \<times> (store_error, unit) result" where
  "mark_node_status en run_id nid status = append_event en run_id (GE_NodeStatusChanged nid status)"

section \<open>Leases\<close>

definition may_lease :: "node_status \<Rightarrow> bool" where
  "may_lease status \<longleftrightarrow> status \<in> {NS_Pending, NS_Blocked, NS_Ready, NS_Retrying, NS_Stale}"

text \<open>An attempt number is a plain sum here, which wraps.\<close>

definition lease_node ::
  "'j engine \<Rightarrow> string \<Rightarrow> node_id \<Rightarrow> string \<Rightarrow> i64 \<Rightarrow> i64 \<Rightarrow> 'j store
   \<Rightarrow> 'j store \<times> (store_error, node_lease option) result" where
  "lease_node en run_id nid owner ttl_ms now s =
     (case bm_get (st_nodes s) (run_id, nid) of
        None \<Rightarrow> (s, Err (STE_NodeNotFound run_id nid))
      | Some row \<Rightarrow>
          if \<not> may_lease (nr_status row) then (s, Ok None)
          else
            let attempt = nr_attempt row + 1;
                expires = i64_sat_add now (max ttl_ms 1)
            in transaction (\<lambda>s. bind_r
                 (record_event en run_id (GE_NodeLeased nid attempt owner expires) now s) (\<lambda>s'.
                 Ok (s', Some \<lparr>nl_run_id = run_id, nl_node_id = nid, nl_attempt = attempt,
                   nl_owner = owner, nl_lease_expires_at_ms = expires\<rparr>))) s)"

definition stop_run_budget ::
  "'j engine \<Rightarrow> string \<Rightarrow> budget_ledger \<Rightarrow> budget_error \<Rightarrow> i64 \<Rightarrow> 'j store
   \<Rightarrow> (store_error, 'j store \<times> lease_reservation_outcome) result" where
  "stop_run_budget en run_id ledger error at_ms s =
     (let reason = Reason_Error error
      in bind_r (save_ledger en run_id (ledger\<lparr>bl_stopped := Some reason\<rparr>) at_ms s) (\<lambda>s1.
         bind_r (record_event en run_id (GE_RunStatusChanged RS_BudgetStopped) at_ms s1) (\<lambda>s2.
         Ok (s2, LRO_BudgetStopped reason))))"

definition grant_lease ::
  "'j engine \<Rightarrow> attempt_key \<Rightarrow> string \<Rightarrow> i64 \<Rightarrow> usage_accounting \<Rightarrow> budget_ledger \<Rightarrow> i64 \<Rightarrow> 'j store
   \<Rightarrow> (store_error, 'j store \<times> lease_reservation_outcome) result" where
  "grant_lease en k owner ttl_ms estimate ledger at_ms s =
     (case k of (run_id, nid, attempt) \<Rightarrow>
        bind_r (save_ledger en run_id ledger at_ms s) (\<lambda>s1.
        bind_r (json (to_string (en_usage en) estimate)) (\<lambda>text.
        bind_r (constraint (\<not> bm_contains (st_reservations s1) k)) (\<lambda>_.
        let s2 = s1\<lparr>st_reservations := bm_insert k (text, at_ms) (st_reservations s1)\<rparr>;
            expires = i64_sat_add at_ms (max ttl_ms 1)
        in bind_r (record_event en run_id (GE_NodeLeased nid attempt owner expires) at_ms s2) (\<lambda>s3.
           Ok (s3, LRO_Leased \<lparr>nl_run_id = run_id, nl_node_id = nid, nl_attempt = attempt,
             nl_owner = owner, nl_lease_expires_at_ms = expires\<rparr>))))))"

definition reserve_and_lease_tx ::
  "'j engine \<Rightarrow> string \<Rightarrow> node_id \<Rightarrow> string \<Rightarrow> i64 \<Rightarrow> usage_accounting \<Rightarrow> i64 \<Rightarrow> 'j store
   \<Rightarrow> (store_error, 'j store \<times> lease_reservation_outcome) result" where
  "reserve_and_lease_tx en run_id nid owner ttl_ms estimate at_ms s =
     (case bm_get (st_nodes s) (run_id, nid) of
        None \<Rightarrow> Err (STE_NodeNotFound run_id nid)
      | Some row \<Rightarrow>
          if \<not> may_lease (nr_status row) then Ok (s, LRO_NotRunnable)
          else bind_r (load_ledger en run_id s) (\<lambda>ledger.
            let k = (run_id, nid, sat_add (nr_attempt row) 1)
            in case reserve ledger k estimate of
                 (l, Inl (Budget_Exceeded a b c d)) \<Rightarrow>
                   stop_run_budget en run_id l (Budget_Exceeded a b c d) at_ms s
               | (l, Inl (Budget_Stopped r)) \<Rightarrow> stop_run_budget en run_id l (Budget_Stopped r) at_ms s
               | (l, _) \<Rightarrow> grant_lease en k owner ttl_ms estimate l at_ms s))"

definition reserve_and_lease_node ::
  "'j engine \<Rightarrow> string \<Rightarrow> node_id \<Rightarrow> string \<Rightarrow> i64 \<Rightarrow> usage_accounting \<Rightarrow> i64 \<Rightarrow> 'j store
   \<Rightarrow> 'j store \<times> (store_error, lease_reservation_outcome) result" where
  "reserve_and_lease_node en run_id nid owner ttl_ms estimate at_ms =
     transaction (reserve_and_lease_tx en run_id nid owner ttl_ms estimate at_ms)"


definition accept_and_reconcile_tx ::
  "'j engine \<Rightarrow> string \<Rightarrow> node_id \<Rightarrow> u32 \<Rightarrow> node_output \<Rightarrow> usage_accounting option \<Rightarrow> i64 \<Rightarrow> 'j store
   \<Rightarrow> (store_error, 'j store \<times> bool) result" where
  "accept_and_reconcile_tx en run_id nid attempt output actual_usage at_ms s =
     (case bm_get (st_nodes s) (run_id, nid) of
        None \<Rightarrow> Err (STE_NodeNotFound run_id nid)
      | Some row \<Rightarrow>
          if nr_attempt row \<noteq> attempt then Ok (s, False)
          else
            bind_r (settle_reservation en (run_id, nid, attempt) actual_usage at_ms s) (\<lambda>s1.
            bind_r (insert_event_tx en run_id (GE_NodeOutputAccepted nid attempt (no_status output)) at_ms s1) (\<lambda>s2.
            bind_r (json (to_string (en_output en) output)) (\<lambda>text.
            let s3 = update_node run_id nid (\<lambda>r. nr_attempt r = attempt)
                       (\<lambda>r. end_lease (no_status output) at_ms (r\<lparr>nr_output_json := Some text\<rparr>)) s2
            in Ok (s3\<lparr>st_leases := delete_row (run_id, nid) (\<lambda>l. lr_attempt l = attempt) (st_leases s3)\<rparr>,
                 True)))))"

definition accept_output_and_reconcile ::
  "'j engine \<Rightarrow> string \<Rightarrow> node_id \<Rightarrow> u32 \<Rightarrow> node_output \<Rightarrow> usage_accounting option \<Rightarrow> i64 \<Rightarrow> 'j store
   \<Rightarrow> 'j store \<times> (store_error, bool) result" where
  "accept_output_and_reconcile en run_id nid attempt output actual_usage at_ms =
     transaction (accept_and_reconcile_tx en run_id nid attempt output actual_usage at_ms)"

text \<open>The row of the lease stays in the table \<^verbatim>\<open>leases\<close> here.\<close>

definition accept_output ::
  "'j engine \<Rightarrow> string \<Rightarrow> node_id \<Rightarrow> u32 \<Rightarrow> node_output \<Rightarrow> i64 \<Rightarrow> 'j store
   \<Rightarrow> 'j store \<times> (store_error, bool) result" where
  "accept_output en run_id nid attempt output now s =
     (case bm_get (st_nodes s) (run_id, nid) of
        None \<Rightarrow> (s, Err (STE_NodeNotFound run_id nid))
      | Some row \<Rightarrow>
          if nr_attempt row \<noteq> attempt then (s, Ok False)
          else case json (to_string (en_output en) output) of
                 Inl e \<Rightarrow> (s, Err e)
               | Inr text \<Rightarrow>
                   transaction (\<lambda>s.
                     bind_r (insert_event_tx en run_id
                       (GE_NodeOutputAccepted nid attempt (no_status output)) now s) (\<lambda>s1.
                     Ok (update_node run_id nid (\<lambda>_. True)
                       (\<lambda>r. end_lease (no_status output) now (r\<lparr>nr_output_json := Some text\<rparr>)) s1, True))) s)"

definition record_usage ::
  "'j engine \<Rightarrow> string \<Rightarrow> node_id \<Rightarrow> u32 \<Rightarrow> usage_accounting \<Rightarrow> i64 \<Rightarrow> 'j store
   \<Rightarrow> 'j store \<times> (store_error, unit) result" where
  "record_usage en run_id nid attempt usage now =
     in_run run_id (transaction (\<lambda>s. with_unit (insert_usage en (run_id, nid, attempt) usage now s)))"

definition budget_state :: "'j engine \<Rightarrow> 'j store \<Rightarrow> string \<Rightarrow> (store_error, budget_persistent_state) result" where
  "budget_state en s run_id =
     bind_r (ok_or (STE_RunNotFound run_id) (bm_get (st_budgets s) run_id)) (\<lambda>(raw, _).
     json (from_str (en_budget en) raw))"

text \<open>The leases that have run out, each expired in a transaction of its own; the clock at the start of
  each is a function of the store it finds. The code leaves the order of the rows open.\<close>

definition expired_leases :: "'j engine \<Rightarrow> i64 \<Rightarrow> 'j store \<Rightarrow> attempt_key list" where
  "expired_leases en now s =
     en_scan en (map (\<lambda>((run_id, nid), row). (run_id, nid, nr_attempt row))
       (filter (\<lambda>(_, row). nr_status row = NS_Leased \<and>
          is_some_and (nr_lease_expires_at_ms row) (\<lambda>t. t \<le> now)) (st_nodes s)))"

fun expire_each ::
  "'j engine \<Rightarrow> ('j store \<Rightarrow> i64) \<Rightarrow> attempt_key list \<Rightarrow> 'j store \<Rightarrow> 'j store \<times> (store_error, unit) result" where
  "expire_each en clock [] s = (s, Ok ())"
| "expire_each en clock ((run_id, nid, attempt) # ks) s =
     (case append_event en run_id (GE_LeaseExpired nid attempt) (clock s) s of
        (s', Inl e) \<Rightarrow> (s', Err e)
      | (s', Inr _) \<Rightarrow> expire_each en clock ks s')"

definition expire_leases ::
  "'j engine \<Rightarrow> ('j store \<Rightarrow> i64) \<Rightarrow> i64 \<Rightarrow> 'j store \<Rightarrow> 'j store \<times> (store_error, nat) result" where
  "expire_leases en clock now s =
     (case expire_each en clock (expired_leases en now s) s of
        (s', Inl e) \<Rightarrow> (s', Err e)
      | (s', Inr _) \<Rightarrow> (s', Ok (length (expired_leases en now s))))"

section \<open>Loops and compensation\<close>

definition save_loop_state ::
  "'j engine \<Rightarrow> string \<Rightarrow> node_id \<Rightarrow> loop_state \<Rightarrow> i64 \<Rightarrow> 'j store \<Rightarrow> 'j store \<times> (store_error, unit) result" where
  "save_loop_state en run_id nid state at_ms =
     in_run run_id (transaction (\<lambda>s.
       bind_r (json (to_string (en_loop en) state)) (\<lambda>text.
       bind_r (references en (st_nodes s) (run_id, nid)) (\<lambda>_.
       with_unit (record_event en run_id (GE_LoopStateUpdated nid (lo_iteration state) (lo_status state)) at_ms
         (s\<lparr>st_loops := bm_insert (run_id, nid) (text, at_ms) (st_loops s)\<rparr>))))))"

definition store_loop_state ::
  "'j engine \<Rightarrow> 'j store \<Rightarrow> string \<Rightarrow> node_id \<Rightarrow> (store_error, loop_state option) result" where
  "store_loop_state en s run_id nid =
     (case bm_get (st_loops s) (run_id, nid) of
        None \<Rightarrow> Ok None
      | Some (raw, _) \<Rightarrow> bind_r (json (from_str (en_loop en) raw)) (\<lambda>v. Ok (Some v)))"

definition save_compensation_plan ::
  "'j engine \<Rightarrow> string \<Rightarrow> compensation_plan \<Rightarrow> i64 \<Rightarrow> 'j store \<Rightarrow> 'j store \<times> (store_error, unit) result" where
  "save_compensation_plan en run_id plan at_ms =
     in_run run_id (transaction (\<lambda>s.
       bind_r (json (to_string (en_plan en) plan)) (\<lambda>text.
       with_unit (record_event en run_id (GE_CompensationUpdated (cpl_status plan) (cpl_cursor plan)) at_ms
         (s\<lparr>st_plans := bm_insert run_id (text, at_ms) (st_plans s)\<rparr>)))))"

definition store_compensation_plan ::
  "'j engine \<Rightarrow> 'j store \<Rightarrow> string \<Rightarrow> (store_error, compensation_plan option) result" where
  "store_compensation_plan en s run_id =
     (case bm_get (st_plans s) run_id of
        None \<Rightarrow> Ok None
      | Some (raw, _) \<Rightarrow> bind_r (json (from_str (en_plan en) raw)) (\<lambda>v. Ok (Some v)))"

section \<open>Retries\<close>

definition insert_history ::
  "attempt_key \<Rightarrow> 'j history_row \<Rightarrow> 'j store \<Rightarrow> 'j store" where
  "insert_history k row s =
     (if bm_contains (st_retry_history s) k then s
      else s\<lparr>st_retry_history := bm_insert k row (st_retry_history s)\<rparr>)"

definition schedule_retry ::
  "'j engine \<Rightarrow> retry_schedule \<Rightarrow> i64 \<Rightarrow> 'j store \<Rightarrow> 'j store \<times> (store_error, unit) result" where
  "schedule_retry en schedule now =
     (let run_id = rsch_run_id schedule; nid = rsch_node_id schedule
      in in_run run_id (transaction (\<lambda>s.
           bind_r (u64_column (rsch_chosen_delay_ms schedule)) (\<lambda>_.
           bind_r (u64_column (unwrap_or (rsch_retry_after_ms schedule) 0)) (\<lambda>_.
           bind_r (references en (st_nodes s) (run_id, nid)) (\<lambda>_.
           let s1 = s\<lparr>st_retry_schedules := bm_insert (run_id, nid) (schedule, now) (st_retry_schedules s)\<rparr>
           in bind_r (json (to_string (en_schedule en) schedule)) (\<lambda>text.
              with_unit (record_event en run_id (GE_RetryScheduled schedule) now
                (insert_history (run_id, nid, rsch_prior_attempt schedule)
                   \<lparr>hr_schedule_json = text, hr_chosen_delay_ms = rsch_chosen_delay_ms schedule,
                    hr_created_at_ms = now\<rparr> s1)))))))))"

definition store_retry_schedule :: "'j store \<Rightarrow> string \<Rightarrow> node_id \<Rightarrow> retry_schedule option" where
  "store_retry_schedule s run_id nid = map_option fst (bm_get (st_retry_schedules s) (run_id, nid))"

definition due_retries :: "string option \<Rightarrow> i64 \<Rightarrow> 'j store \<Rightarrow> retry_schedule list" where
  "due_retries run_id at_ms s =
     (let due = filter (\<lambda>r. rsch_next_attempt_at_ms r \<le> at_ms) (map (fst \<circ> snd) (st_retry_schedules s))
      in case run_id of
           Some run \<Rightarrow>
             sort_key (\<lambda>r. (rsch_next_attempt_at_ms r, rsch_node_id r))
               (filter (\<lambda>r. rsch_run_id r = run) due)
         | None \<Rightarrow> sort_key (\<lambda>r. (rsch_next_attempt_at_ms r, rsch_run_id r, rsch_node_id r)) due)"

definition activate_retry ::
  "'j engine \<Rightarrow> i64 \<Rightarrow> retry_schedule \<Rightarrow> 'j store \<Rightarrow> (store_error, 'j store) result" where
  "activate_retry en at_ms r s =
     bind_r (record_event en (rsch_run_id r) (GE_RetryReady (rsch_node_id r) (rsch_next_attempt r)) at_ms s) (\<lambda>s'.
     Ok (s'\<lparr>st_retry_schedules := bm_remove (rsch_run_id r, rsch_node_id r) (st_retry_schedules s')\<rparr>))"

definition activate_due_retries_matching ::
  "'j engine \<Rightarrow> string option \<Rightarrow> i64 \<Rightarrow> 'j store \<Rightarrow> 'j store \<times> (store_error, retry_schedule list) result" where
  "activate_due_retries_matching en run_id at_ms =
     transaction (\<lambda>s.
       let schedules = due_retries run_id at_ms s
       in bind_r (fold_r (activate_retry en at_ms) schedules s) (\<lambda>s'. Ok (s', schedules)))"

definition activate_due_retries ::
  "'j engine \<Rightarrow> i64 \<Rightarrow> 'j store \<Rightarrow> 'j store \<times> (store_error, retry_schedule list) result" where
  "activate_due_retries en = activate_due_retries_matching en None"

definition activate_due_retries_for_run ::
  "'j engine \<Rightarrow> string \<Rightarrow> i64 \<Rightarrow> 'j store \<Rightarrow> 'j store \<times> (store_error, retry_schedule list) result" where
  "activate_due_retries_for_run en run_id = activate_due_retries_matching en (Some run_id)"

definition next_retry_at :: "'j store \<Rightarrow> string \<Rightarrow> i64 option" where
  "next_retry_at s run_id =
     (case map (\<lambda>(_, r, _). rsch_next_attempt_at_ms r) (filter (\<lambda>((run, _), _). run = run_id) (st_retry_schedules s)) of
        [] \<Rightarrow> None
      | t # ts \<Rightarrow> Some (foldl min t ts))"

text \<open>\<^verbatim>\<open>SUM\<close> overflows as a 64-bit signed integer, \<^verbatim>\<open>COUNT\<close> is read as a \<open>u32\<close>.\<close>

definition retry_history_totals ::
  "'j store \<Rightarrow> string \<Rightarrow> node_id \<Rightarrow> (store_error, u64 \<times> u32 \<times> u32) result" where
  "retry_history_totals s run_id nid =
     (let rows = map snd (filter (\<lambda>((run, n, _), _). run = run_id \<and> n = nid) (st_retry_history s));
          delay = sum_list (map (\<lambda>r. unat (hr_chosen_delay_ms r)) rows);
          count = length rows
      in if i64_max < int delay then Err (STE_Sqlite SQ_IntegerOverflow)
         else if 2 ^ 32 \<le> count then Err (STE_Sqlite SQ_FromSqlConversionFailure)
         else Ok (of_nat delay, of_nat count, of_nat count))"


section \<open>Recovery, coordinators and reports\<close>

definition run_created_at_ms :: "'j store \<Rightarrow> string \<Rightarrow> (store_error, i64) result" where
  "run_created_at_ms s run_id =
     ok_or (STE_RunNotFound run_id) (map_option ru_created_at_ms (bm_get (st_runs s) run_id))"

definition terminal_run_statuses :: "run_status list" where
  "terminal_run_statuses =
     [RS_Completed, RS_PartiallyCompleted, RS_Failed, RS_Cancelled, RS_Compensated,
      RS_CompensationFailed, RS_ManualInterventionRequired]"

definition nonterminal_runs :: "'j store \<Rightarrow> recoverable_run list" where
  "nonterminal_runs s =
     sort_key (\<lambda>r. (rr_created_at_ms r, rr_run_id r))
       (map (\<lambda>(run_id, row).
          \<lparr>rr_run_id = run_id, rr_status = ru_status row, rr_session_id = ru_session_id row,
           rr_repo_root = ru_repo_root row, rr_created_at_ms = ru_created_at_ms row,
           rr_updated_at_ms = ru_updated_at_ms row\<rparr>)
        (filter (\<lambda>(_, row). ru_status row \<notin> set terminal_run_statuses) (st_runs s)))"

text \<open>An upsert that applies only to a lease of the same owner or one that has run out.\<close>

definition try_acquire_coordinator ::
  "string \<Rightarrow> string \<Rightarrow> i64 \<Rightarrow> i64 \<Rightarrow> 'j store \<Rightarrow> 'j store \<times> bool" where
  "try_acquire_coordinator scope owner at_ms ttl_ms s =
     (let row = \<lparr>co_owner = owner, co_expires_at_ms = i64_sat_add at_ms (max ttl_ms 1), co_heartbeat_at_ms = at_ms\<rparr>
      in if is_none_or (bm_get (st_coordinators s) scope)
              (\<lambda>old. co_owner old = owner \<or> co_expires_at_ms old \<le> at_ms)
         then (s\<lparr>st_coordinators := bm_insert scope row (st_coordinators s)\<rparr>, True)
         else (s, False))"

definition heartbeat_coordinator ::
  "string \<Rightarrow> string \<Rightarrow> i64 \<Rightarrow> i64 \<Rightarrow> 'j store \<Rightarrow> 'j store \<times> bool" where
  "heartbeat_coordinator scope owner at_ms ttl_ms s =
     (let live = (\<lambda>row. co_owner row = owner \<and> at_ms < co_expires_at_ms row)
      in (s\<lparr>st_coordinators := update_row scope live
             (\<lambda>row. row\<lparr>co_expires_at_ms := i64_sat_add at_ms (max ttl_ms 1), co_heartbeat_at_ms := at_ms\<rparr>)
             (st_coordinators s)\<rparr>,
          is_some_and (bm_get (st_coordinators s) scope) live))"

definition store_coordinator_lease :: "'j store \<Rightarrow> string \<Rightarrow> coordinator_lease option" where
  "store_coordinator_lease s scope =
     map_option (\<lambda>row. \<lparr>cl_scope = scope, cl_owner = co_owner row, cl_expires_at_ms = co_expires_at_ms row,
       cl_heartbeat_at_ms = co_heartbeat_at_ms row\<rparr>) (bm_get (st_coordinators s) scope)"

fun map_r :: "('a \<Rightarrow> ('e, 'b) result) \<Rightarrow> 'a list \<Rightarrow> ('e, 'b list) result" where
  "map_r f [] = Ok []"
| "map_r f (x # xs) = bind_r (f x) (\<lambda>y. bind_r (map_r f xs) (\<lambda>ys. Ok (y # ys)))"

definition events_for_run :: "'j engine \<Rightarrow> 'j store \<Rightarrow> string \<Rightarrow> (store_error, graph_event list) result" where
  "events_for_run en s run_id =
     map_r (\<lambda>e. column (from_str (en_event en) (er_event_json e)))
       (filter (\<lambda>e. er_run_id e = run_id) (st_events s))"

definition node_snapshot ::
  "'j engine \<Rightarrow> node_id \<Rightarrow> 'j node_row \<Rightarrow> (store_error, node_state_snapshot) result" where
  "node_snapshot en nid row =
     bind_r (case nr_output_json row of
               None \<Rightarrow> Ok None
             | Some raw \<Rightarrow> bind_r (column (from_str (en_output en) raw)) (\<lambda>v. Ok (Some v))) (\<lambda>output.
     Ok \<lparr>nss_node_id = nid, nss_status = nr_status row, nss_attempt = nr_attempt row,
         nss_lease_owner = nr_lease_owner row, nss_lease_expires_at_ms = nr_lease_expires_at_ms row,
         nss_output = output\<rparr>)"

definition replay_run :: "'j engine \<Rightarrow> 'j store \<Rightarrow> string \<Rightarrow> (store_error, graph_run_snapshot) result" where
  "replay_run en s run_id =
     bind_r (ok_or (STE_RunNotFound run_id) (bm_get (st_runs s) run_id)) (\<lambda>run.
     bind_r (map_r (\<lambda>((_, nid), row). node_snapshot en nid row)
       (filter (\<lambda>((r, _), _). r = run_id) (st_nodes s))) (\<lambda>node_states.
     bind_r (events_for_run en s run_id) (\<lambda>events.
     Ok \<lparr>grs_run_id = run_id, grs_status = ru_status run, grs_spec_hash = ru_spec_hash run,
         grs_node_states = node_states, grs_events = events\<rparr>)))"

definition save_execution_approval ::
  "'j engine \<Rightarrow> string \<Rightarrow> execution_approval \<Rightarrow> i64 \<Rightarrow> 'j store \<Rightarrow> 'j store \<times> (store_error, unit) result" where
  "save_execution_approval en run_id approval now =
     in_run run_id (transaction (\<lambda>s.
       bind_r (json (to_string (en_approval en) approval)) (\<lambda>text.
       Ok (s\<lparr>st_approvals := bm_insert run_id (text, now) (st_approvals s)\<rparr>, ()))))"

definition store_execution_approval ::
  "'j engine \<Rightarrow> 'j store \<Rightarrow> string \<Rightarrow> (store_error, execution_approval option) result" where
  "store_execution_approval en s run_id =
     (case bm_get (st_approvals s) run_id of
        None \<Rightarrow> Ok None
      | Some (raw, _) \<Rightarrow> bind_r (json (from_str (en_approval en) raw)) (\<lambda>v. Ok (Some v)))"

definition cleanup_run :: "string \<Rightarrow> 'j store \<Rightarrow> 'j store \<times> (store_error, unit) result" where
  "cleanup_run run_id =
     in_run run_id (\<lambda>s.
       (s\<lparr>st_active_runs := filter (\<lambda>(_, run, _). run \<noteq> run_id) (st_active_runs s),
          st_approvals := bm_remove run_id (st_approvals s),
          st_plans := bm_remove run_id (st_plans s),
          st_loops := delete_rows (\<lambda>(run, _). run = run_id) (st_loops s),
          st_retry_history := delete_rows (\<lambda>(run, _). run = run_id) (st_retry_history s),
          st_retry_schedules := delete_rows (\<lambda>(run, _). run = run_id) (st_retry_schedules s),
          st_reservations := delete_rows (\<lambda>(run, _). run = run_id) (st_reservations s),
          st_budgets := bm_remove run_id (st_budgets s),
          st_leases := delete_rows (\<lambda>(run, _). run = run_id) (st_leases s),
          st_nodes := delete_rows (\<lambda>(run, _). run = run_id) (st_nodes s),
          st_events := filter (\<lambda>e. er_run_id e \<noteq> run_id) (st_events s),
          st_usage := delete_rows (\<lambda>(run, _). run = run_id) (st_usage s),
          st_runs := bm_remove run_id (st_runs s)\<rparr>, Ok ()))"

end
