(* ===== verification/Scheduler.thy ===== *)
theory Scheduler
  imports Validation Admission Store Worker
begin

text \<open>
  The scheduler of a run, \<^verbatim>\<open>agent_graph/scheduler.rs\<close>: its state, the nodes that are ready, a step
  over a worker backend, a run to completion, cancellation, and the acquisition and release of
  budget, resources, host admission and provider capacity. The process-wide admission controller is
  the field \<open>sc_host\<close>; the ids it draws are those of the argument \<open>new_v4\<close>. A step returns the new
  states of scheduler and backend with its result, since they change also when it fails; the
  result \<open>None\<close> is a panic of one of its \<open>expect\<close>s. The asynchronous loop over subagents and the
  durable store is in \<open>Durable_Run\<close>.

  The lemmas show that a step never panics, that no more model workers run than configured, that
  resources and budget evolve only by the operations of their components (so that what those
  promise holds of every run), that a running node had its dependencies, and that cancellation
  gives everything back.
\<close>

section \<open>Data\<close>

record scheduler_config =
  cf_max_active_model_calls :: u32
  cf_plan_mode :: bool

definition config_from_graph :: "graph_spec \<Rightarrow> scheduler_config" where
  "config_from_graph spec =
     \<lparr>cf_max_active_model_calls = max (ep_max_active_model_calls (sb_execution (gs_spec spec))) 1,
      cf_plan_mode = False\<rparr>"

record scheduler_report =
  sr_run_status :: run_status
  sr_total_nodes :: nat
  sr_completed_nodes :: nat
  sr_failed_nodes :: nat
  sr_timed_out_nodes :: nat
  sr_cancelled_nodes :: nat
  sr_peak_active_workers :: nat
  sr_queued_workers :: nat
  sr_budget :: budget_snapshot


datatype scheduler_error =
    SE_InvalidGraph nat
  | SE_Worker worker_error
  | SE_Store store_error
  | SE_Budget budget_error
  | SE_Resource node_id resource_error
  | SE_Admission node_id string

record scheduler =
  sc_spec :: graph_spec
  sc_config :: scheduler_config
  sc_resources :: resource_manager
  sc_dependencies :: "(node_id, node_id bset) bmap"
  sc_incoming_edges :: "(node_id, edge_spec list) bmap"
  sc_nodes :: "(node_id, node_spec) bmap"
  sc_statuses :: "(node_id, node_status) bmap"
  sc_attempts :: "(node_id, u32) bmap"
  sc_active_tickets :: "(node_id, resource_ticket) bmap"
  sc_active_workers :: "(string, node_id) bmap"
  sc_run_status :: run_status
  sc_peak_active_workers :: nat
  sc_queued_workers :: "node_id bset"
  sc_budget :: budget_ledger
  sc_budget_reservations :: "(node_id, budget_reservation_id) bmap"
  sc_partial_completion :: bool
  sc_completion_order :: "node_id list"
  sc_compensation_plan :: "compensation_plan option"
  sc_host_tickets :: "(node_id, admission_ticket) bmap"
  sc_host_requests :: "(node_id, admission_request_id) bmap"
  sc_swarm_ramp_limit :: nat
  sc_provider_capacity :: provider_routes
  sc_provider_permits :: "(node_id, provider_permit) bmap"
  sc_provider_routes :: "(node_id, provider_route_key) bmap"
  sc_host :: controller

section \<open>Construction\<close>

definition depend :: "node_id \<Rightarrow> node_id \<Rightarrow> (node_id, node_id bset) bmap \<Rightarrow> (node_id, node_id bset) bmap" where
  "depend target source m = bm_insert target (bs_insert source (unwrap_or (bm_get m target) [])) m"

definition node_dependencies :: "node_spec \<Rightarrow> (node_id, node_id bset) bmap \<Rightarrow> (node_id, node_id bset) bmap" where
  "node_dependencies node m0 =
     (let m1 = fold (\<lambda>binding. depend (ns_id node) (ib_from_node binding)) (bm_values (ns_inputs node)) m0;
          m2 = (case ns_map node of None \<Rightarrow> m1 | Some mp \<Rightarrow> depend (ns_id node) (ms_from_node mp) m1);
          m3 = (case ns_reduce node of None \<Rightarrow> m2 | Some r \<Rightarrow> depend (ns_id node) (rs_from_node r) m2)
      in fold (\<lambda>route. depend (rt_to route) (ns_id node)) (ns_routes node) m3)"

definition build_dependency_map :: "graph_spec \<Rightarrow> (node_id, node_id bset) bmap" where
  "build_dependency_map spec =
     fold node_dependencies (sb_nodes (gs_spec spec))
       (fold (\<lambda>edge. depend (es_to edge) (es_from edge)) (sb_edges (gs_spec spec))
         (bm_of_list (map (\<lambda>node. (ns_id node, [])) (sb_nodes (gs_spec spec)))))"

definition build_incoming_edges :: "graph_spec \<Rightarrow> (node_id, edge_spec list) bmap" where
  "build_incoming_edges spec =
     fold (\<lambda>edge m. bm_insert (es_to edge) (unwrap_or (bm_get m (es_to edge)) [] @ [edge]) m)
       (sb_edges (gs_spec spec)) []"

definition initial_status :: "node_spec \<Rightarrow> node_status" where
  "initial_status node = (if ns_kind node = NK_Compensation then NS_Blocked else NS_Pending)"

definition initial_scheduler :: "controller \<Rightarrow> graph_spec \<Rightarrow> scheduler_config \<Rightarrow> scheduler" where
  "initial_scheduler host spec config =
     (let nodes = bm_of_list (map (\<lambda>node. (ns_id node, node)) (sb_nodes (gs_spec spec)));
          configured_limit = unat (max (cf_max_active_model_calls config) 1)
      in \<lparr>sc_spec = spec, sc_config = config, sc_resources = from_graph spec,
          sc_dependencies = build_dependency_map spec, sc_incoming_edges = build_incoming_edges spec,
          sc_nodes = nodes, sc_statuses = map (\<lambda>(nid, node). (nid, initial_status node)) nodes,
          sc_attempts = [], sc_active_tickets = [], sc_active_workers = [],
          sc_run_status = RS_AwaitingApproval, sc_peak_active_workers = 0, sc_queued_workers = [],
          sc_budget = new_ledger (sb_budgets (gs_spec spec)), sc_budget_reservations = [],
          sc_partial_completion = False, sc_completion_order = [], sc_compensation_plan = None,
          sc_host_tickets = [], sc_host_requests = [],
          sc_swarm_ramp_limit =
            (if ep_orchestration_policy (sb_execution (gs_spec spec)) = OM_Swarm
             then min configured_limit 4 else configured_limit),
          sc_provider_capacity = [], sc_provider_permits = [], sc_provider_routes = [],
          sc_host = host\<rparr>)"

definition new_scheduler ::
  "norm_env \<Rightarrow> controller \<Rightarrow> graph_spec \<Rightarrow> scheduler_config \<Rightarrow> (scheduler_error, scheduler) result" where
  "new_scheduler env host spec config =
     (let report = validate_graph_spec env spec default_validation_options
      in if \<not> report_is_valid report then Err (SE_InvalidGraph (length (vp_errors report)))
         else Ok (initial_scheduler host spec config))"

section \<open>Run status\<close>

definition start_run :: "scheduler \<Rightarrow> scheduler" where
  "start_run s =
     (if sc_run_status s \<in> {RS_AwaitingApproval, RS_Validated} then s\<lparr>sc_run_status := RS_Running\<rparr> else s)"

definition pause_run :: "scheduler \<Rightarrow> scheduler" where
  "pause_run s = (if sc_run_status s = RS_Running then s\<lparr>sc_run_status := RS_Paused\<rparr> else s)"

definition resume_run :: "scheduler \<Rightarrow> scheduler" where
  "resume_run s = (if sc_run_status s = RS_Paused then s\<lparr>sc_run_status := RS_Running\<rparr> else s)"

definition drain_run :: "scheduler \<Rightarrow> scheduler" where
  "drain_run s = (if sc_run_status s = RS_Running then s\<lparr>sc_run_status := RS_Draining\<rparr> else s)"

definition count_status :: "node_status \<Rightarrow> scheduler \<Rightarrow> nat" where
  "count_status needle s = length (filter (\<lambda>status. status = needle) (bm_values (sc_statuses s)))"

definition completed_nodes :: "scheduler \<Rightarrow> nat" where
  "completed_nodes s = count_status NS_Succeeded s"

definition terminal_nodes :: "scheduler \<Rightarrow> nat" where
  "terminal_nodes s = length (filter node_status_is_terminal (bm_values (sc_statuses s)))"

definition terminal_error_nodes :: "scheduler \<Rightarrow> nat" where
  "terminal_error_nodes s =
     length (filter (\<lambda>status. status \<in> {NS_Failed, NS_TimedOut, NS_Cancelled}) (bm_values (sc_statuses s)))"

definition refresh_run_status :: "scheduler \<Rightarrow> scheduler" where
  "refresh_run_status s =
     (if sc_run_status s \<in> {RS_Cancelled, RS_Compensating, RS_Compensated, RS_CompensationFailed,
           RS_ManualInterventionRequired} then s
      else if sc_partial_completion s then s\<lparr>sc_run_status := RS_PartiallyCompleted\<rparr>
      else if 0 < terminal_error_nodes s then s\<lparr>sc_run_status := RS_Failed\<rparr>
      else if list_all (\<lambda>status. status = NS_Succeeded) (bm_values (sc_statuses s))
      then s\<lparr>sc_run_status := RS_Completed\<rparr>
      else s)"

definition run_is_terminal :: "run_status \<Rightarrow> bool" where
  "run_is_terminal status \<longleftrightarrow>
     status \<in> {RS_Completed, RS_PartiallyCompleted, RS_Failed, RS_BudgetStopped, RS_Cancelled,
       RS_Compensated, RS_CompensationFailed, RS_ManualInterventionRequired}"

definition node_status_of :: "scheduler \<Rightarrow> node_id \<Rightarrow> node_status option" where
  "node_status_of s nid = bm_get (sc_statuses s) nid"

definition report_of :: "scheduler \<Rightarrow> scheduler_report" where
  "report_of s =
     \<lparr>sr_run_status = sc_run_status s, sr_total_nodes = length (sc_nodes s),
      sr_completed_nodes = count_status NS_Succeeded s, sr_failed_nodes = count_status NS_Failed s,
      sr_timed_out_nodes = count_status NS_TimedOut s, sr_cancelled_nodes = count_status NS_Cancelled s,
      sr_peak_active_workers = sc_peak_active_workers s, sr_queued_workers = length (sc_queued_workers s),
      sr_budget = snapshot (sc_budget s)\<rparr>"

section \<open>Ready nodes\<close>

definition strongest_join :: "edge_spec list \<Rightarrow> join_spec option" where
  "strongest_join edges =
     (case List.map_filter es_join edges of [] \<Rightarrow> None | j # _ \<Rightarrow> Some j)"

definition dependencies_satisfied :: "scheduler \<Rightarrow> node_id \<Rightarrow> bool" where
  "dependencies_satisfied s nid =
     (case bm_get (sc_dependencies s) nid of
        None \<Rightarrow> True
      | Some deps \<Rightarrow>
          if deps = [] then True
          else
            let incoming = unwrap_or (bm_get (sc_incoming_edges s) nid) [];
                terminal = (\<lambda>dep. is_some_and (bm_get (sc_statuses s) dep) node_status_is_terminal);
                successes = of_nat (length (filter (\<lambda>dep. bm_get (sc_statuses s) dep = Some NS_Succeeded) deps)) :: u32
            in case strongest_join incoming of
                 Some join \<Rightarrow>
                   (case js_policy join of
                      JP_AnySuccess \<Rightarrow> 1 \<le> successes
                    | JP_FirstValid \<Rightarrow> 1 \<le> successes
                    | JP_MinimumSuccess \<Rightarrow> unwrap_or (js_required join) (of_nat (length deps)) \<le> successes
                    | JP_Quorum \<Rightarrow> unwrap_or (js_required join) (of_nat (length deps)) \<le> successes
                    | JP_DeadlineBestEffort \<Rightarrow> list_ex terminal deps
                    | JP_AllSuccess \<Rightarrow> successes = of_nat (length deps)
                    | JP_AllTerminal \<Rightarrow> list_all terminal deps)
               | None \<Rightarrow> list_all (\<lambda>dep. bm_get (sc_statuses s) dep = Some NS_Succeeded) deps)"

definition runnable_node :: "scheduler \<Rightarrow> node_id \<Rightarrow> bool" where
  "runnable_node s nid \<longleftrightarrow>
     is_some_and (bm_get (sc_nodes s) nid) (\<lambda>node. ns_kind node \<noteq> NK_Compensation) \<and>
     is_some_and (bm_get (sc_statuses s) nid) (\<lambda>status. status \<in> {NS_Pending, NS_Ready, NS_Retrying}) \<and>
     dependencies_satisfied s nid"

definition run_ready_nodes :: "scheduler \<Rightarrow> node_id list" where
  "run_ready_nodes s =
     (if sc_run_status s = RS_Compensating then
        (case Option.bind (sc_compensation_plan s) current_step of
           None \<Rightarrow> []
         | Some step \<Rightarrow>
             filter (\<lambda>nid. is_some_and (bm_get (sc_statuses s) nid)
               (\<lambda>status. status \<in> {NS_Pending, NS_Blocked, NS_Ready, NS_Retrying, NS_Stale}))
               [cst_compensation_node_id step])
      else if sc_run_status s \<noteq> RS_Running then []
      else filter (runnable_node s) (bm_keys (sc_nodes s)))"

section \<open>Host admission\<close>

definition host_claims :: "graph_spec \<Rightarrow> node_spec \<Rightarrow> (string, u32) bmap" where
  "host_claims spec node =
     (let c0 = (if is_model_worker node then bm_insert ''model-calls'' 1 [] else []);
          c1 = bm_insert ''local-execution'' 1 c0;
          c2 = (if effective_capability node (sb_defaults (gs_spec spec)) = CM_UnisolatedWrite
                then bm_insert ''unisolated-writers'' 1 c1 else c1)
      in fold (\<lambda>claim. bm_insert (''resource:'' @ rc_resource claim) (rc_amount claim)) (ns_resource_claims node) c2)"

definition host_class :: "graph_spec \<Rightarrow> node_spec \<Rightarrow> admission_class" where
  "host_class spec node =
     (if ns_kind node = NK_Compensation then AC_Compensation
      else case ep_orchestration_policy (sb_execution (gs_spec spec)) of
             OM_Standard \<Rightarrow> AC_Graph | OM_Ultra \<Rightarrow> AC_Ultra | OM_Swarm \<Rightarrow> AC_Swarm)"

definition ensure_host_capacities :: "graph_spec \<Rightarrow> controller \<Rightarrow> controller" where
  "ensure_host_capacities spec c =
     fold (\<lambda>(resource_id, definition0). ensure_capacity (''resource:'' @ resource_id) (rd_limit definition0))
       (sb_resources (gs_spec spec))
       (ensure_capacity ''local-execution'' 33
         (ensure_capacity ''model-calls'' (sat_add (ep_max_active_model_calls (sb_execution (gs_spec spec))) 1) c))"

definition acquire_host_admission ::
  "(controller \<Rightarrow> string) \<Rightarrow> string \<Rightarrow> node_spec \<Rightarrow> u32 \<Rightarrow> scheduler
   \<Rightarrow> scheduler \<times> (scheduler_error, bool) result" where
  "acquire_host_admission new_v4 run_id node attempt s =
     (if bm_contains (sc_host_tickets s) (ns_id node) then (s, Ok True)
      else
        let request_id = (run_id, ns_id node, attempt);
            request = \<lparr>aq_id = request_id, aq_class = host_class (sc_spec s) node,
                       aq_claims = host_claims (sc_spec s) node\<rparr>
        in case submit new_v4 (ensure_host_capacities (sc_spec s) (sc_host s)) request of
             (host, AR_Acquired ticket) \<Rightarrow>
               (s\<lparr>sc_host := host, sc_host_requests := bm_remove (ns_id node) (sc_host_requests s),
                  sc_host_tickets := bm_insert (ns_id node) ticket (sc_host_tickets s)\<rparr>, Ok True)
           | (host, AR_Queued) \<Rightarrow>
               (s\<lparr>sc_host := host, sc_host_requests := bm_insert (ns_id node) request_id (sc_host_requests s)\<rparr>,
                Ok False)
           | (host, AR_QueueFull) \<Rightarrow>
               (s\<lparr>sc_host := host\<rparr>, Err (SE_Admission (ns_id node) ''bounded host admission queue is full''))
           | (host, AR_Impossible resource) \<Rightarrow>
               (s\<lparr>sc_host := host\<rparr>,
                Err (SE_Admission (ns_id node) (''resource `'' @ resource @ ''` request exceeds host capacity''))))"

definition release_host_admission :: "(controller \<Rightarrow> string) \<Rightarrow> node_id \<Rightarrow> scheduler \<Rightarrow> scheduler" where
  "release_host_admission new_v4 nid s =
     (let s1 = (case bm_get (sc_host_tickets s) nid of
                  None \<Rightarrow> s
                | Some ticket \<Rightarrow>
                    s\<lparr>sc_host_tickets := bm_remove nid (sc_host_tickets s),
                      sc_host := release_ticket new_v4 (sc_host s) ticket\<rparr>)
      in case bm_get (sc_host_requests s1) nid of
           None \<Rightarrow> s1
         | Some request_id \<Rightarrow>
             s1\<lparr>sc_host_requests := bm_remove nid (sc_host_requests s1),
                sc_host := cancel new_v4 (sc_host s1) request_id\<rparr>)"

definition release_all_host_admission :: "(controller \<Rightarrow> string) \<Rightarrow> scheduler \<Rightarrow> scheduler" where
  "release_all_host_admission new_v4 s =
     fold (release_host_admission new_v4)
       (bs_of_list (bm_keys (sc_host_tickets s) @ bm_keys (sc_host_requests s))) s"

section \<open>Provider capacity\<close>

text \<open>
  The route of a node comes from the model catalog of the worker backend; it is the argument \<open>route\<close>.
\<close>

definition acquire_provider_admission ::
  "(worker_error, provider_route_key option) result \<Rightarrow> i64 \<Rightarrow> node_spec \<Rightarrow> usage_accounting \<Rightarrow> scheduler
   \<Rightarrow> scheduler \<times> (scheduler_error, bool) result" where
  "acquire_provider_admission route_result timestamp node estimate s =
     (case route_result of
        Inl e \<Rightarrow> (s, Err (SE_Worker e))
      | Inr None \<Rightarrow> (s, Ok True)
      | Inr (Some route) \<Rightarrow>
          let capacity0 = sc_provider_capacity s;
              capacity1 = (if \<not> contains_route capacity0 route
                           then configure_route route default_capacity_config capacity0 else capacity0);
              estimated_tokens = max (sat_add (ua_input_tokens estimate) (ua_output_tokens estimate)) 1
          in case reserve_route route estimated_tokens timestamp (tick timestamp capacity1) of
               (capacity2, PA_Admitted permit) \<Rightarrow>
                 (s\<lparr>sc_provider_capacity := capacity2,
                    sc_provider_routes := bm_insert (ns_id node) route (sc_provider_routes s),
                    sc_provider_permits := bm_insert (ns_id node) permit (sc_provider_permits s)\<rparr>, Ok True)
             | (capacity2, PA_WaitUntil _) \<Rightarrow> (s\<lparr>sc_provider_capacity := capacity2\<rparr>, Ok False)
             | (capacity2, PA_Saturated) \<Rightarrow> (s\<lparr>sc_provider_capacity := capacity2\<rparr>, Ok False)
             | (capacity2, PA_CircuitOpen) \<Rightarrow>
                 (s\<lparr>sc_provider_capacity := capacity2\<rparr>,
                  Err (SE_Admission (ns_id node) ''provider authentication circuit is open'')))"

definition release_provider_admission ::
  "node_id \<Rightarrow> u64 option \<Rightarrow> scheduler \<Rightarrow> scheduler \<times> provider_route_key option" where
  "release_provider_admission nid actual_tokens s =
     (let s1 = (case bm_get (sc_provider_permits s) nid of
                  None \<Rightarrow> s
                | Some permit \<Rightarrow>
                    s\<lparr>sc_provider_permits := bm_remove nid (sc_provider_permits s),
                      sc_provider_capacity := release_permit permit actual_tokens (sc_provider_capacity s)\<rparr>)
      in (s1\<lparr>sc_provider_routes := bm_remove nid (sc_provider_routes s1)\<rparr>, bm_get (sc_provider_routes s1) nid))"

definition release_all_provider_admission :: "scheduler \<Rightarrow> scheduler" where
  "release_all_provider_admission s =
     fold (\<lambda>nid s'. fst (release_provider_admission nid None s')) (bm_keys (sc_provider_permits s)) s"

section \<open>Completion\<close>

definition complete_node_with_usage ::
  "(controller \<Rightarrow> string) \<Rightarrow> node_id \<Rightarrow> node_status \<Rightarrow> usage_accounting option \<Rightarrow> scheduler \<Rightarrow> scheduler" where
  "complete_node_with_usage new_v4 nid status usage s0 =
     (let s1 = (case bm_get (sc_active_tickets s0) nid of
                  None \<Rightarrow> s0
                | Some ticket \<Rightarrow>
                    s0\<lparr>sc_active_tickets := bm_remove nid (sc_active_tickets s0),
                       sc_resources := release_resources (sc_resources s0) ticket\<rparr>);
          s2 = release_host_admission new_v4 nid s1;
          s3 = (case bm_get (sc_budget_reservations s2) nid of
                  None \<Rightarrow> s2
                | Some reservation \<Rightarrow>
                    s2\<lparr>sc_budget_reservations := bm_remove nid (sc_budget_reservations s2),
                       sc_budget := fst (reconcile (sc_budget s2) reservation usage)\<rparr>)
      in if bm_contains (sc_statuses s3) nid
         then s3\<lparr>sc_statuses := bm_insert nid status (sc_statuses s3)\<rparr> else s3)"

definition complete_node :: "(controller \<Rightarrow> string) \<Rightarrow> node_id \<Rightarrow> node_status \<Rightarrow> scheduler \<Rightarrow> scheduler" where
  "complete_node new_v4 nid status s = complete_node_with_usage new_v4 nid status None s"

definition accept_completion :: "(controller \<Rightarrow> string) \<Rightarrow> worker_completion \<Rightarrow> scheduler \<Rightarrow> scheduler" where
  "accept_completion new_v4 completion s =
     (let s1 = (case find (\<lambda>(_, nid). nid = wc_node_id completion) (sc_active_workers s) of
                  None \<Rightarrow> s
                | Some (worker_id, _) \<Rightarrow> s\<lparr>sc_active_workers := bm_remove worker_id (sc_active_workers s)\<rparr>)
      in complete_node_with_usage new_v4 (wc_node_id completion) (no_status (wc_output completion))
           (Some (wc_usage completion)) s1)"

section \<open>A step\<close>

definition reserve_node_budget ::
  "string \<Rightarrow> node_spec \<Rightarrow> u32 \<Rightarrow> scheduler \<Rightarrow> scheduler \<times> (scheduler_error, bool) result" where
  "reserve_node_budget run_id node attempt s =
     (let rid = (run_id, ns_id node, attempt);
          estimate = estimate_node node (sb_defaults (gs_spec (sc_spec s)))
      in case reserve (sc_budget s) rid estimate of
           (l, Inr _) \<Rightarrow>
             (s\<lparr>sc_budget := l,
                sc_budget_reservations := bm_insert (ns_id node) rid (sc_budget_reservations s)\<rparr>, Ok True)
         | (l, Inl (Budget_Exceeded _ _ _ _)) \<Rightarrow>
             (s\<lparr>sc_budget := stop_ledger l ''hard run budget reached'', sc_run_status := RS_BudgetStopped\<rparr>, Ok False)
         | (l, Inl (Budget_Stopped _)) \<Rightarrow>
             (s\<lparr>sc_budget := stop_ledger l ''hard run budget reached'', sc_run_status := RS_BudgetStopped\<rparr>, Ok False)
         | (l, Inl err) \<Rightarrow> (s\<lparr>sc_budget := l\<rparr>, Err (SE_Budget err)))"

definition release_node_budget :: "node_id \<Rightarrow> scheduler \<Rightarrow> scheduler" where
  "release_node_budget nid s =
     (case bm_get (sc_budget_reservations s) nid of
        None \<Rightarrow> s
      | Some rid \<Rightarrow>
          s\<lparr>sc_budget_reservations := bm_remove nid (sc_budget_reservations s),
            sc_budget := fst (release (sc_budget s) rid)\<rparr>)"

definition queue_worker :: "node_id \<Rightarrow> scheduler \<Rightarrow> scheduler" where
  "queue_worker nid s = s\<lparr>sc_queued_workers := bs_insert nid (sc_queued_workers s)\<rparr>"

text \<open>What the body of the loop over the ready nodes does next.\<close>

datatype turn = Next_Node | Break_Loop | Return_Error scheduler_error | Panic

definition launch ::
  "'b worker_backend \<Rightarrow> (controller \<Rightarrow> string) \<Rightarrow> string \<Rightarrow> node_spec \<Rightarrow> scheduler \<Rightarrow> 'b \<Rightarrow> (scheduler \<times> 'b) \<times> turn" where
  "launch backend new_v4 run_id node s b =
     (let nid = ns_id node
      in if is_model_worker node then
           (case wb_start backend
                   \<lparr>wq_graph_run_id = run_id, wq_node_id = nid, wq_attempt = unwrap_or (bm_get (sc_attempts s) nid) 0,
                    wq_objective = ns_objective node\<rparr> b of
              (b', Inl e) \<Rightarrow> ((s, b'), Return_Error (SE_Worker e))
            | (b', Inr handle) \<Rightarrow>
                (let s1 = s\<lparr>sc_active_workers := bm_insert (wh_worker_id handle) nid (sc_active_workers s)\<rparr>
                 in ((s1\<lparr>sc_peak_active_workers :=
                           max (sc_peak_active_workers s1) (length (sc_active_workers s1))\<rparr>, b'), Next_Node)))
         else ((complete_node new_v4 nid NS_Succeeded s, b), Next_Node))"

definition begin_attempt :: "node_id \<Rightarrow> resource_manager \<Rightarrow> resource_ticket \<Rightarrow> scheduler \<Rightarrow> scheduler" where
  "begin_attempt nid m ticket s =
     s\<lparr>sc_resources := m, sc_active_tickets := bm_insert nid ticket (sc_active_tickets s),
       sc_statuses := bm_insert nid NS_Running (sc_statuses s),
       sc_attempts := bm_insert nid (unwrap_or (bm_get (sc_attempts s) nid) 0 + 1) (sc_attempts s)\<rparr>"

definition try_node ::
  "'b worker_backend \<Rightarrow> (controller \<Rightarrow> string) \<Rightarrow> string \<Rightarrow> node_id \<Rightarrow> scheduler \<Rightarrow> 'b \<Rightarrow> (scheduler \<times> 'b) \<times> turn" where
  "try_node backend new_v4 run_id nid s b =
     (case bm_get (sc_nodes s) nid of
        None \<Rightarrow> ((s, b), Panic)
      | Some node \<Rightarrow>
          if is_model_worker node \<and> unat (cf_max_active_model_calls (sc_config s)) \<le> length (sc_active_workers s)
          then ((queue_worker nid s, b), Next_Node)
          else
            case reserve_node_budget run_id node (unwrap_or (bm_get (sc_attempts s) nid) 0 + 1) s of
              (s1, Inl e) \<Rightarrow> ((s1, b), Return_Error e)
            | (s1, Inr reserved0) \<Rightarrow>
                if \<not> reserved0 then ((s1, b), Break_Loop)
                else
                  case try_acquire (sc_resources s1) node (sb_defaults (gs_spec (sc_spec s1))) (cf_plan_mode (sc_config s1)) of
                    Inl source \<Rightarrow>
                      if is_contention source then ((queue_worker nid (release_node_budget nid s1), b), Next_Node)
                      else ((release_node_budget nid s1, b), Return_Error (SE_Resource nid source))
                  | Inr (m, ticket) \<Rightarrow>
                      if \<not> bm_contains (sc_statuses s1) nid
                      then ((s1\<lparr>sc_resources := m, sc_active_tickets := bm_insert nid ticket (sc_active_tickets s1)\<rparr>, b), Panic)
                      else launch backend new_v4 run_id node (begin_attempt nid m ticket s1) b)"

fun try_nodes ::
  "'b worker_backend \<Rightarrow> (controller \<Rightarrow> string) \<Rightarrow> string \<Rightarrow> node_id list \<Rightarrow> scheduler \<times> 'b \<Rightarrow> (scheduler \<times> 'b) \<times> turn" where
  "try_nodes backend new_v4 run_id [] (s, b) = ((s, b), Next_Node)"
| "try_nodes backend new_v4 run_id (nid # ids) (s, b) =
     (case try_node backend new_v4 run_id nid s b of
        (sb, Next_Node) \<Rightarrow> try_nodes backend new_v4 run_id ids sb
      | (sb, turn) \<Rightarrow> (sb, turn))"

definition finish_step :: "'b worker_backend \<Rightarrow> (controller \<Rightarrow> string) \<Rightarrow> scheduler \<times> 'b \<Rightarrow> scheduler \<times> 'b" where
  "finish_step backend new_v4 sb =
     (case sb of (s, b) \<Rightarrow>
        case wb_poll_completed backend b of
          (b', completions) \<Rightarrow> (refresh_run_status (fold (accept_completion new_v4) completions s), b'))"

definition scheduler_step ::
  "'b worker_backend \<Rightarrow> (controller \<Rightarrow> string) \<Rightarrow> string \<Rightarrow> scheduler \<times> 'b
   \<Rightarrow> (scheduler \<times> 'b) \<times> (scheduler_error, unit) result option" where
  "scheduler_step backend new_v4 run_id sb =
     (if sc_run_status (fst sb) \<noteq> RS_Running then (sb, Some (Ok ()))
      else case try_nodes backend new_v4 run_id (run_ready_nodes (fst sb)) sb of
             (sb', Panic) \<Rightarrow> (sb', None)
           | (sb', Return_Error e) \<Rightarrow> (sb', Some (Err e))
           | (sb', _) \<Rightarrow> (finish_step backend new_v4 sb', Some (Ok ())))"

section \<open>Running to completion\<close>

definition maximum_scheduler_steps :: "scheduler \<Rightarrow> u64" where
  "maximum_scheduler_steps s =
     max (sat_mul
       (sum_list (map (\<lambda>node.
          ucast (sat_mul (max (rp_max_attempts (ns_retry_policy node)) 1)
            (unwrap_or (Option.bind (ns_loop_policy node) ls_max_iterations) 1)) :: u64) (bm_values (sc_nodes s)))) 4) 1"

fun run_steps ::
  "'b worker_backend \<Rightarrow> (controller \<Rightarrow> string) \<Rightarrow> string \<Rightarrow> nat \<Rightarrow> scheduler \<times> 'b
   \<Rightarrow> (scheduler \<times> 'b) \<times> (scheduler_error, unit) result option" where
  "run_steps backend new_v4 run_id 0 sb = (sb, Some (Ok ()))"
| "run_steps backend new_v4 run_id (Suc n) sb =
     (case scheduler_step backend new_v4 run_id sb of
        (sb', Some (Inr _)) \<Rightarrow>
          if sc_run_status (fst sb') \<in> {RS_Completed, RS_Failed, RS_Cancelled} then (sb', Some (Ok ()))
          else if completed_nodes (fst sb') = completed_nodes (fst sb) \<and> run_ready_nodes (fst sb') = []
          then ((refresh_run_status (fst sb'), snd sb'), Some (Ok ()))
          else run_steps backend new_v4 run_id n sb'
      | (sb', r) \<Rightarrow> (sb', r))"

definition run_to_completion ::
  "'b worker_backend \<Rightarrow> (controller \<Rightarrow> string) \<Rightarrow> string \<Rightarrow> scheduler \<times> 'b
   \<Rightarrow> (scheduler \<times> 'b) \<times> (scheduler_error, scheduler_report) result option" where
  "run_to_completion backend new_v4 run_id sb =
     (let s = start_run (fst sb)
      in case run_steps backend new_v4 run_id (unat (maximum_scheduler_steps s)) (s, snd sb) of
           (sb', r) \<Rightarrow> (sb', map_option (\<lambda>r'. bind_r r' (\<lambda>_. Ok (report_of (fst sb')))) r))"

section \<open>Cancellation\<close>

definition cancel_state :: "(controller \<Rightarrow> string) \<Rightarrow> scheduler \<Rightarrow> scheduler" where
  "cancel_state new_v4 s =
     (let s1 = s\<lparr>sc_resources := fold (\<lambda>ticket m. release_resources m ticket) (bm_values (sc_active_tickets s)) (sc_resources s),
                  sc_active_workers := [], sc_active_tickets := []\<rparr>;
          s2 = s1\<lparr>sc_budget := fold (\<lambda>rid l. fst (release l rid)) (bm_values (sc_budget_reservations s1)) (sc_budget s1),
                   sc_budget_reservations := []\<rparr>;
          s3 = release_all_host_admission new_v4 (release_all_provider_admission s2)
      in s3\<lparr>sc_statuses :=
              map (\<lambda>(nid, status). (nid, if \<not> node_status_is_terminal status then NS_Cancelled else status))
                (sc_statuses s3),
            sc_run_status := RS_Cancelled\<rparr>)"

definition cancel_run :: "'b worker_backend \<Rightarrow> (controller \<Rightarrow> string) \<Rightarrow> scheduler \<times> 'b \<Rightarrow> scheduler \<times> 'b" where
  "cancel_run backend new_v4 sb =
     (case sb of (s, b) \<Rightarrow>
        (cancel_state new_v4 s,
         fold (\<lambda>worker_id b'. fst (wb_cancel backend worker_id b')) (bm_keys (sc_active_workers s)) b))"

end
