(* ===== verification/Scheduler_Run.thy ===== *)
theory Scheduler_Run
  imports Scheduler
begin

text \<open>
  What holds of every run of the scheduler. Each operation of the scheduler is a sequence of a few
  primitive changes of its state, the relation \<open>change\<close>; the invariants are shown once for each
  primitive change, and so hold after every sequence of operations, whatever the backend answers.
  With a backend that keeps the contract \<open>faithful_backend\<close>, only running nodes complete, and a
  node that runs or has succeeded has its dependencies succeeded.
\<close>

section \<open>What the operations leave alone\<close>

lemma release_host_fields [simp]:
  "sc_spec (release_host_admission v n s) = sc_spec s"
  "sc_config (release_host_admission v n s) = sc_config s"
  "sc_resources (release_host_admission v n s) = sc_resources s"
  "sc_dependencies (release_host_admission v n s) = sc_dependencies s"
  "sc_incoming_edges (release_host_admission v n s) = sc_incoming_edges s"
  "sc_nodes (release_host_admission v n s) = sc_nodes s"
  "sc_statuses (release_host_admission v n s) = sc_statuses s"
  "sc_attempts (release_host_admission v n s) = sc_attempts s"
  "sc_active_tickets (release_host_admission v n s) = sc_active_tickets s"
  "sc_active_workers (release_host_admission v n s) = sc_active_workers s"
  "sc_run_status (release_host_admission v n s) = sc_run_status s"
  "sc_partial_completion (release_host_admission v n s) = sc_partial_completion s"
  "sc_peak_active_workers (release_host_admission v n s) = sc_peak_active_workers s"
  "sc_budget (release_host_admission v n s) = sc_budget s"
  "sc_budget_reservations (release_host_admission v n s) = sc_budget_reservations s"
  "sc_provider_capacity (release_host_admission v n s) = sc_provider_capacity s"
  "sc_provider_permits (release_host_admission v n s) = sc_provider_permits s"
  by (simp_all add: release_host_admission_def Let_def split: option.split)

lemma release_provider_fields [simp]:
  "sc_spec (fst (release_provider_admission n a s)) = sc_spec s"
  "sc_config (fst (release_provider_admission n a s)) = sc_config s"
  "sc_resources (fst (release_provider_admission n a s)) = sc_resources s"
  "sc_dependencies (fst (release_provider_admission n a s)) = sc_dependencies s"
  "sc_incoming_edges (fst (release_provider_admission n a s)) = sc_incoming_edges s"
  "sc_nodes (fst (release_provider_admission n a s)) = sc_nodes s"
  "sc_statuses (fst (release_provider_admission n a s)) = sc_statuses s"
  "sc_active_tickets (fst (release_provider_admission n a s)) = sc_active_tickets s"
  "sc_active_workers (fst (release_provider_admission n a s)) = sc_active_workers s"
  "sc_run_status (fst (release_provider_admission n a s)) = sc_run_status s"
  "sc_peak_active_workers (fst (release_provider_admission n a s)) = sc_peak_active_workers s"
  "sc_budget (fst (release_provider_admission n a s)) = sc_budget s"
  "sc_budget_reservations (fst (release_provider_admission n a s)) = sc_budget_reservations s"
  by (simp_all add: release_provider_admission_def Let_def split: option.split)

text \<open>A field that every turn of a loop keeps is kept by the loop.\<close>

lemma fold_keeps: "(\<And>x s. f (g x s) = f s) \<Longrightarrow> f (fold g xs s) = f s"
  by (induction xs arbitrary: s) simp_all

lemma release_all_fields [simp]:
  "sc_spec (release_all_host_admission v (release_all_provider_admission s)) = sc_spec s"
  "sc_config (release_all_host_admission v (release_all_provider_admission s)) = sc_config s"
  "sc_resources (release_all_host_admission v (release_all_provider_admission s)) = sc_resources s"
  "sc_dependencies (release_all_host_admission v (release_all_provider_admission s)) = sc_dependencies s"
  "sc_incoming_edges (release_all_host_admission v (release_all_provider_admission s)) = sc_incoming_edges s"
  "sc_nodes (release_all_host_admission v (release_all_provider_admission s)) = sc_nodes s"
  "sc_statuses (release_all_host_admission v (release_all_provider_admission s)) = sc_statuses s"
  "sc_active_tickets (release_all_host_admission v (release_all_provider_admission s)) = sc_active_tickets s"
  "sc_active_workers (release_all_host_admission v (release_all_provider_admission s)) = sc_active_workers s"
  "sc_peak_active_workers (release_all_host_admission v (release_all_provider_admission s)) = sc_peak_active_workers s"
  "sc_budget (release_all_host_admission v (release_all_provider_admission s)) = sc_budget s"
  "sc_budget_reservations (release_all_host_admission v (release_all_provider_admission s)) = sc_budget_reservations s"
  by (simp_all add: release_all_host_admission_def release_all_provider_admission_def fold_keeps)

lemma complete_fields:
  "sc_spec (complete_node_with_usage v n st u s) = sc_spec s"
  "sc_config (complete_node_with_usage v n st u s) = sc_config s"
  "sc_dependencies (complete_node_with_usage v n st u s) = sc_dependencies s"
  "sc_incoming_edges (complete_node_with_usage v n st u s) = sc_incoming_edges s"
  "sc_nodes (complete_node_with_usage v n st u s) = sc_nodes s"
  "sc_active_workers (complete_node_with_usage v n st u s) = sc_active_workers s"
  "sc_peak_active_workers (complete_node_with_usage v n st u s) = sc_peak_active_workers s"
  "sc_run_status (complete_node_with_usage v n st u s) = sc_run_status s"
  "sc_partial_completion (complete_node_with_usage v n st u s) = sc_partial_completion s"
  "sc_statuses (complete_node_with_usage v n st u s) =
     (if bm_contains (sc_statuses s) n then bm_insert n st (sc_statuses s) else sc_statuses s)"
  "sc_active_tickets (complete_node_with_usage v n st u s) = bm_remove n (sc_active_tickets s)"
  "sc_resources (complete_node_with_usage v n st u s) =
     (case bm_get (sc_active_tickets s) n of None \<Rightarrow> sc_resources s | Some t \<Rightarrow> release_resources (sc_resources s) t)"
  "sc_budget (complete_node_with_usage v n st u s) =
     (case bm_get (sc_budget_reservations s) n of
        None \<Rightarrow> sc_budget s | Some rid \<Rightarrow> fst (reconcile (sc_budget s) rid u))"
  by (simp_all add: complete_node_with_usage_def Let_def bm_remove_absent split: option.split)

section \<open>Primitive changes\<close>

definition status_of :: "scheduler \<Rightarrow> node_id \<Rightarrow> node_status option" where
  "status_of s n = bm_get (sc_statuses s) n"

definition may_start :: "node_status option \<Rightarrow> bool" where
  "may_start status \<longleftrightarrow> is_some_and status (\<lambda>st. st \<in> {NS_Pending, NS_Ready, NS_Retrying})"

text \<open>
  The dependencies of a node allow its start. The code counts the succeeded ones as a \<^verbatim>\<open>u32\<close>, so
  this is kept while the counted dependencies are fewer than \<open>2 ^ 32\<close>.
\<close>

definition run_deps :: "scheduler \<Rightarrow> node_id \<Rightarrow> node_id bset" where
  "run_deps s n = unwrap_or (bm_get (sc_dependencies s) n) []"

definition deps_done :: "scheduler \<Rightarrow> node_id \<Rightarrow> bool" where
  "deps_done s n \<longleftrightarrow> (length (run_deps s n) < 2 ^ 32 \<longrightarrow> dependencies_satisfied s n)"

lemma unat_u32: "i < 2 ^ 32 \<Longrightarrow> unat (of_nat i :: u32) = i"
  by (simp add: unsigned_of_nat take_bit_nat_eq_self)

lemma of_nat_u32_mono: "i \<le> j \<Longrightarrow> j < 2 ^ 32 \<Longrightarrow> (of_nat i :: u32) \<le> of_nat j"
  by (simp add: word_le_nat_alt unat_u32)

text \<open>All join policies are monotone: terminal statuses that stay keep a satisfied node satisfied.\<close>

lemma dependencies_mono:
  assumes "deps_done s n"
    and same: "sc_dependencies s' = sc_dependencies s" "sc_incoming_edges s' = sc_incoming_edges s"
    and keep: "\<And>d st. status_of s d = Some st \<Longrightarrow> node_status_is_terminal st \<Longrightarrow> status_of s' d = Some st"
  shows "deps_done s' n"
proof (cases "bm_get (sc_dependencies s) n")
  case (Some deps)
  let ?done = "\<lambda>s dep. bm_get (sc_statuses s) dep = Some NS_Succeeded"
  have good: "?done s' dep" if "?done s dep" for dep using keep [of dep NS_Succeeded] that by (simp add: status_of_def)
  have terminal: "is_some_and (bm_get (sc_statuses s') dep) node_status_is_terminal"
    if "is_some_and (bm_get (sc_statuses s) dep) node_status_is_terminal" for dep
    using keep [of dep] that by (cases "bm_get (sc_statuses s) dep") (auto simp: status_of_def)
  then have some: "list_ex (\<lambda>dep. is_some_and (bm_get (sc_statuses s) dep) node_status_is_terminal) deps \<Longrightarrow>
        list_ex (\<lambda>dep. is_some_and (bm_get (sc_statuses s') dep) node_status_is_terminal) deps"
    and all: "list_all (\<lambda>dep. is_some_and (bm_get (sc_statuses s) dep) node_status_is_terminal) deps \<Longrightarrow>
        list_all (\<lambda>dep. is_some_and (bm_get (sc_statuses s') dep) node_status_is_terminal) deps"
    unfolding list_ex_iff list_all_iff by blast+
  have more: "length (filter (?done s) deps) \<le> length (filter (?done s') deps)"
    using good by (induction deps) auto
  show ?thesis
    unfolding deps_done_def
  proof
    assume "length (run_deps s' n) < 2 ^ 32"
    then have small: "length deps < 2 ^ 32" and was: "dependencies_satisfied s n"
      using assms(1) Some same by (simp_all add: deps_done_def run_deps_def)
    have grow: "(of_nat (length (filter (?done s) deps)) :: u32) \<le> of_nat (length (filter (?done s') deps))"
      by (rule of_nat_u32_mono [OF more]) (use small le_less_trans [OF length_filter_le] in blast)
    have full: "length (filter (?done s') deps) = length deps"
      if "(of_nat (length (filter (?done s) deps)) :: u32) = of_nat (length deps)"
    proof -
      have "length (filter (?done s) deps) < 2 ^ 32" using small le_less_trans [OF length_filter_le] by blast
      with that small have "length (filter (?done s) deps) = length deps"
        by (metis unat_u32)
      with more show ?thesis using length_filter_le [of "?done s'" deps] by linarith
    qed
    show "dependencies_satisfied s' n"
    proof (cases "strongest_join (unwrap_or (bm_get (sc_incoming_edges s) n) [])")
      case None
      with was Some good show ?thesis by (auto simp: dependencies_satisfied_def same list_all_iff)
    next
      case (Some join)
      with was \<open>bm_get (sc_dependencies s) n = Some deps\<close> grow full some all show ?thesis
        by (cases "js_policy join")
          (auto simp: dependencies_satisfied_def same Let_def elim: order_trans)
    qed
  qed
qed (use same in \<open>simp add: deps_done_def dependencies_satisfied_def\<close>)

inductive change :: "bool \<Rightarrow> scheduler \<Rightarrow> scheduler \<Rightarrow> bool" for F where
  change_queue: "change F s (queue_worker n s)"
| change_reserve:
    "sc_run_status s \<noteq> RS_Completed \<Longrightarrow> bm_get (sc_budget_reservations s) (ns_id node) = None \<Longrightarrow>
     change F s (fst (reserve_node_budget run_id node attempt s))"
| change_unreserve: "change F s (release_node_budget n s)"
| change_begin:
    "bm_get (sc_nodes s) n = Some node \<Longrightarrow> may_start (status_of s n) \<Longrightarrow> deps_done s n \<Longrightarrow>
     sc_run_status s \<noteq> RS_Completed \<Longrightarrow>
     try_acquire (sc_resources s) node defaults plan_mode = Ok (m, ticket) \<Longrightarrow>
     change F s (begin_attempt n m ticket s)"
| change_worker:
    "length (sc_active_workers s) < unat (cf_max_active_model_calls (sc_config s)) \<Longrightarrow>
     change F s (let s1 = s\<lparr>sc_active_workers := bm_insert w n (sc_active_workers s)\<rparr>
               in s1\<lparr>sc_peak_active_workers := max (sc_peak_active_workers s1) (length (sc_active_workers s1))\<rparr>)"
| change_drop_worker: "change F s (s\<lparr>sc_active_workers := bm_remove w (sc_active_workers s)\<rparr>)"
| change_complete:
    "(F \<Longrightarrow> status_of s n = Some NS_Running) \<Longrightarrow> sc_run_status s \<noteq> RS_Completed \<Longrightarrow>
     change F s (complete_node_with_usage v n st u s)"
| change_status:
    "(r = RS_Completed \<Longrightarrow> sc_run_status s = RS_Completed \<or> list_all (\<lambda>x. x = NS_Succeeded) (bm_values (sc_statuses s))) \<Longrightarrow>
     change F s (s\<lparr>sc_run_status := r\<rparr>)"
| change_cancel: "change F s (cancel_state v s)"

lemma cancel_fields:
  "sc_spec (cancel_state v s) = sc_spec s"
  "sc_config (cancel_state v s) = sc_config s"
  "sc_dependencies (cancel_state v s) = sc_dependencies s"
  "sc_incoming_edges (cancel_state v s) = sc_incoming_edges s"
  "sc_nodes (cancel_state v s) = sc_nodes s"
  "sc_statuses (cancel_state v s) =
     map (\<lambda>(n, st). (n, if \<not> node_status_is_terminal st then NS_Cancelled else st)) (sc_statuses s)"
  "sc_active_workers (cancel_state v s) = []"
  "sc_active_tickets (cancel_state v s) = []"
  "sc_peak_active_workers (cancel_state v s) = sc_peak_active_workers s"
  "sc_run_status (cancel_state v s) = RS_Cancelled"
  "sc_resources (cancel_state v s) =
     fold (\<lambda>t m. release_resources m t) (bm_values (sc_active_tickets s)) (sc_resources s)"
  "sc_budget (cancel_state v s) =
     fold (\<lambda>rid l. fst (release l rid)) (bm_values (sc_budget_reservations s)) (sc_budget s)"
  by (simp_all add: cancel_state_def Let_def)

definition statics :: "scheduler \<Rightarrow> graph_spec \<times> scheduler_config \<times> dependencies \<times> (node_id, edge_spec list) bmap \<times> node_map" where
  "statics s = (sc_spec s, sc_config s, sc_dependencies s, sc_incoming_edges s, sc_nodes s)"

lemma reserve_node_fields:
  "statics (fst (reserve_node_budget run_id node attempt s)) = statics s"
  "sc_statuses (fst (reserve_node_budget run_id node attempt s)) = sc_statuses s"
  "sc_active_tickets (fst (reserve_node_budget run_id node attempt s)) = sc_active_tickets s"
  "sc_active_workers (fst (reserve_node_budget run_id node attempt s)) = sc_active_workers s"
  "sc_peak_active_workers (fst (reserve_node_budget run_id node attempt s)) = sc_peak_active_workers s"
  "sc_resources (fst (reserve_node_budget run_id node attempt s)) = sc_resources s"
  "sc_attempts (fst (reserve_node_budget run_id node attempt s)) = sc_attempts s"
  "sc_run_status (fst (reserve_node_budget run_id node attempt s)) \<in> {sc_run_status s, RS_BudgetStopped}"
  by (simp_all add: reserve_node_budget_def statics_def Let_def split: prod.split sum.split budget_error.split)

lemma release_node_fields:
  "statics (release_node_budget n s) = statics s"
  "sc_statuses (release_node_budget n s) = sc_statuses s"
  "sc_active_tickets (release_node_budget n s) = sc_active_tickets s"
  "sc_active_workers (release_node_budget n s) = sc_active_workers s"
  "sc_peak_active_workers (release_node_budget n s) = sc_peak_active_workers s"
  "sc_resources (release_node_budget n s) = sc_resources s"
  "sc_run_status (release_node_budget n s) = sc_run_status s"
  by (simp_all add: release_node_budget_def statics_def split: option.split)

text \<open>The operations that set only the status of the run.\<close>

lemma status_changes:
  "change F s (refresh_run_status s)"
  "change F s (start_run s)"
  "change F s (pause_run s)"
  "change F s (resume_run s)"
  "change F s (drain_run s)"
  using change_status [of "sc_run_status s" s F]
  by (auto simp: refresh_run_status_def start_run_def pause_run_def resume_run_def drain_run_def intro!: change_status)

section \<open>The invariant\<close>

text \<open>
  The tickets of running nodes are those the resource manager has handed out, and the ledger is one
  that its operations can reach.
\<close>

definition tickets_inv :: "graph_spec \<Rightarrow> scheduler \<Rightarrow> bool" where
  "tickets_inv spec s \<longleftrightarrow>
     bm_wf (sc_active_tickets s) \<and>
     (\<forall>n t. bm_get (sc_active_tickets s) n = Some t \<longrightarrow> rtk_node_id t = n \<and> status_of s n = Some NS_Running) \<and>
     (\<exists>held. resource_step\<^sup>*\<^sup>* (from_graph spec, []) (sc_resources s, held) \<and>
        mset held = mset (bm_values (sc_active_tickets s)))"

text \<open>The fields computed from the graph at construction.\<close>

definition derived_ok :: "scheduler \<Rightarrow> bool" where
  "derived_ok s \<longleftrightarrow>
     sc_dependencies s = build_dependency_map (sc_spec s) \<and>
     sc_incoming_edges s = build_incoming_edges (sc_spec s) \<and>
     sc_nodes s = bm_of_list (map (\<lambda>node. (ns_id node, node)) (sb_nodes (gs_spec (sc_spec s))))"

definition workers_inv :: "scheduler \<Rightarrow> bool" where
  "workers_inv s \<longleftrightarrow>
     length (sc_active_workers s) \<le> unat (cf_max_active_model_calls (sc_config s)) \<and>
     sc_peak_active_workers s \<le> unat (cf_max_active_model_calls (sc_config s))"

text \<open>The reservations open in the ledger are those of nodes of the run.\<close>

definition reservations_inv :: "scheduler \<Rightarrow> bool" where
  "reservations_inv s \<longleftrightarrow>
     bm_wf (bl_reservations (sc_budget s)) \<and> bm_wf (sc_budget_reservations s) \<and>
     set (bm_keys (bl_reservations (sc_budget s))) \<subseteq> set (bm_values (sc_budget_reservations s))"

definition scheduler_inv :: "scheduler \<Rightarrow> bool" where
  "scheduler_inv s \<longleftrightarrow>
     derived_ok s \<and> bm_wf (sc_statuses s) \<and> set (bm_keys (sc_statuses s)) = set (bm_keys (sc_nodes s)) \<and>
     workers_inv s \<and> tickets_inv (sc_spec s) s \<and> reservations_inv s \<and>
     (ledger_step (\<lambda>_ _ _. True))\<^sup>*\<^sup>* (new_ledger (sb_budgets (gs_spec (sc_spec s)))) (sc_budget s) \<and>
     (sc_run_status s = RS_Completed \<longrightarrow> list_all (\<lambda>x. x = NS_Succeeded) (bm_values (sc_statuses s)))"

lemma mset_values_take:
  "bm_wf m \<Longrightarrow> bm_get m k = Some v \<Longrightarrow> mset (bm_values m) = add_mset v (mset (bm_values (bm_remove k m)))"
proof (induction m)
  case (Cons p m)
  have wf: "bm_wf m" and fresh: "fst p \<notin> fst ` set m" using Cons.prems(1) by (auto simp: bm_wf_def)
  show ?case
  proof (cases "fst p = k")
    case True
    then have "bm_get m k = None" using fresh by (auto simp: bm_get_def map_of_eq_None_iff)
    from bm_remove_absent [OF this] True Cons.prems(2) show ?thesis
      by (cases p) (simp add: bm_get_def bm_values_def bm_remove_def)
  next
    case False
    with Cons.prems(2) have "bm_get m k = Some v" by (cases p) (simp add: bm_get_def)
    with Cons.IH [OF wf] False show ?thesis by (simp add: bm_values_def bm_remove_def)
  qed
qed (simp add: bm_get_def)

lemma mset_values_insert: "bm_get m k = None \<Longrightarrow> mset (bm_values (bm_insert k v m)) = add_mset v (mset (bm_values m))"
  by (simp add: bm_values_def mset_bm_insert bm_remove_absent)

lemma resource_release_held:
  assumes "resource_step\<^sup>*\<^sup>* s0 (m, held)" and "t \<in># mset held"
  shows "resource_step\<^sup>*\<^sup>* s0 (release_resources m t, remove1 t held)"
proof -
  have "t \<in> set held" using assms(2) by simp
  from resource_step.intros(2) [OF this] show ?thesis by (rule rtranclp.rtrancl_into_rtrancl [OF assms(1)])
qed

lemma tickets_complete:
  assumes "tickets_inv spec s"
  shows "tickets_inv spec (complete_node_with_usage v n st u s)"
proof -
  let ?s = "complete_node_with_usage v n st u s"
  obtain held where held: "resource_step\<^sup>*\<^sup>* (from_graph spec, []) (sc_resources s, held)"
    "mset held = mset (bm_values (sc_active_tickets s))" using assms by (auto simp: tickets_inv_def)
  have wf: "bm_wf (sc_active_tickets s)" using assms by (simp add: tickets_inv_def)
  have "\<exists>held'. resource_step\<^sup>*\<^sup>* (from_graph spec, []) (sc_resources ?s, held') \<and>
      mset held' = mset (bm_values (sc_active_tickets ?s))"
  proof (cases "bm_get (sc_active_tickets s) n")
    case None
    with held show ?thesis by (auto simp: complete_fields bm_remove_absent)
  next
    case (Some t)
    note take = mset_values_take [OF wf Some]
    have "t \<in># mset held" by (simp add: held(2) take)
    from resource_release_held [OF held(1) this] Some show ?thesis
      by (intro exI [of _ "remove1 t held"]) (simp add: complete_fields held(2) take)
  qed
  moreover have "bm_get (sc_active_tickets ?s) n' = Some t \<Longrightarrow> rtk_node_id t = n' \<and> status_of ?s n' = Some NS_Running" for n' t
    using assms by (auto simp: tickets_inv_def complete_fields bmap_simps status_of_def split: if_splits)
  ultimately show ?thesis using wf by (simp add: tickets_inv_def complete_fields bm_wf_remove)
qed

lemma tickets_begin:
  assumes "tickets_inv spec s" and "may_start (status_of s n)" and "ns_id node = n"
    and acq: "try_acquire (sc_resources s) node defaults plan_mode = Ok (m, ticket)"
  shows "tickets_inv spec (begin_attempt n m ticket s)"
proof -
  have old: "bm_get (sc_active_tickets s) n' = Some t \<Longrightarrow> rtk_node_id t = n' \<and> status_of s n' = Some NS_Running" for n' t
    using assms(1) by (auto simp: tickets_inv_def)
  have fresh: "bm_get (sc_active_tickets s) n = None"
    using old [of n] assms(2) by (cases "bm_get (sc_active_tickets s) n") (auto simp: may_start_def)
  obtain held where held: "resource_step\<^sup>*\<^sup>* (from_graph spec, []) (sc_resources s, held)"
    "mset held = mset (bm_values (sc_active_tickets s))" and wf: "bm_wf (sc_active_tickets s)"
    using assms(1) by (auto simp: tickets_inv_def)
  have "ns_id node \<notin> rtk_node_id ` set held"
  proof
    assume "ns_id node \<in> rtk_node_id ` set held"
    then obtain t where "t \<in> set (bm_values (sc_active_tickets s))" "rtk_node_id t = n"
      using held(2) assms(3) by (metis imageE mset_eq_setD)
    then obtain n' where "(n', t) \<in> set (sc_active_tickets s)" by (auto simp: bm_values_def)
    then have "bm_get (sc_active_tickets s) n' = Some t" by (simp add: bm_get_Some_iff [OF wf])
    with old [OF this] \<open>rtk_node_id t = n\<close> fresh show False by simp
  qed
  from resource_step.intros(1) [OF acq this]
  have "resource_step\<^sup>*\<^sup>* (from_graph spec, []) (m, ticket # held)" using held(1) by simp
  moreover have "rtk_node_id ticket = n" using acq assms(3) by (auto elim!: try_acquire_OkE)
  ultimately show ?thesis
    using old wf fresh held(2)
    by (auto simp: tickets_inv_def begin_attempt_def status_of_def bmap_simps bm_wf_insert mset_values_insert
        intro!: exI [of _ "ticket # held"])
qed


section \<open>Every change keeps the invariant\<close>

lemma change_statics: "change F s s' \<Longrightarrow> statics s' = statics s"
  by (induction rule: change.induct)
    (simp_all add: reserve_node_fields release_node_fields, simp_all add: statics_def complete_fields
      cancel_fields queue_worker_def begin_attempt_def Let_def)

lemma length_bm_remove_le: "length (bm_remove k m) \<le> length m"
  by (simp add: bm_remove_def)

lemma length_bm_insert_le: "length (bm_insert k v m) \<le> Suc (length m)"
  using length_bm_remove_le [of k m] by (simp add: bm_insert_def)

lemma change_workers: 
  assumes "change F s s'" and "workers_inv s" shows "workers_inv s'"
proof -
  have "sc_config s' = sc_config s" using change_statics [OF assms(1)] by (simp add: statics_def)
  with assms show ?thesis
  proof (induction rule: change.induct)
    case (change_worker s w n)
    then show ?case using length_bm_insert_le [of w n "sc_active_workers s"] by (simp add: workers_inv_def Let_def)
  next
    case (change_drop_worker s w)
    then show ?case using length_bm_remove_le [of w "sc_active_workers s"] by (simp add: workers_inv_def)
  qed (simp_all add: workers_inv_def reserve_node_fields release_node_fields complete_fields
        cancel_fields queue_worker_def begin_attempt_def)
qed

lemma change_statuses:
  assumes "change F s s'" and "scheduler_inv s"
  shows "bm_wf (sc_statuses s') \<and> set (bm_keys (sc_statuses s')) = set (bm_keys (sc_nodes s'))"
proof -
  have nodes: "sc_nodes s' = sc_nodes s" using change_statics [OF assms(1)] by (simp add: statics_def)
  have inv: "bm_wf (sc_statuses s)" "set (bm_keys (sc_statuses s)) = set (bm_keys (sc_nodes s))"
    using assms(2) by (simp_all add: scheduler_inv_def)
  from assms(1) nodes inv show ?thesis
  proof (induction rule: change.induct)
    case (change_begin s n node defaults plan_mode m ticket)
    have "n \<in> set (bm_keys (sc_nodes s))" using change_begin.hyps(1) bm_contains_keys by (metis bm_contains_def option.distinct(1))
    with change_begin show ?case by (auto simp: begin_attempt_def bmap_simps bm_wf_insert)
  next
    case (change_complete s n v st u)
    then show ?case by (auto simp: complete_fields bmap_simps bm_wf_insert bm_contains_keys)
  next
    case (change_cancel s v)
    then show ?case by (simp add: cancel_fields bm_wf_def bm_keys_def comp_def case_prod_beta)
  qed (simp_all add: reserve_node_fields release_node_fields queue_worker_def Let_def)
qed

lemma nodes_get:
  assumes "derived_ok s" and "bm_get (sc_nodes s) n = Some node"
  shows "ns_id node = n" and "node \<in> set (sb_nodes (gs_spec (sc_spec s)))"
proof -
  have "(n, node) \<in> set (map (\<lambda>node. (ns_id node, node)) (sb_nodes (gs_spec (sc_spec s))))"
    using assms bm_get_Some_iff [OF bm_wf_of_list] set_bm_of_list unfolding derived_ok_def by (metis subsetD)
  then show "ns_id node = n" "node \<in> set (sb_nodes (gs_spec (sc_spec s)))" by auto
qed

lemma release_tickets:
  "resource_step\<^sup>*\<^sup>* s0 (m, held) \<Longrightarrow> mset held = mset ts \<Longrightarrow>
   resource_step\<^sup>*\<^sup>* s0 (fold (\<lambda>t m. release_resources m t) ts m, [])"
proof (induction ts arbitrary: m held)
  case (Cons t ts)
  have "t \<in># mset held" by (simp add: Cons.prems(2))
  from Cons.IH [OF resource_release_held [OF Cons.prems(1) this]] Cons.prems(2) show ?case by simp
qed simp

text \<open>A change that touches neither the tickets nor the statuses.\<close>

lemma tickets_cong:
  "tickets_inv spec s \<Longrightarrow> sc_active_tickets s' = sc_active_tickets s \<Longrightarrow> sc_resources s' = sc_resources s \<Longrightarrow>
   sc_statuses s' = sc_statuses s \<Longrightarrow> tickets_inv spec s'"
  by (simp add: tickets_inv_def status_of_def)

lemma change_tickets:
  assumes "change F s s'" and "derived_ok s" and "tickets_inv spec s"
  shows "tickets_inv spec s'"
  using assms
proof (induction rule: change.induct)
  case (change_begin s n node defaults plan_mode m ticket)
  then show ?case by (intro tickets_begin) (auto dest: nodes_get)
next
  case (change_complete s n v st u)
  then show ?case by (simp add: tickets_complete)
next
  case (change_cancel s v)
  then obtain held where "resource_step\<^sup>*\<^sup>* (from_graph spec, []) (sc_resources s, held)"
    "mset held = mset (bm_values (sc_active_tickets s))" by (auto simp: tickets_inv_def)
  from release_tickets [OF this] show ?case by (simp add: tickets_inv_def cancel_fields bmap_simps bm_values_def)
qed (auto elim!: tickets_cong simp: reserve_node_fields release_node_fields queue_worker_def Let_def)

lemma release_reservations:
  "(ledger_step P)\<^sup>*\<^sup>* l (fold (\<lambda>rid l. fst (release l rid)) rids l)"
  "set (bm_keys (bl_reservations (fold (\<lambda>rid l. fst (release l rid)) rids l))) =
     set (bm_keys (bl_reservations l)) - set rids"
proof (induction rids arbitrary: l)
  case (Cons rid rids)
  { case 1 show ?case using Cons.IH(1) [of "fst (release l rid)"] ledger_step.step_release [of P l rid] by simp }
  { case 2 show ?case using Cons.IH(2) [of "fst (release l rid)"] by (auto simp: release_def bmap_simps) }
qed simp_all

lemma change_ledger: "change F s s' \<Longrightarrow> (ledger_step (\<lambda>_ _ _. True))\<^sup>*\<^sup>* (sc_budget s) (sc_budget s')"
proof (induction rule: change.induct)
  case (change_reserve s node run_id attempt)
  let ?l = "fst (reserve (sc_budget s) (run_id, ns_id node, attempt) (estimate_node node (sb_defaults (gs_spec (sc_spec s)))))"
  have "sc_budget (fst (reserve_node_budget run_id node attempt s)) \<in> {?l, stop_ledger ?l ''hard run budget reached''}"
    by (simp add: reserve_node_budget_def Let_def split: prod.split sum.split budget_error.split)
  moreover have "ledger_step (\<lambda>_ _ _. True) (sc_budget s) ?l" by (rule ledger_step.step_reserve)
  moreover have "ledger_step (\<lambda>_ _ _. True) ?l (stop_ledger ?l ''hard run budget reached'')" by (rule ledger_step.step_stop)
  ultimately show ?case by (auto intro: rtranclp.rtrancl_into_rtrancl)
next
  case (change_complete s n v st u)
  then show ?case by (auto simp: complete_fields intro: ledger_step.step_reconcile split: option.split)
next
  case (change_cancel s v)
  then show ?case by (simp add: cancel_fields release_reservations)
qed (auto simp: queue_worker_def begin_attempt_def release_node_budget_def Let_def intro: ledger_step.step_release
    split: option.split)

lemma reconcile_keys:
  "set (bm_keys (bl_reservations (fst (reconcile l rid u)))) = set (bm_keys (bl_reservations l)) - {rid}"
proof (cases "bm_get (bl_reservations l) rid")
  case None
  then show ?thesis using bm_contains_keys [of "bl_reservations l" rid] by (simp add: reconcile_missing bm_contains_def)
next
  case (Some res)
  from reconcile_fields [OF Some refl, of u] show ?thesis by (simp add: bm_keys_remove)
qed

lemma change_reservations:
  assumes "change F s s'" and "reservations_inv s"
  shows "reservations_inv s'"
  using assms
proof (induction rule: change.induct)
  case (change_reserve s node run_id attempt)
  let ?rid = "(run_id, ns_id node, attempt)"
  have fresh: "mset (bm_values (bm_insert (ns_id node) ?rid (sc_budget_reservations s))) =
      add_mset ?rid (mset (bm_values (sc_budget_reservations s)))"
    by (rule mset_values_insert [OF change_reserve.hyps(2)])
  then have "set (bm_values (bm_insert (ns_id node) ?rid (sc_budget_reservations s))) =
      insert ?rid (set (bm_values (sc_budget_reservations s)))"
    by (metis set_mset_add_mset_insert set_mset_mset)
  with change_reserve.prems show ?case
    by (auto simp: reserve_node_budget_def reservations_inv_def Let_def reserve_def stop_ledger_def bm_wf_insert bmap_simps
        split: prod.splits sum.splits budget_error.splits option.splits)
next
  case (change_unreserve s n)
  show ?case
  proof (cases "bm_get (sc_budget_reservations s) n")
    case (Some rid)
    have "set (bm_values (sc_budget_reservations s)) = insert rid (set (bm_values (bm_remove n (sc_budget_reservations s))))"
      using mset_values_take [OF _ Some] change_unreserve by (metis reservations_inv_def set_mset_add_mset_insert set_mset_mset)
    with change_unreserve Some show ?thesis
      by (auto simp: release_node_budget_def reservations_inv_def release_def bm_wf_remove bmap_simps)
  qed (use change_unreserve in \<open>simp add: release_node_budget_def\<close>)
next
  case (change_complete s n v st u)
  have resv: "sc_budget_reservations (complete_node_with_usage v n st u s) = bm_remove n (sc_budget_reservations s)"
    by (simp add: complete_node_with_usage_def Let_def bm_remove_absent split: option.split)
  show ?case
  proof (cases "bm_get (sc_budget_reservations s) n")
    case None
    with change_complete show ?thesis
      by (simp add: reservations_inv_def complete_fields resv bm_remove_absent)
  next
    case (Some rid)
    have "set (bm_values (sc_budget_reservations s)) = insert rid (set (bm_values (bm_remove n (sc_budget_reservations s))))"
      using mset_values_take [OF _ Some] change_complete by (metis reservations_inv_def set_mset_add_mset_insert set_mset_mset)
    with change_complete Some show ?thesis
      by (auto simp: reservations_inv_def complete_fields resv bm_wf_remove reservations_wf_kept reconcile_keys)
  qed
next
  case (change_cancel s v)
  have "bm_wf (bl_reservations (fold (\<lambda>rid l. fst (release l rid)) rids l))" if "bm_wf (bl_reservations l)" for rids l
    using that by (induction rids arbitrary: l) (simp_all add: reservations_wf_kept)
  with change_cancel show ?case
    by (auto simp: reservations_inv_def cancel_fields cancel_state_def Let_def release_reservations)
qed (simp_all add: reservations_inv_def queue_worker_def begin_attempt_def Let_def)

lemma change_completed:
  assumes "change F s s'"
    and "sc_run_status s = RS_Completed \<longrightarrow> list_all (\<lambda>x. x = NS_Succeeded) (bm_values (sc_statuses s))"
  shows "sc_run_status s' = RS_Completed \<longrightarrow> list_all (\<lambda>x. x = NS_Succeeded) (bm_values (sc_statuses s'))"
  using assms
proof (induction rule: change.induct)
  case (change_reserve s node run_id attempt)
  then show ?case using reserve_node_fields(8) [of run_id node attempt s] by auto
qed (auto simp: queue_worker_def release_node_fields begin_attempt_def complete_fields cancel_fields Let_def)

lemma change_inv: "change F s s' \<Longrightarrow> scheduler_inv s \<Longrightarrow> scheduler_inv s'"
proof -
  assume change: "change F s s'" and inv: "scheduler_inv s"
  note st = change_statics [OF change, unfolded statics_def]
  have "(ledger_step (\<lambda>_ _ _. True))\<^sup>*\<^sup>* (new_ledger (sb_budgets (gs_spec (sc_spec s')))) (sc_budget s')"
    using inv change_ledger [OF change] st by (auto simp: scheduler_inv_def)
  moreover have "tickets_inv (sc_spec s') s'"
    using inv change_tickets [OF change] st by (simp add: scheduler_inv_def)
  moreover have "derived_ok s'" using inv st by (simp add: scheduler_inv_def derived_ok_def)
  ultimately show "scheduler_inv s'"
    using change_statuses [OF change inv] change_workers [OF change] change_reservations [OF change]
      change_completed [OF change] inv
    by (simp add: scheduler_inv_def)
qed

lemma changes_inv: "(change F)\<^sup>*\<^sup>* s s' \<Longrightarrow> scheduler_inv s \<Longrightarrow> scheduler_inv s'"
  by (induction rule: rtranclp_induct) (auto intro: change_inv)

lemma changes_statics: "(change F)\<^sup>*\<^sup>* s s' \<Longrightarrow> statics s' = statics s"
  by (induction rule: rtranclp_induct) (auto dest: change_statics)


section \<open>The operations are sequences of changes\<close>

text \<open>A node that the scheduler may try in this state.\<close>

definition startable :: "scheduler \<Rightarrow> node_id \<Rightarrow> bool" where
  "startable s n \<longleftrightarrow> bm_contains (sc_nodes s) n \<and> may_start (status_of s n) \<and> deps_done s n"

definition reservations_running :: "scheduler \<Rightarrow> bool" where
  "reservations_running s \<longleftrightarrow> (\<forall>n. bm_get (sc_budget_reservations s) n \<noteq> None \<longrightarrow> status_of s n = Some NS_Running)"

text \<open>The ways a try of a node can end.\<close>

definition worker_added :: "string \<Rightarrow> node_id \<Rightarrow> scheduler \<Rightarrow> scheduler" where
  "worker_added w n s =
     (let s1 = s\<lparr>sc_active_workers := bm_insert w n (sc_active_workers s)\<rparr>
      in s1\<lparr>sc_peak_active_workers := max (sc_peak_active_workers s1) (length (sc_active_workers s1))\<rparr>)"

lemma try_node_cases:
  assumes "try_node backend v run_id n s b = ((s', b'), turn)" and "bm_get (sc_nodes s) n = Some node"
    and "bm_contains (sc_statuses s) n"
  obtains
    (full) "s' = queue_worker n s" "b' = b" "turn = Next_Node"
      "is_model_worker node" "unat (cf_max_active_model_calls (sc_config s)) \<le> length (sc_active_workers s)"
  | (stopped) attempt where "s' = fst (reserve_node_budget run_id node attempt s)" "b' = b"
      "snd (reserve_node_budget run_id node attempt s) = Ok False" "turn = Break_Loop"
  | (refused) attempt e where "s' = fst (reserve_node_budget run_id node attempt s)" "b' = b"
      "snd (reserve_node_budget run_id node attempt s) = Err e" "turn = Return_Error e"
  | (contended) attempt e where "s' = queue_worker n (release_node_budget n (fst (reserve_node_budget run_id node attempt s)))"
      "b' = b" "snd (reserve_node_budget run_id node attempt s) = Ok True" "turn = Next_Node"
      "try_acquire (sc_resources s) node (sb_defaults (gs_spec (sc_spec s))) (cf_plan_mode (sc_config s)) = Err e"
  | (denied) attempt e where "s' = release_node_budget n (fst (reserve_node_budget run_id node attempt s))" "b' = b"
      "snd (reserve_node_budget run_id node attempt s) = Ok True"
      "try_acquire (sc_resources s) node (sb_defaults (gs_spec (sc_spec s))) (cf_plan_mode (sc_config s)) = Err e"
      "\<not> is_contention e" "turn = Return_Error (SE_Resource n e)"
  | (begun) attempt m ticket s1 where "s1 = begin_attempt n m ticket (fst (reserve_node_budget run_id node attempt s))"
      "snd (reserve_node_budget run_id node attempt s) = Ok True"
      "try_acquire (sc_resources s) node (sb_defaults (gs_spec (sc_spec s))) (cf_plan_mode (sc_config s)) = Ok (m, ticket)"
      "is_model_worker node \<longrightarrow> length (sc_active_workers s) < unat (cf_max_active_model_calls (sc_config s))"
      "launch backend v run_id node s1 b = ((s', b'), turn)"
proof -
  let ?a = "unwrap_or (bm_get (sc_attempts s) n) 0 + 1"
  let ?r = "reserve_node_budget run_id node ?a s"
  note st = reserve_node_fields(1) [of run_id node "unwrap_or (bm_get (sc_attempts s) n) 0 + 1" s, unfolded statics_def]
  have same: "sc_spec (fst ?r) = sc_spec s" "sc_config (fst ?r) = sc_config s" using st by simp_all
  show thesis
  proof (cases "is_model_worker node \<and> unat (cf_max_active_model_calls (sc_config s)) \<le> length (sc_active_workers s)")
    case True
    with assms full show thesis by (auto simp: try_node_def)
  next
    case False
    note attempted = assms(1) [unfolded try_node_def assms(2) option.case if_not_P [OF False]]
    obtain s1 r where r: "?r = (s1, r)" by (cases ?r)
    have s1: "fst ?r = s1" "snd ?r = r" by (simp_all add: r)
    have keeps: "sc_resources s1 = sc_resources s" "sc_statuses s1 = sc_statuses s" "sc_spec s1 = sc_spec s"
      "sc_config s1 = sc_config s"
      using same s1(1) reserve_node_fields(2,6) by (metis (no_types))+
    let ?acq = "try_acquire (sc_resources s) node (sb_defaults (gs_spec (sc_spec s))) (cf_plan_mode (sc_config s))"
    show thesis
    proof (cases r)
      case (Inl e)
      with attempted s1 r show thesis by (intro refused [of ?a e]) simp_all
    next
      case (Inr ok)
      show thesis
      proof (cases ok)
        case False
        with attempted Inr s1 r show thesis by (intro stopped [of ?a]) simp_all
      next
        case True
        show thesis
        proof (cases ?acq)
          case (Inl e)
          with attempted Inr True s1 r keeps show thesis
            by (cases "is_contention e") (auto intro: contended [of ?a e] denied [of ?a e])
        next
          case (Inr mt)
          obtain m ticket where mt: "mt = (m, ticket)" by (cases mt)
          have "launch backend v run_id node (begin_attempt n m ticket s1) b = ((s', b'), turn)"
            using attempted \<open>r = Inr ok\<close> True Inr mt r keeps assms(3) by simp
          moreover have "is_model_worker node \<longrightarrow> length (sc_active_workers s) < unat (cf_max_active_model_calls (sc_config s))"
            using False by auto
          ultimately show thesis
            using begun [OF refl, of ?a m ticket] \<open>r = Inr ok\<close> True Inr mt s1 by simp
        qed
      qed
    qed
  qed
qed

lemma launch_cases:
  assumes "launch backend v run_id node s b = ((s', b'), turn)"
  obtains
    (failed) e request where "wb_start backend request b = (b', Inl e)" "wq_node_id request = ns_id node" "s' = s"
      "turn = Return_Error (SE_Worker e)" "is_model_worker node"
  | (started) request handle where "wb_start backend request b = (b', Inr handle)" "wq_node_id request = ns_id node"
      "s' = worker_added (wh_worker_id handle) (ns_id node) s" "turn = Next_Node" "is_model_worker node"
  | (computed) "\<not> is_model_worker node" "s' = complete_node v (ns_id node) NS_Succeeded s" "b' = b" "turn = Next_Node"
proof (cases "is_model_worker node")
  case True
  let ?request = "\<lparr>wq_graph_run_id = run_id, wq_node_id = ns_id node,
      wq_attempt = unwrap_or (bm_get (sc_attempts s) (ns_id node)) 0, wq_objective = ns_objective node\<rparr>"
  obtain b1 r where start: "wb_start backend ?request b = (b1, r)" by (cases "wb_start backend ?request b")
  have id: "wq_node_id ?request = ns_id node" by simp
  have result: "((s', b'), turn) = (case (b1, r) of
       (b', Inl e) \<Rightarrow> ((s, b'), Return_Error (SE_Worker e))
     | (b', Inr handle) \<Rightarrow> ((worker_added (wh_worker_id handle) (ns_id node) s, b'), Next_Node))"
    using assms unfolding launch_def Let_def start if_P [OF True] worker_added_def by simp
  show thesis
  proof (cases r)
    case (Inl e)
    with result show thesis using failed [OF _ id, of e] start True by simp
  next
    case (Inr handle)
    with result show thesis using started [OF _ id, of handle] start True by simp
  qed
next
  case False
  with assms computed show thesis by (simp add: launch_def Let_def)
qed

lemma reserve_node_reservations:
  "snd (reserve_node_budget run_id node attempt s) = Ok True \<Longrightarrow>
     sc_budget_reservations (fst (reserve_node_budget run_id node attempt s)) =
       bm_insert (ns_id node) (run_id, ns_id node, attempt) (sc_budget_reservations s) \<and>
     sc_run_status (fst (reserve_node_budget run_id node attempt s)) = sc_run_status s"
  "snd (reserve_node_budget run_id node attempt s) \<noteq> Ok True \<Longrightarrow>
     sc_budget_reservations (fst (reserve_node_budget run_id node attempt s)) = sc_budget_reservations s"
  by (auto simp: reserve_node_budget_def Let_def split: prod.splits sum.splits budget_error.splits)

lemma release_node_reservations:
  "sc_budget_reservations (release_node_budget n s) = bm_remove n (sc_budget_reservations s)"
  by (simp add: release_node_budget_def bm_remove_absent split: option.split)

lemma begin_status: "status_of (begin_attempt n m ticket s) n' = (if n' = n then Some NS_Running else status_of s n')"
  by (simp add: status_of_def begin_attempt_def bmap_simps)

lemma complete_reservations:
  "sc_budget_reservations (complete_node_with_usage v n st u s) = bm_remove n (sc_budget_reservations s)"
  by (simp add: complete_node_with_usage_def Let_def bm_remove_absent split: option.split)

lemma complete_status:
  "status_of (complete_node_with_usage v n st u s) n' =
     (if n' = n \<and> status_of s n \<noteq> None then Some st else status_of s n')"
  by (simp add: status_of_def complete_fields bmap_simps bm_contains_def)

text \<open>What a try leaves of the run, for every answer of the backend.\<close>

definition tried :: "'b worker_backend \<Rightarrow> node_id \<Rightarrow> scheduler \<times> 'b \<Rightarrow> scheduler \<times> 'b \<Rightarrow> bool" where
  "tried backend n sb sb' \<longleftrightarrow>
     (\<forall>F. (change F)\<^sup>*\<^sup>* (fst sb) (fst sb')) \<and>
     (\<forall>n'. n' \<noteq> n \<longrightarrow> status_of (fst sb') n' = status_of (fst sb) n') \<and>
     reservations_running (fst sb') \<and>
     sc_run_status (fst sb') \<in> {sc_run_status (fst sb), RS_BudgetStopped} \<and>
     (snd sb' = snd sb \<or> status_of (fst sb') n = Some NS_Running \<and>
        (\<exists>request r. wb_start backend request (snd sb) = (snd sb', r) \<and> wq_node_id request = n))"

lemma launched:
  assumes "launch backend v run_id node s b = ((s', b'), turn)" and "status_of s (ns_id node) = Some NS_Running"
    and "sc_run_status s \<noteq> RS_Completed" and "reservations_running s"
    and "is_model_worker node \<longrightarrow> length (sc_active_workers s) < unat (cf_max_active_model_calls (sc_config s))"
  shows "tried backend (ns_id node) (s, b) (s', b') \<and> sc_run_status s' = sc_run_status s \<and>
    (turn = Next_Node \<or> (\<exists>e. turn = Return_Error (SE_Worker e)))"
  using assms(1)
proof (cases rule: launch_cases)
  case (failed e request)
  with assms(2,4) show ?thesis by (auto simp: tried_def)
next
  case (started request handle)
  have "change F s s'" for F
    unfolding started(3) worker_added_def by (rule change_worker) (use assms(5) started(5) in simp)
  then have "(change F)\<^sup>*\<^sup>* s s'" for F by blast
  with started assms(2,4) show ?thesis
    by (auto simp: tried_def worker_added_def Let_def status_of_def reservations_running_def)
next
  case computed
  have "change F s s'" for F
    unfolding computed(2) complete_node_def by (rule change_complete) (use assms(2,3) in simp_all)
  then have "(change F)\<^sup>*\<^sup>* s s'" for F by blast
  with computed assms(2,4) show ?thesis
    by (auto simp: tried_def complete_node_def complete_status complete_fields reservations_running_def
        complete_reservations bmap_simps)
qed

lemma try_node_tried:
  assumes "try_node backend v run_id n s b = ((s', b'), turn)"
    and inv: "scheduler_inv s" and resv: "reservations_running s" and start: "startable s n"
    and run: "sc_run_status s = RS_Running"
  shows "tried backend n (s, b) (s', b') \<and> turn \<noteq> Panic \<and> (turn = Next_Node \<longrightarrow> sc_run_status s' = RS_Running)"
proof -
  obtain node where node: "bm_get (sc_nodes s) n = Some node"
    using start by (auto simp: startable_def bm_contains_def)
  have nid: "ns_id node = n" using nodes_get(1) [OF _ node] inv by (simp add: scheduler_inv_def)
  have status: "bm_contains (sc_statuses s) n" and idle: "status_of s n \<noteq> Some NS_Running"
    using start by (auto simp: startable_def may_start_def status_of_def bm_contains_def elim!: is_some_and.elims)
  have fresh: "bm_get (sc_budget_reservations s) n = None"
    using resv idle unfolding reservations_running_def by blast
  let ?s1 = "\<lambda>attempt. fst (reserve_node_budget run_id node attempt s)"
  have reserved: "change F s (?s1 attempt)" for F attempt
    by (rule change_reserve) (use run fresh nid in simp_all)
  have same: "status_of (?s1 attempt) = status_of s" for attempt
    by (simp add: fun_eq_iff status_of_def reserve_node_fields)
  from assms(1) node status show ?thesis
  proof (cases rule: try_node_cases)
    case full
    have "change F s s'" for F unfolding full(1) by (rule change_queue)
    then have "(change F)\<^sup>*\<^sup>* s s'" for F by blast
    with full resv run show ?thesis by (auto simp: tried_def queue_worker_def status_of_def reservations_running_def)
  next
    case (stopped attempt)
    with reserved [of _ attempt] have "(change F)\<^sup>*\<^sup>* s s'" for F by blast
    with stopped resv run same [of attempt] reserve_node_fields(8) [of run_id node attempt s]
      reserve_node_reservations(2) [of run_id node attempt s]
    show ?thesis by (auto simp: tried_def reservations_running_def)
  next
    case (refused attempt e)
    with reserved [of _ attempt] have "(change F)\<^sup>*\<^sup>* s s'" for F by blast
    with refused resv run same [of attempt] reserve_node_fields(8) [of run_id node attempt s]
      reserve_node_reservations(2) [of run_id node attempt s]
    show ?thesis by (auto simp: tried_def reservations_running_def)
  next
    case (contended attempt e)
    have "change F (?s1 attempt) (release_node_budget n (?s1 attempt))"
      "change F (release_node_budget n (?s1 attempt)) s'" for F
      unfolding contended(1) by (rule change_unreserve, rule change_queue)
    with reserved [of _ attempt] have "(change F)\<^sup>*\<^sup>* s s'" for F by (blast intro: rtranclp.rtrancl_into_rtrancl)
    moreover have "status_of s' = status_of s"
      by (simp add: fun_eq_iff contended(1) queue_worker_def status_of_def release_node_fields reserve_node_fields)
    moreover have "sc_budget_reservations s' = sc_budget_reservations s" "sc_run_status s' = RS_Running"
      using reserve_node_reservations(1) [OF contended(3)] fresh run
      by (simp_all add: contended(1) queue_worker_def release_node_reservations release_node_fields nid bm_remove_insert)
    ultimately show ?thesis using contended(2,4) resv run by (simp add: tried_def reservations_running_def)
  next
    case (denied attempt e)
    have "change F (?s1 attempt) s'" for F unfolding denied(1) by (rule change_unreserve)
    with reserved [of _ attempt] have "(change F)\<^sup>*\<^sup>* s s'" for F by (blast intro: rtranclp.rtrancl_into_rtrancl)
    moreover have "status_of s' = status_of s"
      by (simp add: fun_eq_iff denied(1) status_of_def release_node_fields reserve_node_fields)
    moreover have "sc_budget_reservations s' = sc_budget_reservations s" "sc_run_status s' = RS_Running"
      using reserve_node_reservations(1) [OF denied(3)] fresh run
      by (simp_all add: denied(1) release_node_reservations release_node_fields nid bm_remove_insert)
    ultimately show ?thesis using denied(2,6) resv run by (simp add: tried_def reservations_running_def)
  next
    case (begun attempt m ticket s1)
    note st = reserve_node_fields(1) [of run_id node attempt s, unfolded statics_def]
    have "change F (?s1 attempt) s1" for F
      unfolding begun(1)
    proof (rule change_begin)
      show "bm_get (sc_nodes (?s1 attempt)) n = Some node" using node st by simp
      show "may_start (status_of (?s1 attempt) n)" using start same [of attempt] by (simp add: startable_def)
      show "deps_done (?s1 attempt) n"
        by (rule dependencies_mono [of s]) (use start same [of attempt] st in \<open>simp_all add: startable_def\<close>)
      show "try_acquire (sc_resources (?s1 attempt)) node (sb_defaults (gs_spec (sc_spec s))) (cf_plan_mode (sc_config s)) = Ok (m, ticket)"
        using begun(3) by (simp add: reserve_node_fields)
      show "sc_run_status (?s1 attempt) \<noteq> RS_Completed"
        using reserve_node_reservations(1) [OF begun(2)] run by simp
    qed
    with reserved [of _ attempt] have changes: "(change F)\<^sup>*\<^sup>* s s1" for F by (blast intro: rtranclp.rtrancl_into_rtrancl)
    have s1: "status_of s1 n' = (if n' = n then Some NS_Running else status_of s n')" for n'
      using same [of attempt] by (simp add: begun(1) begin_status)
    have fields: "sc_run_status s1 = RS_Running" "reservations_running s1" "sc_active_workers s1 = sc_active_workers s"
      "sc_config s1 = sc_config s"
      using reserve_node_reservations(1) [OF begun(2)] run nid resv st s1
      by (auto simp: begun(1) begin_attempt_def reserve_node_fields reservations_running_def bmap_simps)
    have "tried backend n (s1, b) (s', b') \<and> sc_run_status s' = sc_run_status s1 \<and>
        (turn = Next_Node \<or> (\<exists>e. turn = Return_Error (SE_Worker e)))"
      using launched [OF begun(5)] s1 [of n] fields begun(4) by (simp add: nid)
    with changes s1 fields run show ?thesis by (auto simp: tried_def intro: rtranclp_trans)
  qed
qed

end
