(* ===== verification/Scheduler_Correct.thy ===== *)
theory Scheduler_Correct
  imports Scheduler_Run
begin

text \<open>
  Runs of the scheduler: sequences of its public operations from a state that \<open>new_scheduler\<close>
  accepted, with any behaviour of the workers between them. Every operation is a sequence of the
  changes of \<open>Scheduler_Run\<close>, so its invariant holds throughout. With a faithful backend also the
  order of the graph is kept.
\<close>

section \<open>The loop over ready nodes\<close>

lemma tried_startable:
  assumes "tried backend n (s, b) (s', b')" and "startable s n" and "startable s n'" and "n' \<noteq> n"
  shows "startable s' n'"
proof -
  have "statics s' = statics s" using assms(1) changes_statics [of True s s'] by (auto simp: tried_def)
  then have same: "sc_nodes s' = sc_nodes s" "sc_incoming_edges s' = sc_incoming_edges s"
    "sc_dependencies s' = sc_dependencies s" by (simp_all add: statics_def)
  have "status_of s' d = Some st" if "status_of s d = Some st" "node_status_is_terminal st" for d st
    using assms(1,2) that by (cases "d = n") (auto simp: tried_def startable_def may_start_def)
  from dependencies_mono [OF _ same(3,2) this] show ?thesis
    using assms(1,3,4) by (simp add: startable_def tried_def same)
qed

lemma try_nodes_effect:
  assumes "try_nodes backend v run_id ids (s, b) = (sb', turn)"
    and "scheduler_inv s" and "reservations_running s" and "distinct ids"
    and "\<forall>n \<in> set ids. startable s n" and "sc_run_status s = RS_Running"
    and keep: "\<And>n sb sb'. startable (fst sb) n \<Longrightarrow> tried backend n sb sb' \<Longrightarrow> P sb \<Longrightarrow> P sb'" and "P (s, b)"
  shows "(\<forall>F. (change F)\<^sup>*\<^sup>* s (fst sb')) \<and> reservations_running (fst sb') \<and> turn \<noteq> Panic \<and>
    sc_run_status (fst sb') \<in> {RS_Running, RS_BudgetStopped} \<and> P sb' \<and>
    (\<forall>e. turn = Return_Error e \<longrightarrow> (\<exists>n s1 b1 sb2. scheduler_inv s1 \<and> statics s1 = statics s \<and> startable s1 n \<and>
       try_node backend v run_id n s1 b1 = (sb2, Return_Error e)))"
  using assms(1-6,8)
proof (induction ids arbitrary: s b)
  case (Cons n ids)
  obtain s1 b1 turn1 where one: "try_node backend v run_id n s b = ((s1, b1), turn1)"
    by (metis prod.exhaust)
  have start: "startable s n" using Cons.prems(5) by simp
  note tried = try_node_tried [OF one Cons.prems(2,3) start Cons.prems(6)]
  have kept: "(\<forall>F. (change F)\<^sup>*\<^sup>* s s1)" "reservations_running s1" "sc_run_status s1 \<in> {RS_Running, RS_BudgetStopped}"
    using tried Cons.prems(6) by (auto simp: tried_def)
  have P1: "P (s1, b1)" using keep [of "(s, b)" n "(s1, b1)"] start tried Cons.prems(7) by simp
  show ?case
  proof (cases "turn1 = Next_Node")
    case True
    have "\<forall>n' \<in> set ids. startable s1 n'"
      using tried_startable [of backend n s b s1 b1] tried start Cons.prems(4,5) by auto
    with Cons.IH [of s1 b1] Cons.prems(1,2,4) one True tried kept P1 changes_inv [of True s s1] changes_statics [of True s s1]
    show ?thesis by (auto intro: rtranclp_trans)
  next
    case False
    with Cons.prems(1) one tried have "sb' = (s1, b1)" "turn = turn1" by (auto split: turn.splits)
    moreover have "\<exists>n s1 b1 sb2. scheduler_inv s1 \<and> statics s1 = statics s \<and> startable s1 n \<and>
        try_node backend v run_id n s1 b1 = (sb2, Return_Error e)" if "turn1 = Return_Error e" for e
      using one start Cons.prems(2) that by blast
    ultimately show ?thesis using kept P1 tried by simp
  qed
qed auto

lemma ready_startable: "n \<in> set (run_ready_nodes s) \<Longrightarrow> sc_run_status s = RS_Running \<Longrightarrow> startable s n"
  by (auto simp: run_ready_nodes_def runnable_node_def startable_def may_start_def status_of_def deps_done_def
      bm_contains_def elim!: is_some_and.elims split: if_splits)

lemma ready_distinct: "derived_ok s \<Longrightarrow> sc_run_status s = RS_Running \<Longrightarrow> distinct (run_ready_nodes s)"
  using bm_wf_of_list [of "map (\<lambda>node. (ns_id node, node)) (sb_nodes (gs_spec (sc_spec s)))"]
  by (simp add: run_ready_nodes_def derived_ok_def bm_wf_def bm_keys_def)

section \<open>Completions\<close>

lemma accept_changes:
  assumes "F \<Longrightarrow> status_of s (wc_node_id c) = Some NS_Running" and "sc_run_status s \<noteq> RS_Completed"
    and "reservations_running s"
  shows "(change F)\<^sup>*\<^sup>* s (accept_completion v c s)" and "sc_run_status (accept_completion v c s) = sc_run_status s"
    and "reservations_running (accept_completion v c s)"
    and "n \<noteq> wc_node_id c \<Longrightarrow> status_of (accept_completion v c s) n = status_of s n"
proof -
  let ?s1 = "case find (\<lambda>(_, nid). nid = wc_node_id c) (sc_active_workers s) of
      None \<Rightarrow> s | Some (worker_id, _) \<Rightarrow> s\<lparr>sc_active_workers := bm_remove worker_id (sc_active_workers s)\<rparr>"
  have s1: "(change F)\<^sup>*\<^sup>* s ?s1" "status_of ?s1 = status_of s" "sc_run_status ?s1 = sc_run_status s"
    "sc_budget_reservations ?s1 = sc_budget_reservations s"
    by (auto simp: status_of_def fun_eq_iff intro: change_drop_worker split: option.split)
  have acc: "accept_completion v c s =
      complete_node_with_usage v (wc_node_id c) (no_status (wc_output c)) (Some (wc_usage c)) ?s1"
    by (simp add: accept_completion_def Let_def)
  have "change F ?s1 (accept_completion v c s)"
    unfolding acc by (rule change_complete) (use assms s1 in simp_all)
  with s1(1) show "(change F)\<^sup>*\<^sup>* s (accept_completion v c s)" by (rule rtranclp.rtrancl_into_rtrancl)
  show "sc_run_status (accept_completion v c s) = sc_run_status s"
    unfolding acc by (simp add: complete_fields s1)
  show "reservations_running (accept_completion v c s)"
    using assms(3) unfolding acc
    by (auto simp: reservations_running_def complete_status complete_reservations s1 bmap_simps)
  show "n \<noteq> wc_node_id c \<Longrightarrow> status_of (accept_completion v c s) n = status_of s n"
    unfolding acc by (simp add: complete_status s1)
qed

lemma accept_all_changes:
  assumes "F \<Longrightarrow> distinct (map wc_node_id cs) \<and> (\<forall>c \<in> set cs. status_of s (wc_node_id c) = Some NS_Running)"
    and "sc_run_status s \<noteq> RS_Completed" and "reservations_running s"
  shows "(change F)\<^sup>*\<^sup>* s (fold (accept_completion v) cs s) \<and>
    sc_run_status (fold (accept_completion v) cs s) = sc_run_status s \<and>
    reservations_running (fold (accept_completion v) cs s) \<and>
    (\<forall>n. n \<notin> wc_node_id ` set cs \<longrightarrow> status_of (fold (accept_completion v) cs s) n = status_of s n)"
  using assms
proof (induction cs arbitrary: s)
  case (Cons c cs)
  have run: "F \<Longrightarrow> status_of s (wc_node_id c) = Some NS_Running" using Cons.prems(1) by simp
  note one = accept_changes [of F s c, OF run Cons.prems(2,3)]
  have "F \<Longrightarrow> distinct (map wc_node_id cs) \<and>
      (\<forall>c' \<in> set cs. status_of (accept_completion v c s) (wc_node_id c') = Some NS_Running)"
    using Cons.prems(1) one(4) by (metis (no_types, lifting) distinct.simps(2) image_eqI list.set_intros(2) list.set_map list.simps(9))
  from Cons.IH [OF this] one Cons.prems(2) show ?case by (auto intro: rtranclp_trans)
qed simp

section \<open>A step\<close>

text \<open>Requests without an answer belong to running nodes, one for each at most.\<close>

definition pending_running :: "('b \<Rightarrow> node_id multiset) \<Rightarrow> scheduler \<times> 'b \<Rightarrow> bool" where
  "pending_running pending sb \<longleftrightarrow>
     (\<forall>n. count (pending (snd sb)) n \<le> (if status_of (fst sb) n = Some NS_Running then 1 else 0))"

lemma pending_shrinks:
  assumes "pending_running pending (s, b)" and "pending b' \<subseteq># pending b"
  shows "pending_running pending (s, b')"
  using assms mset_subset_eq_count [OF assms(2)] le_trans unfolding pending_running_def fst_conv snd_conv by blast

lemma tried_pending:
  assumes "faithful_backend backend pending progress" and "startable (fst sb) n" and "tried backend n sb sb'"
    and "pending_running pending sb"
  shows "pending_running pending sb'"
proof -
  have others: "status_of (fst sb') n' = status_of (fst sb) n'" if "n' \<noteq> n" for n'
    using assms(3) that by (simp add: tried_def)
  have idle: "count (pending (snd sb)) n = 0"
  proof -
    have "status_of (fst sb) n \<noteq> Some NS_Running" using assms(2) by (auto simp: startable_def may_start_def)
    with assms(4) show ?thesis unfolding pending_running_def by (metis le_zero_eq)
  qed
  show ?thesis
  proof (cases "snd sb' = snd sb")
    case True
    then show ?thesis using assms(4) idle others unfolding pending_running_def by (metis le0)
  next
    case False
    with assms(3) obtain request r where "wb_start backend request (snd sb) = (snd sb', r)"
      and run: "wq_node_id request = n" "status_of (fst sb') n = Some NS_Running" by (auto simp: tried_def)
    note sub = faithful_backend.start_pending [OF assms(1) this(1)]
    have start: "count (pending (snd sb')) n' \<le> count (add_mset n (pending (snd sb))) n'" for n'
      using mset_subset_eq_count [OF sub, of n'] by (simp only: run(1))
    have "count (pending (snd sb')) n' \<le> (if status_of (fst sb') n' = Some NS_Running then 1 else 0)" for n'
    proof (cases "n' = n")
      case True
      with start [of n] idle run(2) show ?thesis by simp
    next
      case False
      with start [of n'] others [OF False] assms(4) show ?thesis
        unfolding pending_running_def by (metis count_add_mset le_trans)
    qed
    then show ?thesis by (simp add: pending_running_def)
  qed
qed

lemma distinct_once:
  assumes "\<And>x. count (mset xs) x \<le> 1"
  shows "distinct xs"
proof -
  have "count (mset xs) x = (if x \<in> set xs then 1 else 0)" for x
  proof (cases "x \<in> set xs")
    case True
    then have "0 < count (mset xs) x" by simp
    with assms [of x] have "count (mset xs) x = 1" by linarith
    with True show ?thesis by simp
  qed (simp add: count_mset_0_iff)
  then show ?thesis unfolding distinct_count_atmost_1 by blast
qed

lemma polled_running:
  assumes "faithful_backend backend pending progress" and "pending_running pending (s, b)"
    and "wb_poll_completed backend b = (b', cs)"
  shows "distinct (map wc_node_id cs) \<and> (\<forall>c \<in> set cs. status_of s (wc_node_id c) = Some NS_Running)"
    and "n \<in> wc_node_id ` set cs \<Longrightarrow> count (pending b') n = 0"
proof -
  have bound: "count (pending b') n + count (mset (map wc_node_id cs)) n \<le> (if status_of s n = Some NS_Running then 1 else 0)" for n
    using faithful_backend.poll_pending [OF assms(1,3)] assms(2) mset_subset_eq_count
    unfolding pending_running_def fst_conv snd_conv by (metis count_union le_trans)
  have "count (mset (map wc_node_id cs)) n \<le> 1" for n using bound [of n] by (auto split: if_splits)
  then have "distinct (map wc_node_id cs)" by (rule distinct_once)
  moreover have pos: "0 < count (mset (map wc_node_id cs)) (wc_node_id c)" if "c \<in> set cs" for c using that by auto
  moreover have "status_of s (wc_node_id c) = Some NS_Running" if "c \<in> set cs" for c
  proof (rule ccontr)
    assume "status_of s (wc_node_id c) \<noteq> Some NS_Running"
    from bound [of "wc_node_id c", unfolded if_not_P [OF this]] pos [OF that] show False by linarith
  qed
  ultimately show "distinct (map wc_node_id cs) \<and> (\<forall>c \<in> set cs. status_of s (wc_node_id c) = Some NS_Running)"
    by blast
  show "n \<in> wc_node_id ` set cs \<Longrightarrow> count (pending b') n = 0"
  proof -
    assume "n \<in> wc_node_id ` set cs"
    then have "0 < count (mset (map wc_node_id cs)) n" using pos by auto
    moreover have "count (pending b') n + count (mset (map wc_node_id cs)) n \<le> 1"
      using bound [of n] by (rule order_trans) simp
    ultimately show ?thesis by linarith
  qed
qed

text \<open>What an operation keeps; \<open>F\<close> says whether the backend is known to keep its contract.\<close>

definition deps_inv :: "scheduler \<Rightarrow> bool" where
  "deps_inv s \<longleftrightarrow> (\<forall>n. status_of s n \<in> {Some NS_Running, Some NS_Succeeded} \<longrightarrow> deps_done s n)"

type_synonym statics =
  "graph_spec \<times> scheduler_config \<times> (node_id, node_id bset) bmap \<times> (node_id, edge_spec list) bmap \<times>
   (node_id, node_spec) bmap"

definition run_inv :: "bool \<Rightarrow> ('b \<Rightarrow> node_id multiset) \<Rightarrow> statics \<Rightarrow> scheduler \<times> 'b \<Rightarrow> bool" where
  "run_inv F pending st sb \<longleftrightarrow>
     statics (fst sb) = st \<and> scheduler_inv (fst sb) \<and> reservations_running (fst sb) \<and>
     (F \<longrightarrow> deps_inv (fst sb) \<and> (sc_run_status (fst sb) \<noteq> RS_Cancelled \<longrightarrow> pending_running pending sb))"

lemma change_deps:
  assumes "change True s s'" and "deps_inv s"
  shows "deps_inv s'"
proof -
  have same: "sc_incoming_edges s' = sc_incoming_edges s" "sc_dependencies s' = sc_dependencies s"
    using change_statics [OF assms(1)] by (simp_all add: statics_def)
  have grow: "status_of s n = Some st \<Longrightarrow> node_status_is_terminal st \<Longrightarrow> status_of s' n = Some st" for n st
    using assms(1)
  proof (induction rule: change.induct)
    case (change_begin s m)
    then show ?case by (auto simp: begin_status may_start_def)
  next
    case (change_complete s m)
    then show ?case by (auto simp: complete_status)
  next
    case (change_cancel s)
    then show ?case
      by (auto simp: status_of_def cancel_fields bm_get_def map_of_map comp_def)
  qed (simp_all add: status_of_def reserve_node_fields release_node_fields queue_worker_def Let_def)
  note keep = dependencies_mono [OF _ same(2,1) grow]
  have "deps_done s n" if "status_of s' n \<in> {Some NS_Running, Some NS_Succeeded}" for n
    using assms that
  proof (induction rule: change.induct)
    case (change_begin s m)
    then show ?case by (auto simp: begin_status deps_inv_def split: if_splits)
  next
    case (change_complete s m)
    then show ?case by (auto simp: complete_status deps_inv_def split: if_splits)
  next
    case (change_cancel s)
    then show ?case
      by (auto simp: status_of_def cancel_fields bm_get_def map_of_map comp_def deps_inv_def split: if_splits)
  qed (simp_all add: status_of_def reserve_node_fields release_node_fields queue_worker_def Let_def deps_inv_def, blast+)
  with keep show ?thesis by (auto simp: deps_inv_def)
qed

lemma changes_deps: "(change True)\<^sup>*\<^sup>* s s' \<Longrightarrow> deps_inv s \<Longrightarrow> deps_inv s'"
  by (induction rule: rtranclp_induct) (auto intro: change_deps)

lemma run_inv_changes:
  assumes "run_inv F pending st (s, b)" and "(change F)\<^sup>*\<^sup>* s s'" and "reservations_running s'"
    and "F \<Longrightarrow> sc_run_status s' \<noteq> RS_Cancelled \<Longrightarrow> pending_running pending (s', b')"
  shows "run_inv F pending st (s', b')"
  using assms changes_inv [OF assms(2)] changes_deps [of s s'] changes_statics [OF assms(2)] by (auto simp: run_inv_def)

lemma step_run_inv:
  assumes step: "scheduler_step backend v run_id (s, b) = ((s', b'), r)" and inv: "run_inv F pending st (s, b)"
    and faithful: "F \<Longrightarrow> faithful_backend backend pending progress"
  shows "run_inv F pending st (s', b') \<and> r \<noteq> None"
proof (cases "sc_run_status s = RS_Running")
  case False
  with step inv show ?thesis by (auto simp: scheduler_step_def)
next
  case True
  obtain s1 b1 turn where tries: "try_nodes backend v run_id (run_ready_nodes s) (s, b) = ((s1, b1), turn)"
    by (metis prod.exhaust)
  have pend: "F \<longrightarrow> pending_running pending (s, b)" and base: "scheduler_inv s" "reservations_running s"
    using inv True by (simp_all add: run_inv_def)
  have ready: "\<forall>n \<in> set (run_ready_nodes s). startable s n" "distinct (run_ready_nodes s)"
    using ready_startable ready_distinct True base(1) by (auto simp: scheduler_inv_def)
  have eff: "(\<forall>F. (change F)\<^sup>*\<^sup>* s s1) \<and> reservations_running s1 \<and> turn \<noteq> Panic \<and>
      sc_run_status s1 \<in> {RS_Running, RS_BudgetStopped} \<and> (F \<longrightarrow> pending_running pending (s1, b1))"
    using try_nodes_effect [OF tries base ready(2,1) True, of "\<lambda>sb. F \<longrightarrow> pending_running pending sb"]
      tried_pending [OF faithful] pend
    by simp
  have inv1: "run_inv F pending st (s1, b1)"
    by (rule run_inv_changes [OF inv]) (use eff in simp_all)
  show ?thesis
  proof (cases "\<exists>e. turn = Return_Error e")
    case True
    with step tries inv1 \<open>sc_run_status s = RS_Running\<close> show ?thesis by (auto simp: scheduler_step_def)
  next
    case False
    obtain b2 cs where poll: "wb_poll_completed backend b1 = (b2, cs)" by (metis prod.exhaust)
    let ?s2 = "fold (accept_completion v) cs s1"
    have out: "s' = refresh_run_status ?s2" "b' = b2" "r = Some (Ok ())"
      using step tries False eff \<open>sc_run_status s = RS_Running\<close> poll
      by (auto simp: scheduler_step_def finish_step_def split: turn.splits)
    have running: "F \<Longrightarrow> distinct (map wc_node_id cs) \<and> (\<forall>c \<in> set cs. status_of s1 (wc_node_id c) = Some NS_Running)"
      using polled_running(1) [OF faithful _ poll] eff by blast
    have acc: "(change F)\<^sup>*\<^sup>* s1 ?s2" "reservations_running ?s2"
      "\<forall>n. n \<notin> wc_node_id ` set cs \<longrightarrow> status_of ?s2 n = status_of s1 n"
      using accept_all_changes [of F cs s1 v, OF running] eff by auto
    have "(change F)\<^sup>*\<^sup>* s1 s'"
      using acc(1) status_changes(1) unfolding out(1) by (rule rtranclp.rtrancl_into_rtrancl)
    moreover have "reservations_running s'" "status_of s' = status_of ?s2"
      using acc(2) by (auto simp: out(1) refresh_run_status_def reservations_running_def status_of_def fun_eq_iff)
    moreover have "pending_running pending (s', b')" if F
    proof -
      have shrink: "pending b2 \<subseteq># pending b1"
        using faithful_backend.poll_pending [OF faithful [OF that] poll] mset_subset_eq_add_left by (rule subset_mset.order_trans [rotated])
      have "count (pending b2) n \<le> (if status_of ?s2 n = Some NS_Running then 1 else 0)" for n
      proof (cases "n \<in> wc_node_id ` set cs")
        case True
        then show ?thesis using polled_running(2) [OF faithful [OF that] _ poll True, of s1] eff that by simp
      next
        case False
        then show ?thesis
          using pending_shrinks [of pending s1 b1 b2] shrink eff that acc(3) by (auto simp: pending_running_def)
      qed
      then show ?thesis using \<open>status_of s' = status_of ?s2\<close> by (simp add: pending_running_def out(2))
    qed
    ultimately show ?thesis using run_inv_changes [OF inv1] out(3) by simp
  qed
qed


section \<open>Runs\<close>

text \<open>The public operations, and the progress of the workers between them.\<close>

inductive run_op ::
  "'b worker_backend \<Rightarrow> ('b \<Rightarrow> 'b \<Rightarrow> bool) \<Rightarrow> scheduler \<times> 'b \<Rightarrow> scheduler \<times> 'b \<Rightarrow> bool"
  for backend progress where
  op_start: "run_op backend progress (s, b) (start_run s, b)"
| op_pause: "run_op backend progress (s, b) (pause_run s, b)"
| op_resume: "run_op backend progress (s, b) (resume_run s, b)"
| op_drain: "run_op backend progress (s, b) (drain_run s, b)"
| op_step: "scheduler_step backend v run_id sb = (sb', r) \<Longrightarrow> run_op backend progress sb sb'"
| op_run: "run_to_completion backend v run_id sb = (sb', r') \<Longrightarrow> run_op backend progress sb sb'"
| op_cancel: "run_op backend progress sb (cancel_run backend v sb)"
| op_workers: "progress b b' \<Longrightarrow> run_op backend progress (s, b) (s, b')"

lemma status_op_inv:
  assumes "run_inv F pending st (s, b)" and "s' \<in> {refresh_run_status s, start_run s, pause_run s, resume_run s, drain_run s}"
  shows "run_inv F pending st (s', b)"
proof (rule run_inv_changes [OF assms(1)])
  show "(change F)\<^sup>*\<^sup>* s s'" using assms(2) status_changes [of F s] by auto
  have same: "status_of s' = status_of s" "sc_budget_reservations s' = sc_budget_reservations s"
    and "sc_run_status s = RS_Cancelled \<Longrightarrow> sc_run_status s' = RS_Cancelled"
    using assms(2) by (auto simp: fun_eq_iff status_of_def refresh_run_status_def start_run_def pause_run_def
        resume_run_def drain_run_def)
  moreover from same have "pending_running pending (s', b) = pending_running pending (s, b)"
    "reservations_running s' = reservations_running s"
    by (simp_all add: pending_running_def reservations_running_def)
  ultimately show "reservations_running s'" "F \<Longrightarrow> sc_run_status s' \<noteq> RS_Cancelled \<Longrightarrow> pending_running pending (s', b)"
    using assms(1) by (auto simp: run_inv_def)
qed

lemma run_steps_inv:
  assumes "run_steps backend v run_id k sb = (sb', r)" and "run_inv F pending st sb"
    and "F \<Longrightarrow> faithful_backend backend pending progress"
  shows "run_inv F pending st sb' \<and> r \<noteq> None"
  using assms(1,2)
proof (induction k arbitrary: sb)
  case (Suc k)
  obtain s b s1 b1 r1 where sb: "sb = (s, b)" and one: "scheduler_step backend v run_id (s, b) = ((s1, b1), r1)"
    by (metis prod.exhaust)
  have inv1: "run_inv F pending st (s1, b1)" "r1 \<noteq> None"
    using step_run_inv [OF one] Suc.prems(2) assms(3) sb by blast+
  with Suc.prems(1) one sb Suc.IH [of "(s1, b1)"] status_op_inv [OF inv1(1)] show ?case
    by (auto split: sum.splits if_splits)
qed auto

lemma run_op_inv:
  assumes "run_op backend progress sb sb'" and "run_inv F pending st sb"
    and "F \<Longrightarrow> faithful_backend backend pending progress"
  shows "run_inv F pending st sb'"
  using assms(1,2)
proof (cases rule: run_op.cases)
  case (op_step v run_id r)
  then show ?thesis using step_run_inv [of backend v run_id "fst sb" "snd sb" "fst sb'" "snd sb'" r F pending st progress] assms(2,3) by simp
next
  case (op_run v run_id r)
  let ?s0 = "start_run (fst sb)"
  obtain sb1 r1 where steps: "run_steps backend v run_id (unat (maximum_scheduler_steps ?s0)) (?s0, snd sb) = (sb1, r1)"
    by (metis prod.exhaust)
  have "run_inv F pending st (?s0, snd sb)" by (rule status_op_inv [of F pending st "fst sb"]) (use assms(2) in simp_all)
  from run_steps_inv [OF steps this] assms(3) have "run_inv F pending st sb1" by blast
  moreover have "sb' = sb1" using op_run steps by (simp add: run_to_completion_def Let_def)
  ultimately show ?thesis by simp
next
  case (op_cancel v)
  obtain s b where sb: "sb = (s, b)" by (cases sb)
  have "run_inv F pending st (cancel_state v s, snd sb')"
    by (rule run_inv_changes [where s = s and b = b])
      (use assms(2) sb change_cancel [of F s v] in
        \<open>auto simp: cancel_fields reservations_running_def cancel_state_def Let_def bmap_simps\<close>)
  then show ?thesis using op_cancel sb by (simp add: cancel_run_def)
next
  case (op_workers b b' s)
  then show ?thesis
    using assms(2,3) faithful_backend.progress_pending [of backend pending progress b b'] pending_shrinks [of pending s b b']
    by (auto simp: run_inv_def)
qed (auto intro: status_op_inv)

section \<open>From construction on\<close>

definition graph_statics :: "graph_spec \<Rightarrow> scheduler_config \<Rightarrow> statics" where
  "graph_statics spec config =
     (spec, config, build_dependency_map spec, build_incoming_edges spec,
      bm_of_list (map (\<lambda>node. (ns_id node, node)) (sb_nodes (gs_spec spec))))"

lemma new_scheduler_valid:
  "new_scheduler env host spec config = Ok s \<Longrightarrow> valid_graph env default_validation_options spec"
  by (auto simp: new_scheduler_def valid_graph_def Let_def split: if_splits)

lemma new_scheduler_inv:
  assumes "new_scheduler env host spec config = Ok s" and "F \<longrightarrow> pending b = {#}"
  shows "run_inv F pending (graph_statics spec config) (s, b)"
proof -
  let ?nodes = "bm_of_list (map (\<lambda>node. (ns_id node, node)) (sb_nodes (gs_spec spec)))"
  have fields: "statics s = graph_statics spec config" "sc_spec s = spec" "sc_config s = config" "sc_resources s = from_graph spec"
    "sc_dependencies s = build_dependency_map spec" "sc_incoming_edges s = build_incoming_edges spec"
    "sc_nodes s = ?nodes" "sc_statuses s = map (\<lambda>(nid, node). (nid, initial_status node)) ?nodes"
    "sc_active_tickets s = []" "sc_active_workers s = []" "sc_run_status s = RS_AwaitingApproval"
    "sc_peak_active_workers s = 0" "sc_budget s = new_ledger (sb_budgets (gs_spec spec))" "sc_budget_reservations s = []"
    using assms(1) by (auto simp: new_scheduler_def initial_scheduler_def graph_statics_def statics_def Let_def split: if_splits)
  have keys: "map fst (sc_statuses s) = map fst ?nodes" by (simp add: fields(8) case_prod_beta)
  have "bm_wf (sc_statuses s)" "set (bm_keys (sc_statuses s)) = set (bm_keys (sc_nodes s))"
    using bm_wf_of_list [of "map (\<lambda>node. (ns_id node, node)) (sb_nodes (gs_spec spec))"]
    by (simp_all only: bm_wf_def bm_keys_def keys fields(7))
  then have inv: "scheduler_inv s"
    by (simp add: scheduler_inv_def derived_ok_def workers_inv_def tickets_inv_def reservations_inv_def fields(2-7,9-)
        bmap_simps bm_values_def new_ledger_def bm_keys_def)
  have idle: "status_of s n \<notin> {Some NS_Running, Some NS_Succeeded}" for n
    by (auto simp: status_of_def fields(8) bm_get_def map_of_map initial_status_def split: if_splits)
  have "pending_running pending (s, b)" if F using assms(2) that by (simp add: pending_running_def)
  moreover have "deps_inv s" using idle by (simp add: deps_inv_def)
  moreover have "reservations_running s" by (simp add: reservations_running_def fields(14) bmap_simps)
  ultimately show ?thesis using inv fields(1) by (simp add: run_inv_def)
qed

text \<open>A state that \<open>new_scheduler\<close> returned, with an idle backend where that matters.\<close>

definition fresh_run :: "('b \<Rightarrow> bool) \<Rightarrow> graph_spec \<Rightarrow> scheduler_config \<Rightarrow> scheduler \<times> 'b \<Rightarrow> bool" where
  "fresh_run idle spec config sb \<longleftrightarrow> idle (snd sb) \<and> (\<exists>env host. new_scheduler env host spec config = Ok (fst sb))"

lemma fresh_run_inv:
  "fresh_run (\<lambda>b. F \<longrightarrow> pending b = {#}) spec config sb \<Longrightarrow> run_inv F pending (graph_statics spec config) sb"
  by (cases sb) (auto simp: fresh_run_def intro: new_scheduler_inv)

interpretation any_run:
  invariant_system "fresh_run (\<lambda>_. True) spec config" "run_op backend progress" "run_inv False (\<lambda>_. {#}) (graph_statics spec config)"
proof
  show "run_inv False (\<lambda>_. {#}) (graph_statics spec config) sb" if "fresh_run (\<lambda>_. True) spec config sb" for sb :: "scheduler \<times> 'a"
    using fresh_run_inv [of False "\<lambda>_. {#}" spec config sb] that by simp
qed (use run_op_inv in blast)

sublocale faithful_backend \<subseteq> run: invariant_system
  "fresh_run (\<lambda>b. pending b = {#}) spec config" "run_op backend progress" "run_inv True pending (graph_statics spec config)"
  for spec config
proof
  show "run_inv True pending (graph_statics spec config) sb" if "fresh_run (\<lambda>b. pending b = {#}) spec config sb" for sb
    using fresh_run_inv [of True pending spec config sb] that by simp
  show "run_inv True pending (graph_statics spec config) t"
    if "run_op backend progress s t" "run_inv True pending (graph_statics spec config) s" for s t
    using run_op_inv [OF that] faithful_backend_axioms by blast
qed

context faithful_backend
begin

lemma faithful_reach:
  "fresh_run (\<lambda>b. pending b = {#}) spec config sb \<Longrightarrow> (run_op backend progress)\<^sup>*\<^sup>* sb sb' \<Longrightarrow>
   run_inv True pending (graph_statics spec config) sb'"
  by (rule run.reach_inv)

end


section \<open>Errors of a step\<close>

lemma reserve_node_never_fails: "snd (reserve_node_budget run_id node attempt s) \<noteq> Err e"
proof
  let ?r = "reserve (sc_budget s) (run_id, ns_id node, attempt) (estimate_node node (sb_defaults (gs_spec (sc_spec s))))"
  assume *: "snd (reserve_node_budget run_id node attempt s) = Err e"
  show False
  proof (cases "snd ?r")
    case (Inl err)
    with reserve_error [OF Inl] * show False
      by (auto simp: reserve_node_budget_def Let_def split: prod.splits)
  next
    case (Inr u)
    with * show False by (auto simp: reserve_node_budget_def Let_def split: prod.splits)
  qed
qed

lemma step_error_is_backend:
  assumes "scheduler_step backend v run_id (s, b) = (sb', Some (Err e))"
    and inv: "run_inv False pending (graph_statics spec config) (s, b)"
    and valid: "valid_graph env default_validation_options spec" and plan: "\<not> cf_plan_mode config"
  shows "\<exists>err. e = SE_Worker err"
proof -
  have run: "sc_run_status s = RS_Running" using assms(1) by (auto simp: scheduler_step_def split: if_splits)
  obtain sb1 turn where tries: "try_nodes backend v run_id (run_ready_nodes s) (s, b) = (sb1, turn)" by (metis prod.exhaust)
  with assms(1) run have turn: "turn = Return_Error e" by (auto simp: scheduler_step_def split: turn.splits)
  have base: "scheduler_inv s" "reservations_running s" and st: "statics s = graph_statics spec config"
    using inv by (simp_all add: run_inv_def)
  have ready: "\<forall>n \<in> set (run_ready_nodes s). startable s n" "distinct (run_ready_nodes s)"
    using ready_startable ready_distinct run base(1) by (auto simp: scheduler_inv_def)
  obtain n s1 b1 sb2 where inv1: "scheduler_inv s1" "statics s1 = statics s" "startable s1 n"
    and one: "try_node backend v run_id n s1 b1 = (sb2, Return_Error e)"
    using try_nodes_effect [OF tries base ready(2,1) run, of "\<lambda>_. True"] turn by auto
  obtain s2 b2 where sb2: "sb2 = (s2, b2)" by (cases sb2)
  have spec: "sc_spec s1 = spec" "sc_config s1 = config"
    using inv1(2) st by (simp_all add: statics_def graph_statics_def)
  have derived: "derived_ok s1" using inv1(1) by (simp add: scheduler_inv_def)
  obtain node where node: "bm_get (sc_nodes s1) n = Some node"
    using inv1(3) by (auto simp: startable_def bm_contains_def)
  have mem: "node \<in> set (sb_nodes (gs_spec spec))" using nodes_get(2) [OF derived node] spec by simp
  have status: "bm_contains (sc_statuses s1) n"
    using inv1(3) by (auto simp: startable_def may_start_def status_of_def bm_contains_def elim!: is_some_and.elims)
  from one [unfolded sb2] node status show ?thesis
  proof (cases rule: try_node_cases)
    case (refused attempt)
    with reserve_node_never_fails show ?thesis by blast
  next
    case (denied attempt err)
    obtain held where "resource_step\<^sup>*\<^sup>* (from_graph spec, []) (sc_resources s1, held)"
      using inv1(1) spec by (auto simp: scheduler_inv_def tickets_inv_def)
    from resource_run_definitions [OF this] have "rm_definitions (sc_resources s1) = sb_resources (gs_spec spec)"
      by (simp add: from_graph_def)
    from acquire_contention [OF valid_nodeD(4,6) [OF valid mem] _ this, of False err] denied(4,5) plan spec show ?thesis
      by simp
  next
    case (begun attempt m ticket s3)
    from begun(5) show ?thesis by (cases rule: launch_cases) simp_all
  qed simp_all
qed


lemma bm_keys_of_list: "set (bm_keys (bm_of_list ps)) = fst ` set ps"
proof -
  have "set (bm_keys (fold (\<lambda>(k, v). bm_insert k v) ps m)) = set (bm_keys m) \<union> fst ` set ps" for m
    by (induction ps arbitrary: m) (auto simp: bm_keys_insert)
  from this [of "[]"] show ?thesis by (simp add: bm_of_list_def bm_keys_def)
qed

lemma try_node_stopped:
  assumes "bl_stopped (sc_budget s) \<noteq> None"
  shows "sc_attempts (fst (fst (try_node backend v run_id n s b))) = sc_attempts s \<and>
    sc_budget (fst (fst (try_node backend v run_id n s b))) \<in> {sc_budget s, stop_ledger (sc_budget s) ''hard run budget reached''}"
  using assms
  by (auto simp: try_node_def reserve_node_budget_def reserve_def queue_worker_def Let_def split: option.splits)

lemma stopped_step_begins_nothing:
  assumes "bl_stopped (sc_budget s) \<noteq> None"
  shows "sc_attempts (fst (fst (scheduler_step backend v run_id (s, b)))) = sc_attempts s"
proof -
  have tries: "sc_attempts (fst (fst (try_nodes backend v run_id ids (s, b)))) = sc_attempts s"
    if "bl_stopped (sc_budget s) \<noteq> None" for ids s b
    using that
  proof (induction ids arbitrary: s b)
    case (Cons n ids)
    obtain s1 b1 turn where one: "try_node backend v run_id n s b = ((s1, b1), turn)" by (metis prod.exhaust)
    from try_node_stopped [OF Cons.prems, of backend v run_id n b] one Cons.prems
    have "sc_attempts s1 = sc_attempts s" "bl_stopped (sc_budget s1) \<noteq> None" by (auto simp: stop_ledger_def)
    with Cons.IH [of s1 b1] one show ?case by (cases turn) simp_all
  qed simp
  have accept: "sc_attempts (accept_completion v c s) = sc_attempts s" for c s
    by (simp add: accept_completion_def complete_node_with_usage_def Let_def split: option.split prod.split)
  have "sc_attempts (fst (finish_step backend v sb)) = sc_attempts (fst sb)" for sb
    by (simp add: finish_step_def refresh_run_status_def fold_keeps [of sc_attempts, OF accept] split: prod.split)
  with tries [OF assms, of "run_ready_nodes s" b] show ?thesis
    by (auto simp: scheduler_step_def split: prod.splits turn.splits)
qed

lemma release_host_maps:
  "sc_host_tickets (release_host_admission v n s) = bm_remove n (sc_host_tickets s)"
  "sc_host_requests (release_host_admission v n s) = bm_remove n (sc_host_requests s)"
  "sc_provider_permits (release_host_admission v n s) = sc_provider_permits s"
  by (simp_all add: release_host_admission_def Let_def bm_remove_absent split: option.split)

lemma release_provider_maps:
  "sc_provider_permits (fst (release_provider_admission n a s)) = bm_remove n (sc_provider_permits s)"
  "sc_host_tickets (fst (release_provider_admission n a s)) = sc_host_tickets s"
  "sc_host_requests (fst (release_provider_admission n a s)) = sc_host_requests s"
  by (simp_all add: release_provider_admission_def Let_def bm_remove_absent split: option.split)

text \<open>A loop whose turns each take one key out of a map takes them all out.\<close>

lemma fold_removes:
  assumes "\<And>n s. f (g n s) = bm_remove n (f s)"
  shows "f (fold g ns s) = filter (\<lambda>p. fst p \<notin> set ns) (f s)"
proof (induction ns arbitrary: s)
  case (Cons n ns)
  show ?case using Cons.IH [of "g n s"] by (simp add: assms bm_remove_def conj_commute)
qed simp

lemma cancel_gives_back:
  "sc_host_tickets (cancel_state v s) = []" "sc_host_requests (cancel_state v s) = []"
  "sc_provider_permits (cancel_state v s) = []"
proof -
  have host: "sc_host_tickets (release_all_host_admission v s) = []" "sc_host_requests (release_all_host_admission v s) = []"
    for s
    using fold_removes [of sc_host_tickets "release_host_admission v", OF release_host_maps(1)]
      fold_removes [of sc_host_requests "release_host_admission v", OF release_host_maps(2)]
    by (auto simp: release_all_host_admission_def set_bs_of_list bm_keys_def filter_empty_conv)
  have permits: "sc_provider_permits (release_all_host_admission v (release_all_provider_admission s)) = []" for s
    using fold_removes [of sc_provider_permits "\<lambda>n s. fst (release_provider_admission n None s)", OF release_provider_maps(1)]
    by (auto simp: release_all_host_admission_def release_all_provider_admission_def bm_keys_def filter_empty_conv
        fold_keeps [of sc_provider_permits "release_host_admission v", OF release_host_maps(3)])
  show "sc_host_tickets (cancel_state v s) = []" "sc_host_requests (cancel_state v s) = []"
    "sc_provider_permits (cancel_state v s) = []"
    by (simp_all add: cancel_state_def Let_def host permits)
qed

lemma reachable_run:
  assumes "new_scheduler env host spec config = Ok s0" and "(run_op backend progress)\<^sup>*\<^sup>* (s0, b0) (s, b)"
  shows "run_inv False (\<lambda>_. {#}) (graph_statics spec config) (s, b)"
  by (rule any_run.reach_inv [OF _ assms(2)]) (use assms(1) in \<open>auto simp: fresh_run_def\<close>)

lemma reachable_fields:
  assumes "run_inv F pending (graph_statics spec config) (s, b)"
  shows "scheduler_inv s" and "sc_spec s = spec" and "sc_config s = config"
    and "sc_dependencies s = build_dependency_map spec"
    and "sc_nodes s = bm_of_list (map (\<lambda>node. (ns_id node, node)) (sb_nodes (gs_spec spec)))"
  using assms by (simp_all add: run_inv_def statics_def graph_statics_def)

end
