(* ===== verification/Scheduler_Live.thy ===== *)
theory Scheduler_Live
  imports Scheduler_Correct
begin

text \<open>
  Progress of the scheduler: with workers that succeed at once, \<open>run_to_completion\<close> returns, within
  the number of steps the code allows itself, a report that says completed. What a graph needs for
  this beyond being valid is the predicate \<open>lively\<close>: budgets without limits, no compensation node
  (such a node starts blocked), joins that ask for no more successes than there are dependencies,
  and no iteration bound of zero.
\<close>

section \<open>Graphs that can complete\<close>

definition join_reachable :: "graph_spec \<Rightarrow> node_id \<Rightarrow> bool" where
  "join_reachable spec n \<longleftrightarrow>
     (case strongest_join (unwrap_or (bm_get (build_incoming_edges spec) n) []) of
        None \<Rightarrow> True
      | Some join \<Rightarrow>
          is_none_or (js_required join)
            (\<lambda>k. unat k \<le> length (unwrap_or (bm_get (build_dependency_map spec) n) [])))"

definition lively :: "graph_spec \<Rightarrow> bool" where
  "lively spec \<longleftrightarrow>
     sb_budgets (gs_spec spec) = default_graph_budgets \<and> length (sb_nodes (gs_spec spec)) < 2 ^ 32 \<and>
     list_all (\<lambda>node. ns_kind node \<noteq> NK_Compensation \<and>
         is_none_or (Option.bind (ns_loop_policy node) ls_max_iterations) (\<lambda>i. i \<noteq> 0) \<and>
         join_reachable spec (ns_id node)) (sb_nodes (gs_spec spec))"

section \<open>The dependencies of the scheduler are those of the topology\<close>

lemma node_dependencies_fold: "node_dependencies node m = fold (\<lambda>(_, t, s). depend t s) (node_entries node) m"
  by (simp add: node_dependencies_def node_entries_def Let_def fold_map comp_def split: option.split)

lemma build_dependency_fold:
  "build_dependency_map spec =
     fold (\<lambda>(_, t, s). depend t s) (dependency_entries spec)
       (bm_of_list (map (\<lambda>node. (ns_id node, [])) (sb_nodes (gs_spec spec))))"
proof -
  have "fold node_dependencies nodes m = fold (\<lambda>(_, t, s). depend t s) (concat (map node_entries nodes)) m" for nodes m
    by (induction nodes arbitrary: m) (simp_all add: node_dependencies_fold)
  then show ?thesis
    by (simp add: build_dependency_map_def dependency_entries_def edge_entry_def fold_map comp_def)
qed

lemma depends_sets:
  "deps_of (fold (\<lambda>(_, t, s). depend t s) entries m) n = deps_of m n \<union> {s. \<exists>cs. (cs, n, s) \<in> set entries}"
proof (induction entries arbitrary: m)
  case (Cons e entries)
  obtain cs t s where e: "e = (cs, t, s)" by (cases e)
  show ?case using Cons.IH [of "depend t s m"] by (auto simp: e depend_def deps_of_insert split: if_splits)
qed simp

definition distinct_deps :: "dependencies \<Rightarrow> bool" where
  "distinct_deps m \<longleftrightarrow> (\<forall>n. distinct (unwrap_or (bm_get m n) []))"

lemma distinct_depends: "distinct_deps m \<Longrightarrow> distinct_deps (fold (\<lambda>(_, t, s). depend t s) entries m)"
proof (induction entries arbitrary: m)
  case (Cons e entries)
  obtain cs t s where e: "e = (cs, t, s)" by (cases e)
  have "distinct_deps (depend t s m)"
    using Cons.prems by (auto simp: distinct_deps_def depend_def bm_get_insert bs_insert_def distinct_insort)
  from Cons.IH [OF this] show ?case by (simp add: e)
qed simp

lemma no_deps_yet:
  "unwrap_or (bm_get (bm_of_list (map (\<lambda>node. (ns_id node, [])) nodes)) n) [] = ([] :: node_id bset)"
proof (cases "bm_get (bm_of_list (map (\<lambda>node. (ns_id node, [] :: node_id bset)) nodes)) n")
  case (Some v)
  then have "(n, v) \<in> set (map (\<lambda>node. (ns_id node, [])) nodes)"
    using bm_get_Some_iff [OF bm_wf_of_list] set_bm_of_list by (metis subsetD)
  with Some show ?thesis by auto
qed simp

lemma scheduler_dependencies:
  "set (unwrap_or (bm_get (build_dependency_map spec) n) []) = {s. \<exists>cs. (cs, n, s) \<in> set (dependency_entries spec)}"
  "distinct (unwrap_or (bm_get (build_dependency_map spec) n) [])"
proof -
  let ?d0 = "bm_of_list (map (\<lambda>node. (ns_id node, [])) (sb_nodes (gs_spec spec))) :: dependencies"
  note no_deps_yet [of "sb_nodes (gs_spec spec)"]
  then have "deps_of ?d0 n = {}" "distinct_deps ?d0" by (simp_all add: deps_of_def distinct_deps_def)
  with depends_sets [of "dependency_entries spec" ?d0 n] distinct_depends [of ?d0 "dependency_entries spec"]
  show "set (unwrap_or (bm_get (build_dependency_map spec) n) []) = {s. \<exists>cs. (cs, n, s) \<in> set (dependency_entries spec)}"
    "distinct (unwrap_or (bm_get (build_dependency_map spec) n) [])"
    by (simp_all add: build_dependency_fold deps_of_def distinct_deps_def)
qed

lemma valid_graph_order:
  assumes "valid_graph env options spec"
  obtains rank :: "node_id \<Rightarrow> nat"
  where "\<And>n d. d \<in> set (unwrap_or (bm_get (build_dependency_map spec) n) []) \<Longrightarrow>
      rank d < rank n \<and> d \<in> ns_id ` set (sb_nodes (gs_spec spec))"
    and "\<And>n. length (unwrap_or (bm_get (build_dependency_map spec) n) []) \<le> length (sb_nodes (gs_spec spec))"
proof -
  obtain report where "analyze_topology spec = Ok report"
    using valid_graphD(7) [OF assms] by (auto simp: topology_outcome_def split: sum.splits topology_error.splits)
  with accepts_iff [of spec] obtain rank :: "node_id \<Rightarrow> nat" where
    rank: "\<forall>(_, target, source) \<in> set (dependency_entries spec). rank source < rank target"
    and known: "\<forall>(checked, _, _) \<in> set (dependency_entries spec). set checked \<subseteq> ns_id ` set (sb_nodes (gs_spec spec))"
    by blast
  let ?deps = "\<lambda>n. unwrap_or (bm_get (build_dependency_map spec) n) []"
  have below: "rank d < rank n \<and> d \<in> ns_id ` set (sb_nodes (gs_spec spec))" if "d \<in> set (?deps n)" for n d
  proof -
    from that obtain cs where entry: "(cs, n, d) \<in> set (dependency_entries spec)" by (auto simp: scheduler_dependencies)
    from entry_known [OF entry] known rank entry show ?thesis by fastforce
  qed
  have "length (?deps n) = card (set (?deps n))" for n using scheduler_dependencies(2) by (simp add: distinct_card)
  moreover have "card (set (?deps n)) \<le> card (ns_id ` set (sb_nodes (gs_spec spec)))" for n
    by (rule card_mono) (use below in auto)
  moreover have "card (ns_id ` set (sb_nodes (gs_spec spec))) \<le> length (sb_nodes (gs_spec spec))"
    by (meson List.finite_set card_image_le card_length le_trans)
  ultimately have "length (?deps n) \<le> length (sb_nodes (gs_spec spec))" for n by (metis le_trans)
  with below show thesis by (rule that)
qed

lemma all_succeeded_satisfies:
  assumes "sc_dependencies s = build_dependency_map spec" and "sc_incoming_edges s = build_incoming_edges spec"
    and "\<And>d. d \<in> set (unwrap_or (bm_get (build_dependency_map spec) n) []) \<Longrightarrow> status_of s d = Some NS_Succeeded"
    and "length (unwrap_or (bm_get (build_dependency_map spec) n) []) < 2 ^ 32" and "join_reachable spec n"
  shows "dependencies_satisfied s n"
proof (cases "bm_get (build_dependency_map spec) n")
  case (Some deps)
  have finished: "bm_get (sc_statuses s) d = Some NS_Succeeded" if "d \<in> set deps" for d
    using assms(3) [of d] that Some by (simp add: status_of_def)
  then have all: "filter (\<lambda>d. bm_get (sc_statuses s) d = Some NS_Succeeded) deps = deps" by (simp add: filter_id_conv)
  have small: "length deps < 2 ^ 32" using assms(4) Some by simp
  have one: "(1 :: u32) \<le> of_nat (length deps)" if "deps \<noteq> []"
    using that small of_nat_u32_mono [of 1 "length deps"] by (cases deps) simp_all
  have enough: "k \<le> of_nat (length deps)" if "unat k \<le> length deps" for k :: u32
    using that small by (simp add: word_le_nat_alt unat_u32)
  show ?thesis
  proof (cases "strongest_join (unwrap_or (bm_get (build_incoming_edges spec) n) [])")
    case None
    with finished Some show ?thesis by (simp add: dependencies_satisfied_def assms(1,2) list_all_iff)
  next
    case join: (Some join)
    then have "unwrap_or (js_required join) (of_nat (length deps)) \<le> of_nat (length deps)"
      using assms(5) Some enough by (cases "js_required join") (auto simp: join_reachable_def)
    then show ?thesis
      using Some join one finished all
      by (cases "js_policy join")
        (auto simp: dependencies_satisfied_def assms(1,2) list_all_iff list_ex_iff Let_def neq_Nil_conv)
  qed
qed (simp add: dependencies_satisfied_def assms(1))

section \<open>Between and within steps\<close>

text \<open>
  Within a step over the immediate backend: every running node has its completion waiting, tickets
  and workers belong to running nodes, and the ledger is open.
\<close>

definition open_ledger :: "budget_ledger \<Rightarrow> bool" where
  "open_ledger l \<longleftrightarrow> bl_stopped l = None \<and> bl_limits l = default_graph_budgets"

definition answered :: "scheduler \<times> fake_worker_backend \<Rightarrow> bool" where
  "answered sb \<longleftrightarrow>
     fw_complete_immediately (snd sb) \<and> fw_active (snd sb) = [] \<and>
     (\<forall>c \<in> set (fw_completions (snd sb)). no_status (wc_output c) = NS_Succeeded) \<and>
     {n. status_of (fst sb) n = Some NS_Running} = wc_node_id ` set (fw_completions (snd sb))"

definition healthy :: "scheduler \<Rightarrow> bool" where
  "healthy s \<longleftrightarrow>
     \<not> sc_partial_completion s \<and> open_ledger (sc_budget s) \<and>
     (\<forall>n st. status_of s n = Some st \<longrightarrow> st \<in> {NS_Pending, NS_Running, NS_Succeeded}) \<and>
     (\<forall>n \<in> set (bm_keys (sc_active_tickets s)) \<union> set (bm_values (sc_active_workers s)).
        status_of s n = Some NS_Running) \<and>
     distinct (bm_values (sc_active_workers s))"

lemma unlimited: "check_limits default_graph_budgets tot u r = Ok ()"
  by (simp add: check_limits_def u64_limits_def default_graph_budgets_def check_estimated_cost_def check_provider_cost_def)

lemma reserve_open:
  assumes "open_ledger (sc_budget s)"
  shows "snd (reserve_node_budget run_id node attempt s) = Ok True"
    and "open_ledger (sc_budget (fst (reserve_node_budget run_id node attempt s)))"
  using assms by (simp_all add: reserve_node_budget_def reserve_def open_ledger_def unlimited Let_def)

lemma reconcile_open: "open_ledger l \<Longrightarrow> open_ledger (fst (reconcile l rid u))"
  by (auto simp: reconcile_def open_ledger_def unlimited Let_def split: option.split sum.split)

lemma immediate_start:
  assumes "fw_complete_immediately b" and "fw_active b = []"
  shows "\<exists>handle. wb_start fake_backend request b =
    (b\<lparr>fw_completions := fw_completions b @ [completion_for_request request NS_Succeeded]\<rparr>, Ok handle)"
  using assms
  by (simp add: fake_backend_def fake_start_def fake_finish_def Let_def bm_get_insert bm_remove_insert bm_get_empty)


section \<open>Acquiring alone\<close>

text \<open>Only the holders of tickets block paths, so a node that is alone is not blocked.\<close>

lemma writers_hold:
  "resource_step\<^sup>*\<^sup>* (from_graph spec, []) sh \<Longrightarrow>
   set (bm_keys (rm_active_writes (fst sh))) \<subseteq> rtk_node_id ` {t \<in> set (snd sh). rtk_write_set t \<noteq> []}"
proof (induction rule: rtranclp_induct)
  case (step y z)
  from step(2) show ?case
  proof (cases rule: resource_step.cases)
    case (step_acquire m node defaults plan_mode m' ticket held)
    have "set (bm_keys (rm_active_writes m')) \<subseteq>
        (if rtk_write_set ticket \<noteq> [] then {rtk_node_id ticket} else {}) \<union> set (bm_keys (rm_active_writes m))"
      using step_acquire(3) by (auto simp: bm_keys_insert elim!: try_acquire_OkE)
    moreover have "rtk_node_id ` {t \<in> set (ticket # held). rtk_write_set t \<noteq> []} =
        (if rtk_write_set ticket \<noteq> [] then {rtk_node_id ticket} else {}) \<union> rtk_node_id ` {t \<in> set held. rtk_write_set t \<noteq> []}"
      by auto
    ultimately show ?thesis using step(3) step_acquire(1,2) by auto
  next
    case (step_release ticket held m)
    show ?thesis
    proof
      fix n assume "n \<in> set (bm_keys (rm_active_writes (fst z)))"
      then have n: "n \<in> set (bm_keys (rm_active_writes m))" "rtk_write_set ticket \<noteq> [] \<Longrightarrow> n \<noteq> rtk_node_id ticket"
        using step_release(2) by (auto simp: release_resources_def bm_keys_remove split: if_splits)
      then obtain t where t: "t \<in> set held" "rtk_write_set t \<noteq> []" "n = rtk_node_id t" using step(3) step_release(1) by auto
      then have "t \<in> set (remove1 ticket held)" using n(2) by (cases "t = ticket") auto
      with t show "n \<in> rtk_node_id ` {t \<in> set (snd z). rtk_write_set t \<noteq> []}" using step_release(2) by simp
    qed
  qed
qed (simp add: from_graph_def bm_keys_def)

lemma acquire_alone:
  assumes "resource_step\<^sup>*\<^sup>* (from_graph spec, []) (m, [])"
    and "valid_graph env default_validation_options spec" and "node \<in> set (sb_nodes (gs_spec spec))"
  shows "\<exists>r. try_acquire m node (sb_defaults (gs_spec spec)) False = Ok r"
proof (cases "try_acquire m node (sb_defaults (gs_spec spec)) False")
  case (Inl e)
  have defs: "rm_definitions m = sb_resources (gs_spec spec)"
    using resource_run_definitions [OF assms(1)] by (simp add: from_graph_def)
  have free: "held_amount m r = 0" for r
    using resource_invD(1) [OF reachable_resources [OF assms(1)], of r] by (simp add: unat_eq_zero)
  have "rm_active_writes m = []" using writers_hold [OF assms(1)] by (simp add: bm_keys_def)
  then have writes: "check_writes m ws = Ok ()" for ws
    by (induction ws) (simp_all add: check_writes_def conflicting_write_def)
  have "\<exists>q. request_claim m claim req = Ok q" if "claim \<in> set (ns_resource_claims node)" for claim req
  proof -
    have "check_claim spec node claim = []"
      using valid_nodeD(6) [OF assms(2,3)] that by (simp add: validate_resources_def)
    then obtain d where "bm_get (rm_definitions m) (rc_resource claim) = Some d" "rc_amount claim \<noteq> 0"
      "\<not> rd_limit d < rc_amount claim" "rd_kind d = RK_ExclusiveLock \<Longrightarrow> rc_amount claim = 1"
      by (auto simp: check_claim_def push_if_def defs split: option.splits if_splits)
    then show ?thesis
      by (cases "rd_kind d") (simp_all add: request_claim_def free Let_def limit_of_def sat_sub_def)
  qed
  note one = this
  have "\<exists>q. fold_r (request_claim m) claims req = Ok q" if "set claims \<subseteq> set (ns_resource_claims node)" for claims req
    using that
  proof (induction claims arbitrary: req)
    case (Cons claim claims)
    obtain q where "request_claim m claim req = Ok q" using one [of claim req] Cons.prems by auto
    with Cons show ?case by simp
  qed simp
  from this [of "ns_resource_claims node" "[]"] obtain q where "fold_r (request_claim m) (ns_resource_claims node) [] = Ok q"
    by blast
  moreover have "check_tools node = Ok ()"
    using valid_tools [OF valid_nodeD(4) [OF assms(2,3)]] .
  ultimately show ?thesis by (simp add: try_acquire_def writes Let_def)
qed blast


section \<open>A try in a healthy state\<close>

lemma healthyD:
  assumes "healthy s"
  shows "\<not> sc_partial_completion s" and "open_ledger (sc_budget s)"
    and "status_of s n = Some st \<Longrightarrow> st \<in> {NS_Pending, NS_Running, NS_Succeeded}"
    and "n \<in> set (bm_keys (sc_active_tickets s)) \<Longrightarrow> status_of s n = Some NS_Running"
    and "n \<in> set (bm_values (sc_active_workers s)) \<Longrightarrow> status_of s n = Some NS_Running"
    and "distinct (bm_values (sc_active_workers s))"
  using assms unfolding healthy_def by blast+

text \<open>Changes that keep what a healthy state looks at.\<close>

lemma healthy_cong:
  assumes "healthy s" and "sc_partial_completion s' = sc_partial_completion s" and "open_ledger (sc_budget s')"
    and "sc_statuses s' = sc_statuses s" and "sc_active_tickets s' = sc_active_tickets s"
    and "sc_active_workers s' = sc_active_workers s"
  shows "healthy s'"
  using assms by (simp add: healthy_def status_of_def)

lemma reserve_keeps:
  "sc_partial_completion (fst (reserve_node_budget run_id node attempt s)) = sc_partial_completion s"
  "sc_partial_completion (release_node_budget n s) = sc_partial_completion s"
  by (simp_all add: reserve_node_budget_def release_node_budget_def Let_def
      split: prod.split sum.split budget_error.split option.split)

lemma release_open: "open_ledger (sc_budget s) \<Longrightarrow> open_ledger (sc_budget (release_node_budget n s))"
  by (simp add: release_node_budget_def release_def open_ledger_def split: option.split)

lemma begin_healthy:
  assumes "healthy s"
  shows "healthy (begin_attempt n m ticket s)"
  using healthyD [OF assms]
  by (auto simp: healthy_def begin_status) (auto simp: begin_attempt_def bm_keys_insert)

lemma complete_healthy:
  assumes "healthy s" and "status_of s n \<noteq> None" and "n \<notin> set (bm_values (sc_active_workers s))"
  shows "healthy (complete_node_with_usage v n NS_Succeeded u s)"
proof -
  note h = healthyD [OF assms(1)]
  have "open_ledger (sc_budget (complete_node_with_usage v n NS_Succeeded u s))"
    using h(2) by (auto simp: complete_fields reconcile_open split: option.split)
  then show ?thesis
    using h assms(2,3) by (auto simp: healthy_def complete_status complete_fields bm_keys_remove)
qed

lemma worker_added_healthy:
  assumes "healthy s" and "status_of s n = Some NS_Running" and "n \<notin> set (bm_values (sc_active_workers s))"
  shows "healthy (worker_added w n s)"
proof -
  note h = healthyD [OF assms(1)]
  have m: "mset (bm_values (bm_insert w n (sc_active_workers s))) = add_mset n (mset (bm_values (bm_remove w (sc_active_workers s))))"
    by (simp add: bm_values_def mset_bm_insert)
  have sub: "set (bm_values (bm_remove w (sc_active_workers s))) \<subseteq> set (bm_values (sc_active_workers s))"
    by (auto simp: bm_values_def bm_remove_def)
  have vals: "set (bm_values (bm_insert w n (sc_active_workers s))) = insert n (set (bm_values (bm_remove w (sc_active_workers s))))"
    using m by (metis set_mset_add_mset_insert set_mset_mset)
  have "distinct (bm_values (bm_remove w (sc_active_workers s)))"
    using h(6) by (simp add: bm_values_def bm_remove_def distinct_map_filter)
  then have "distinct (bm_values (bm_insert w n (sc_active_workers s)))"
    using m sub assms(3) mset_eq_imp_distinct_iff [of _ "n # bm_values (bm_remove w (sc_active_workers s))"] by auto
  moreover have "status_of (worker_added w n s) = status_of s"
    by (simp add: fun_eq_iff status_of_def worker_added_def Let_def)
  ultimately show ?thesis
    using h sub vals assms(2) by (auto simp: healthy_def) (auto simp: worker_added_def Let_def)
qed


lemma launch_healthy:
  assumes "launch fake_backend v run_id node s b = ((s', b'), turn)" and "healthy s"
    and "status_of s (ns_id node) = Some NS_Running" and "ns_id node \<notin> set (bm_values (sc_active_workers s))"
    and "fw_complete_immediately b" and "fw_active b = []"
    and "\<forall>c \<in> set (fw_completions b). no_status (wc_output c) = NS_Succeeded"
    and "{n. status_of s n = Some NS_Running} = insert (ns_id node) (wc_node_id ` set (fw_completions b))"
    and "ns_id node \<notin> wc_node_id ` set (fw_completions b)"
  shows "turn = Next_Node \<and> healthy s' \<and> answered (s', b') \<and> status_of s' (ns_id node) \<in> {Some NS_Running, Some NS_Succeeded}"
  using assms(1)
proof (cases rule: launch_cases)
  case (failed e request)
  with immediate_start [OF assms(5,6), of request] show ?thesis by auto
next
  case (started request handle)
  have same: "status_of s' = status_of s" by (simp add: started(3) fun_eq_iff status_of_def worker_added_def Let_def)
  have "b' = b\<lparr>fw_completions := fw_completions b @ [completion_for_request request NS_Succeeded]\<rparr>"
    using immediate_start [OF assms(5,6), of request] started(1) by auto
  then have "answered (s', b')"
    using assms(5-8) same started(2) by (simp add: answered_def completion_for_request_def)
  with started(4) worker_added_healthy [OF assms(2,3,4)] same assms(3) show ?thesis by (simp add: started(3))
next
  case computed
  have "status_of s' n = (if n = ns_id node then Some NS_Succeeded else status_of s n)" for n
    using assms(3) by (simp add: computed(2) complete_node_def complete_status)
  moreover have "healthy s'"
    unfolding computed(2) complete_node_def by (rule complete_healthy [OF assms(2) _ assms(4)]) (use assms(3) in simp)
  moreover from calculation have "{n. status_of s' n = Some NS_Running} = {n. status_of s n = Some NS_Running} - {ns_id node}"
    by auto
  then have "{n. status_of s' n = Some NS_Running} = wc_node_id ` set (fw_completions b)"
    using assms(8,9) by (metis Diff_insert_absorb)
  ultimately show ?thesis using computed(3,4) assms(5-7) by (simp add: answered_def)
qed

text \<open>What a try of a ready node over the immediate backend does.\<close>

lemma try_node_healthy:
  assumes "try_node fake_backend v run_id n s b = ((s', b'), turn)"
    and inv: "scheduler_inv s" and start: "startable s n" and h: "healthy s" and a: "answered (s, b)"
    and valid: "valid_graph env default_validation_options (sc_spec s)" and plan: "\<not> cf_plan_mode (sc_config s)"
  shows "turn = Next_Node \<and> healthy s' \<and> answered (s', b') \<and>
    (sc_active_tickets s = [] \<and> sc_active_workers s = [] \<and> cf_max_active_model_calls (sc_config s) \<noteq> 0 \<longrightarrow>
     status_of s' n \<in> {Some NS_Running, Some NS_Succeeded})"
proof -
  obtain node where node: "bm_get (sc_nodes s) n = Some node"
    using start by (auto simp: startable_def bm_contains_def)
  have derived: "derived_ok s" using inv by (simp add: scheduler_inv_def)
  note nid = nodes_get(1) [OF derived node] and mem = nodes_get(2) [OF derived node]
  have status: "bm_contains (sc_statuses s) n" and idle: "status_of s n \<noteq> Some NS_Running"
    using start by (auto simp: startable_def may_start_def status_of_def bm_contains_def elim!: is_some_and.elims)
  note hd = healthyD [OF h]
  obtain held where held: "resource_step\<^sup>*\<^sup>* (from_graph (sc_spec s), []) (sc_resources s, held)"
    "mset held = mset (bm_values (sc_active_tickets s))"
    using inv by (auto simp: scheduler_inv_def tickets_inv_def)
  note open1 = reserve_open [OF hd(2), of run_id node]
  from assms(1) node status show ?thesis
  proof (cases rule: try_node_cases)
    case full
    have "healthy s'" by (rule healthy_cong [OF h]) (use hd(2) in \<open>simp_all add: full(1) queue_worker_def\<close>)
    moreover have "answered (s', b')" using a by (simp add: answered_def full(1,2) queue_worker_def status_of_def)
    ultimately show ?thesis using full(3,5) by (auto simp: unat_eq_zero)
  next
    case (stopped attempt)
    with open1(1) [of attempt] show ?thesis by simp
  next
    case (refused attempt e)
    with open1(1) [of attempt] show ?thesis by simp
  next
    case (contended attempt e)
    have "healthy s'"
      by (rule healthy_cong [OF h])
        (use release_open [OF open1(2) [of attempt]] in
          \<open>simp_all add: contended(1) queue_worker_def reserve_keeps reserve_node_fields release_node_fields\<close>)
    moreover have "answered (s', b')"
      using a by (simp add: answered_def contended(1,2) queue_worker_def status_of_def release_node_fields reserve_node_fields)
    moreover have "sc_active_tickets s \<noteq> []"
    proof
      assume "sc_active_tickets s = []"
      then have "held = []" using held(2) by (simp add: bm_values_def)
      from acquire_alone [OF held(1) [unfolded this] valid mem] contended(5) plan show False by auto
    qed
    ultimately show ?thesis using contended(4) by simp
  next
    case (denied attempt e)
    have "rm_definitions (sc_resources s) = sb_resources (gs_spec (sc_spec s))"
      using resource_run_definitions [OF held(1)] by (simp add: from_graph_def)
    from acquire_contention [OF valid_nodeD(4,6) [OF valid mem] _ this, of False e] denied(4,5) plan show ?thesis by simp
  next
    case (begun attempt m ticket s1)
    let ?r = "fst (reserve_node_budget run_id node attempt s)"
    have "healthy ?r"
      by (rule healthy_cong [OF h]) (simp_all add: open1(2) reserve_keeps reserve_node_fields)
    then have h1: "healthy s1" unfolding begun(1) by (rule begin_healthy)
    have s1: "status_of s1 n' = (if n' = n then Some NS_Running else status_of s n')" for n'
      by (simp add: begun(1) begin_status) (simp add: status_of_def reserve_node_fields)
    have "sc_active_workers s1 = sc_active_workers s"
      by (simp add: begun(1) begin_attempt_def reserve_node_fields)
    moreover have "n \<notin> set (bm_values (sc_active_workers s))" using hd(5) [of n] idle by blast
    moreover have "{n'. status_of s1 n' = Some NS_Running} = insert n {n'. status_of s n' = Some NS_Running}"
      by (auto simp: s1)
    moreover have "n \<notin> wc_node_id ` set (fw_completions b)" using a idle by (auto simp: answered_def)
    ultimately show ?thesis
      using launch_healthy [OF begun(5) h1] s1 [of n] a nid by (simp add: answered_def)
  qed
qed


text \<open>Dropping the worker of a node leaves none for it, since a node has one worker at most.\<close>

lemma drop_worker:
  assumes "healthy s" and s1_def: "s1 = (case find (\<lambda>(_, nid). nid = n) (sc_active_workers s) of
      None \<Rightarrow> s | Some (worker_id, _) \<Rightarrow> s\<lparr>sc_active_workers := bm_remove worker_id (sc_active_workers s)\<rparr>)"
  shows "healthy s1" and "n \<notin> set (bm_values (sc_active_workers s1))"
proof -
  note h = healthyD [OF assms(1)]
  show "healthy s1"
  proof (cases "find (\<lambda>(_, nid). nid = n) (sc_active_workers s)")
    case (Some p)
    have sub: "set (bm_values (bm_remove w (sc_active_workers s))) \<subseteq> set (bm_values (sc_active_workers s))"
      "distinct (bm_values (bm_remove w (sc_active_workers s)))" for w
      using h(6) by (auto simp: bm_values_def bm_remove_def distinct_map_filter)
    with h Some show ?thesis by (cases p) (auto simp: s1_def healthy_def status_of_def dest!: subsetD [OF sub(1)])
  qed (use assms in simp)
  show "n \<notin> set (bm_values (sc_active_workers s1))"
  proof (cases "find (\<lambda>(_, nid). nid = n) (sc_active_workers s)")
    case None
    then have "n \<notin> set (bm_values (sc_active_workers s))" by (auto simp: bm_values_def find_None_iff)
    with None show ?thesis by (simp add: s1_def)
  next
    case (Some p)
    then obtain i where "i < length (sc_active_workers s)" "p = sc_active_workers s ! i" "snd p = n"
      by (auto simp: find_Some_iff case_prod_beta)
    then obtain w where p: "p = (w, n)" "p \<in> set (sc_active_workers s)" by (metis nth_mem prod.collapse)
    have "w' = w" if "(w', n) \<in> set (sc_active_workers s)" for w'
      using h(6) that p by (fastforce simp: bm_values_def distinct_map inj_on_def)
    then show ?thesis using Some p(1) by (auto simp: s1_def bm_values_def bm_remove_def)
  qed
qed


section \<open>A step over the immediate backend\<close>

lemma try_nodes_healthy:
  assumes "try_nodes fake_backend v run_id ids (s, b) = ((s', b'), turn)"
    and "scheduler_inv s" and "reservations_running s" and "distinct ids" and "\<forall>n \<in> set ids. startable s n"
    and "sc_run_status s = RS_Running" and "healthy s" and "answered (s, b)"
    and "valid_graph env default_validation_options (sc_spec s)" and "\<not> cf_plan_mode (sc_config s)"
  shows "turn = Next_Node \<and> healthy s' \<and> answered (s', b') \<and> sc_run_status s' = RS_Running \<and>
    (\<forall>n. n \<notin> set ids \<longrightarrow> status_of s' n = status_of s n) \<and>
    (sc_active_tickets s = [] \<and> sc_active_workers s = [] \<and> cf_max_active_model_calls (sc_config s) \<noteq> 0 \<and> ids \<noteq> [] \<longrightarrow>
     status_of s' (hd ids) \<in> {Some NS_Running, Some NS_Succeeded})"
  using assms
proof (induction ids arbitrary: s b)
  case (Cons n ids)
  obtain s1 b1 turn1 where one: "try_node fake_backend v run_id n s b = ((s1, b1), turn1)" by (metis prod.exhaust)
  have start: "startable s n" using Cons.prems(5) by simp
  note tried = try_node_tried [OF one Cons.prems(2,3) start Cons.prems(6)]
  note good = try_node_healthy [OF one Cons.prems(2) start Cons.prems(7-10)]
  have changes: "(change True)\<^sup>*\<^sup>* s s1" using tried by (simp add: tried_def)
  have st: "sc_spec s1 = sc_spec s" "sc_config s1 = sc_config s"
    using changes_statics [OF changes] by (simp_all add: statics_def)
  have others: "status_of s1 n' = status_of s n'" if "n' \<noteq> n" for n' using tried that by (simp add: tried_def)
  have ids: "\<forall>n' \<in> set ids. startable s1 n'" "distinct ids" "n \<notin> set ids"
    using tried_startable [of fake_backend n s b s1 b1] tried start Cons.prems(4,5) by auto
  have loop: "try_nodes fake_backend v run_id ids (s1, b1) = ((s', b'), turn)"
    using Cons.prems(1) one good by simp
  have resv: "reservations_running s1" "sc_run_status s1 = RS_Running" using tried good by (simp_all add: tried_def)
  have rest: "turn = Next_Node \<and> healthy s' \<and> answered (s', b') \<and> sc_run_status s' = RS_Running \<and>
      (\<forall>n. n \<notin> set ids \<longrightarrow> status_of s' n = status_of s1 n)"
    using Cons.IH [OF loop changes_inv [OF changes Cons.prems(2)] resv(1) ids(2,1) resv(2)] good Cons.prems(9,10) st by simp
  with others good ids(3) show ?case by auto
qed simp

lemma accept_all_healthy:
  assumes "healthy s" and "\<forall>c \<in> set cs. no_status (wc_output c) = NS_Succeeded" and "distinct (map wc_node_id cs)"
    and "{n. status_of s n = Some NS_Running} = wc_node_id ` set cs"
  shows "healthy (fold (accept_completion v) cs s) \<and>
    (\<forall>n. status_of (fold (accept_completion v) cs s) n =
       (if status_of s n = Some NS_Running then Some NS_Succeeded else status_of s n))"
  using assms
proof (induction cs arbitrary: s)
  case (Cons c cs)
  let ?n = "wc_node_id c"
  define s1 where "s1 = (case find (\<lambda>(_, nid). nid = ?n) (sc_active_workers s) of
      None \<Rightarrow> s | Some (worker_id, _) \<Rightarrow> s\<lparr>sc_active_workers := bm_remove worker_id (sc_active_workers s)\<rparr>)"
  have acc: "accept_completion v c s = complete_node_with_usage v ?n NS_Succeeded (Some (wc_usage c)) s1"
    using Cons.prems(2) by (simp add: accept_completion_def s1_def Let_def)
  have same: "status_of s1 = status_of s" by (simp add: s1_def status_of_def fun_eq_iff split: option.split)
  have run: "status_of s ?n = Some NS_Running" using Cons.prems(4) by auto
  have s1: "healthy s1" "?n \<notin> set (bm_values (sc_active_workers s1))"
    using drop_worker [OF Cons.prems(1) s1_def] by simp_all
  have h1: "healthy (accept_completion v c s)"
    unfolding acc by (rule complete_healthy [OF s1(1) _ s1(2)]) (use run same in simp)
  have st: "status_of (accept_completion v c s) n = (if n = ?n then Some NS_Succeeded else status_of s n)" for n
    using run by (simp add: acc complete_status same)
  have "{n. status_of (accept_completion v c s) n = Some NS_Running} = {n. status_of s n = Some NS_Running} - {?n}"
    by (auto simp: st)
  also have "\<dots> = wc_node_id ` set cs" using Cons.prems(3,4) by (simp add: Diff_insert_absorb)
  finally have "{n. status_of (accept_completion v c s) n = Some NS_Running} = wc_node_id ` set cs" .
  from Cons.IH [OF h1 _ _ this] Cons.prems(2,3) run show ?case by (auto simp: st)
qed simp


text \<open>Between steps nothing is held and every node is pending or has succeeded.\<close>

definition quiet :: "scheduler \<times> fake_worker_backend \<Rightarrow> bool" where
  "quiet sb \<longleftrightarrow>
     healthy (fst sb) \<and> snd sb = complete_immediately \<and> (\<forall>n. status_of (fst sb) n \<noteq> Some NS_Running)"

lemma quiet_empty: "quiet (s, b) \<Longrightarrow> sc_active_tickets s = [] \<and> sc_active_workers s = [] \<and> answered (s, b)"
proof -
  assume q: "quiet (s, b)"
  then have h: "healthy s" "\<forall>n. status_of s n \<noteq> Some NS_Running" by (simp_all add: quiet_def)
  then have "set (bm_keys (sc_active_tickets s)) = {}" "set (bm_values (sc_active_workers s)) = {}"
    using healthyD(4,5) [OF h(1)] by fastforce+
  then show ?thesis using q by (simp add: bm_keys_def bm_values_def quiet_def answered_def complete_immediately_def)
qed

definition succeeded :: "scheduler \<Rightarrow> node_id set" where
  "succeeded s = {n. status_of s n = Some NS_Succeeded}"

lemma completed_card:
  assumes "bm_wf (sc_statuses s)"
  shows "completed_nodes s = card (succeeded s)" and "finite (succeeded s)" and "succeeded s \<subseteq> set (bm_keys (sc_statuses s))"
proof -
  have "succeeded s = fst ` set (filter (\<lambda>p. snd p = NS_Succeeded) (sc_statuses s))"
    using bm_get_Some_iff [OF assms] by (force simp: succeeded_def status_of_def)
  moreover have "distinct (map fst (filter (\<lambda>p. snd p = NS_Succeeded) (sc_statuses s)))"
    using assms by (simp add: bm_wf_def distinct_map_filter)
  then have "card (fst ` set (filter (\<lambda>p. snd p = NS_Succeeded) (sc_statuses s))) =
      length (filter (\<lambda>p. snd p = NS_Succeeded) (sc_statuses s))"
    using distinct_card by (metis length_map list.set_map)
  ultimately show "completed_nodes s = card (succeeded s)"
    by (simp add: completed_nodes_def count_status_def bm_values_def filter_map comp_def)
  show "finite (succeeded s)" "succeeded s \<subseteq> set (bm_keys (sc_statuses s))"
    using \<open>succeeded s = _\<close> by (auto simp: bm_keys_def)
qed

lemma quiet_step:
  assumes inv: "run_inv True fake_pending (graph_statics spec config) (s, b)" and q: "quiet (s, b)"
    and run: "sc_run_status s = RS_Running" and valid: "valid_graph env default_validation_options spec"
    and cf: "\<not> cf_plan_mode config" "cf_max_active_model_calls config \<noteq> 0"
  obtains s' where "scheduler_step fake_backend v run_id (s, b) = ((s', complete_immediately), Some (Ok ()))"
    and "run_inv True fake_pending (graph_statics spec config) (s', complete_immediately)"
    and "quiet (s', complete_immediately)"
    and "sc_run_status s' = (if list_all (\<lambda>st. st = NS_Succeeded) (bm_values (sc_statuses s')) then RS_Completed else RS_Running)"
    and "succeeded s \<subseteq> succeeded s'"
    and "run_ready_nodes s \<noteq> [] \<Longrightarrow> hd (run_ready_nodes s) \<in> succeeded s' - succeeded s"
proof -
  note st = reachable_fields [OF inv]
  have resv: "reservations_running s" using inv by (simp add: run_inv_def)
  note e = quiet_empty [OF q]
  have h: "healthy s" using q by (simp add: quiet_def)
  obtain s1 b1 turn where tries: "try_nodes fake_backend v run_id (run_ready_nodes s) (s, b) = ((s1, b1), turn)"
    by (metis prod.exhaust)
  have ready: "\<forall>n \<in> set (run_ready_nodes s). startable s n" "distinct (run_ready_nodes s)"
    using ready_startable ready_distinct run st(1) by (auto simp: scheduler_inv_def)
  have good: "turn = Next_Node" "healthy s1" "answered (s1, b1)" "sc_run_status s1 = RS_Running"
    "\<forall>n. n \<notin> set (run_ready_nodes s) \<longrightarrow> status_of s1 n = status_of s n"
    "run_ready_nodes s \<noteq> [] \<Longrightarrow> status_of s1 (hd (run_ready_nodes s)) \<in> {Some NS_Running, Some NS_Succeeded}"
    using try_nodes_healthy [OF tries st(1) resv ready(2,1) run h] e valid cf st(2,3) by auto
  have eff: "(\<forall>F. (change F)\<^sup>*\<^sup>* s s1) \<and> pending_running fake_pending (s1, b1)"
    using try_nodes_effect [OF tries st(1) resv ready(2,1) run, of "pending_running fake_pending"]
      tried_pending [OF fake.faithful_backend_axioms] inv run by (simp add: run_inv_def)
  let ?s2 = "fold (accept_completion v) (fw_completions b1) s1"
  define s' where "s' = refresh_run_status ?s2"
  have poll: "wb_poll_completed fake_backend b1 = (complete_immediately, fw_completions b1)"
    using good(3) by (simp add: fake_backend_def fake_poll_completed_def answered_def complete_immediately_def)
  have step: "scheduler_step fake_backend v run_id (s, b) = ((s', complete_immediately), Some (Ok ()))"
    using run tries good(1) by (simp add: scheduler_step_def finish_step_def poll s'_def)
  have "distinct (map wc_node_id (fw_completions b1))"
    using polled_running(1) [OF fake.faithful_backend_axioms _ poll] eff by blast
  then have acc: "healthy ?s2" "\<And>n. status_of ?s2 n = (if status_of s1 n = Some NS_Running then Some NS_Succeeded else status_of s1 n)"
    using accept_all_healthy [OF good(2), of "fw_completions b1" v] good(3) by (auto simp: answered_def)
  have same: "status_of s' = status_of ?s2" "sc_statuses s' = sc_statuses ?s2"
    by (simp_all add: s'_def refresh_run_status_def status_of_def fun_eq_iff)
  have q': "quiet (s', complete_immediately)"
    using acc healthy_cong [OF acc(1), of s'] healthyD(2) [OF acc(1)]
    by (auto simp: quiet_def same) (simp_all add: s'_def refresh_run_status_def)
  have "bm_wf (sc_statuses s1)"
    using changes_inv [of True s s1] eff st(1) by (simp add: scheduler_inv_def)
  moreover have inv': "run_inv True fake_pending (graph_statics spec config) (s', complete_immediately)"
    using step_run_inv [OF step inv] fake.faithful_backend_axioms by blast
  have "terminal_error_nodes ?s2 = 0"
  proof -
    have wf: "bm_wf (sc_statuses ?s2)" using reachable_fields(1) [OF inv'] same by (simp add: scheduler_inv_def)
    have "st \<in> {NS_Pending, NS_Running, NS_Succeeded}" if "(n, st) \<in> set (sc_statuses ?s2)" for n st
      using healthyD(3) [OF acc(1), of n st] that wf by (simp add: status_of_def bm_get_Some_iff)
    then show ?thesis by (fastforce simp: terminal_error_nodes_def bm_values_def filter_empty_conv)
  qed
  moreover have "sc_run_status ?s2 = RS_Running"
    using accept_all_changes [of False "fw_completions b1" s1 v] good(4) try_nodes_effect [OF tries st(1) resv ready(2,1) run, of "\<lambda>_. True"]
    by simp
  ultimately have status: "sc_run_status s' = (if list_all (\<lambda>st. st = NS_Succeeded) (bm_values (sc_statuses s')) then RS_Completed else RS_Running)"
    using healthyD(1) [OF acc(1)] by (simp add: s'_def refresh_run_status_def)
  have grow: "succeeded s \<subseteq> succeeded s'"
  proof
    fix n assume "n \<in> succeeded s"
    then have n: "status_of s n = Some NS_Succeeded" by (simp add: succeeded_def)
    then have "n \<notin> set (run_ready_nodes s)" using ready(1) by (auto simp: startable_def may_start_def)
    with good(5) n show "n \<in> succeeded s'" by (simp add: succeeded_def same acc(2))
  qed
  have "hd (run_ready_nodes s) \<in> succeeded s' - succeeded s" if "run_ready_nodes s \<noteq> []"
  proof -
    have "startable s (hd (run_ready_nodes s))" using ready(1) hd_in_set [OF that] by blast
    then have "status_of s (hd (run_ready_nodes s)) \<noteq> Some NS_Succeeded" by (auto simp: startable_def may_start_def)
    with good(6) [OF that] show ?thesis by (auto simp: succeeded_def same acc(2))
  qed
  with step inv' q' status grow show thesis by (rule that)
qed


section \<open>Progress\<close>

lemma some_node_ready:
  assumes inv: "run_inv F pending (graph_statics spec config) (s, b)" and q: "quiet (s, b')"
    and run: "sc_run_status s = RS_Running" and valid: "valid_graph env default_validation_options spec" and "lively spec"
    and left: "succeeded s \<noteq> ns_id ` set (sb_nodes (gs_spec spec))"
  shows "run_ready_nodes s \<noteq> []"
proof -
  note st = reachable_fields [OF inv]
  have inc: "sc_incoming_edges s = build_incoming_edges spec" using inv by (simp add: run_inv_def statics_def graph_statics_def)
  let ?ids = "ns_id ` set (sb_nodes (gs_spec spec))"
  have keys: "set (bm_keys (sc_statuses s)) = ?ids" "bm_wf (sc_statuses s)" "set (bm_keys (sc_nodes s)) = ?ids"
    using st(1,5) by (simp_all add: scheduler_inv_def bm_keys_of_list image_image)
  obtain rank :: "node_id \<Rightarrow> nat" where
    rank: "\<And>n d. d \<in> set (unwrap_or (bm_get (build_dependency_map spec) n) []) \<Longrightarrow> rank d < rank n \<and> d \<in> ?ids"
    and few: "\<And>n. length (unwrap_or (bm_get (build_dependency_map spec) n) []) \<le> length (sb_nodes (gs_spec spec))"
    using valid_graph_order [OF valid] by metis
  have pend: "status_of s n = Some NS_Pending" if ids: "n \<in> ?ids" and out: "n \<notin> succeeded s" for n
  proof -
    obtain st' where "status_of s n = Some st'"
      using ids keys(1) bm_contains_keys [of "sc_statuses s" n] unfolding status_of_def bm_contains_def by blast
    then show ?thesis using out healthyD(3) [of s n st'] q by (auto simp: quiet_def succeeded_def)
  qed
  have "succeeded s \<subseteq> ?ids" using completed_card(3) [OF keys(2)] keys(1) by simp
  with left obtain n0 where "n0 \<in> ?ids - succeeded s" by blast
  then obtain n where n: "n \<in> ?ids" "n \<notin> succeeded s" and least: "\<And>m. m \<in> ?ids - succeeded s \<Longrightarrow> rank n \<le> rank m"
    using arg_min_natI [of "\<lambda>x. x \<in> ?ids - succeeded s" n0 rank] arg_min_nat_le [of "\<lambda>x. x \<in> ?ids - succeeded s" _ rank] by blast
  have deps: "status_of s d = Some NS_Succeeded" if "d \<in> set (unwrap_or (bm_get (build_dependency_map spec) n) [])" for d
    using rank [OF that] least [of d] by (force simp: succeeded_def)
  obtain node where node: "node \<in> set (sb_nodes (gs_spec spec))" "ns_id node = n" using n(1) by blast
  have "length (unwrap_or (bm_get (build_dependency_map spec) n) []) < 2 ^ 32"
    using few [of n] assms(5) by (simp add: lively_def)
  moreover have "join_reachable spec n" using assms(5) node by (auto simp: lively_def list_all_iff)
  ultimately have sat: "dependencies_satisfied s n"
    using all_succeeded_satisfies [OF st(4) inc deps] by blast
  obtain node' where node': "bm_get (sc_nodes s) n = Some node'"
    using n(1) keys(3) bm_contains_keys [of "sc_nodes s" n] unfolding bm_contains_def by blast
  have "node' \<in> set (sb_nodes (gs_spec spec))"
    using nodes_get(2) [OF _ node'] st(1,2) by (simp add: scheduler_inv_def)
  then have "ns_kind node' \<noteq> NK_Compensation" using assms(5) by (auto simp: lively_def list_all_iff)
  then have "runnable_node s n"
    using node' sat pend [OF n] by (simp add: runnable_node_def status_of_def)
  moreover have "n \<in> set (bm_keys (sc_nodes s))" using n(1) keys(3) by simp
  ultimately have "n \<in> set (run_ready_nodes s)" using run by (simp add: run_ready_nodes_def)
  then show ?thesis by auto
qed

lemma fueled_steps_complete:
  assumes "run_inv True fake_pending (graph_statics spec config) (s, b)" and "quiet (s, b)"
    and "sc_run_status s = RS_Running" and valid: "valid_graph env default_validation_options spec" and lively: "lively spec"
    and cf: "\<not> cf_plan_mode config" "cf_max_active_model_calls config \<noteq> 0"
    and "card (ns_id ` set (sb_nodes (gs_spec spec))) - card (succeeded s) \<le> fuel" and "0 < fuel"
  shows "\<exists>s'. run_steps fake_backend v run_id fuel (s, b) = ((s', complete_immediately), Some (Ok ())) \<and>
    sc_run_status s' = RS_Completed"
  using assms(1-3,8,9)
proof (induction fuel arbitrary: s b)
  case (Suc fuel)
  let ?ids = "ns_id ` set (sb_nodes (gs_spec spec))"
  obtain s' where step: "scheduler_step fake_backend v run_id (s, b) = ((s', complete_immediately), Some (Ok ()))"
    and inv': "run_inv True fake_pending (graph_statics spec config) (s', complete_immediately)"
    and q': "quiet (s', complete_immediately)"
    and status: "sc_run_status s' = (if list_all (\<lambda>st. st = NS_Succeeded) (bm_values (sc_statuses s')) then RS_Completed else RS_Running)"
    and grow: "succeeded s \<subseteq> succeeded s'" "run_ready_nodes s \<noteq> [] \<Longrightarrow> hd (run_ready_nodes s) \<in> succeeded s' - succeeded s"
    using quiet_step [OF Suc.prems(1-3) valid cf] by metis
  show ?case
  proof (cases "sc_run_status s' = RS_Completed")
    case True
    with step show ?thesis by simp
  next
    case False
    then have run': "sc_run_status s' = RS_Running" and some: "\<not> list_all (\<lambda>st. st = NS_Succeeded) (bm_values (sc_statuses s'))"
      using status by (auto split: if_splits)
    note st = reachable_fields [OF Suc.prems(1)] and st' = reachable_fields [OF inv']
    have wf: "bm_wf (sc_statuses s)" "bm_wf (sc_statuses s')" "set (bm_keys (sc_statuses s')) = ?ids"
      using st(1) st'(1,5) by (simp_all add: scheduler_inv_def bm_keys_of_list image_image)
    have left': "succeeded s' \<noteq> ?ids"
    proof
      assume "succeeded s' = ?ids"
      then have "st = NS_Succeeded" if "(n, st) \<in> set (sc_statuses s')" for n st
      proof -
        have "n \<in> succeeded s'" using \<open>succeeded s' = ?ids\<close> wf(3) that by (force simp: bm_keys_def)
        with that show ?thesis using bm_get_Some_iff [OF wf(2), of n st] by (simp add: succeeded_def status_of_def)
      qed
      with some show False by (auto simp: list_all_iff bm_values_def)
    qed
    note fin = completed_card [OF wf(2)]
    have "succeeded s \<noteq> ?ids" using grow(1) left' fin(3) wf(3) by auto
    with some_node_ready [OF Suc.prems(1,2,3) valid lively] grow have "succeeded s \<subset> succeeded s'" by blast
    then have more: "card (succeeded s) < card (succeeded s')" using fin(2) by (rule psubset_card_mono [rotated])
    have "succeeded s' \<subset> ?ids" using left' fin(3) wf(3) by auto
    then have "card (succeeded s') < card ?ids" by (intro psubset_card_mono) simp_all
    with more Suc.prems(4) have "card ?ids - card (succeeded s') \<le> fuel" "0 < fuel" by linarith+
    from Suc.IH [OF inv' q' run' this] obtain s'' where
      "run_steps fake_backend v run_id fuel (s', complete_immediately) = ((s'', complete_immediately), Some (Ok ()))"
      "sc_run_status s'' = RS_Completed" by blast
    moreover have "completed_nodes s' \<noteq> completed_nodes s"
      using more completed_card(1) [OF wf(1)] fin(1) by simp
    ultimately show ?thesis using step run' by simp
  qed
qed simp


text \<open>The steps the code allows itself are at least as many as there are nodes.\<close>

lemma sum_list_unat_u64:
  "(\<And>x. x \<in> set xs \<Longrightarrow> unat (f x :: u64) < 2 ^ 32) \<Longrightarrow> length xs < 2 ^ 32 \<Longrightarrow>
   unat (sum_list (map f xs)) = sum_list (map (\<lambda>x. unat (f x)) xs) \<and>
   sum_list (map (\<lambda>x. unat (f x)) xs) \<le> length xs * (2 ^ 32 - 1)"
proof (induction xs)
  case (Cons x xs)
  have x: "unat (f x) \<le> 2 ^ 32 - 1" using Cons.prems(1) [of x] by simp
  have IH: "unat (sum_list (map f xs)) = sum_list (map (\<lambda>x. unat (f x)) xs)"
    "sum_list (map (\<lambda>x. unat (f x)) xs) \<le> length xs * (2 ^ 32 - 1)"
    using Cons by simp_all
  have "length xs * (2 ^ 32 - 1) \<le> 2 ^ 32 * (2 ^ 32 - 1)" using Cons.prems(2) by (intro mult_right_mono) simp_all
  then have "unat (f x) + sum_list (map (\<lambda>x. unat (f x)) xs) < 2 ^ 64" using x IH(2) by simp
  with IH x show ?case by (simp add: unat_word_ariths)
qed simp

lemma max_one_nonzero: "max a 1 \<noteq> (0 :: 'a::len word)"
  by (cases "a \<le> 1") (auto simp: max_def)

lemma step_weight:
  assumes "is_none_or k (\<lambda>i. i \<noteq> 0)"
  shows "1 \<le> unat (ucast (sat_mul (max a 1) (unwrap_or k 1) :: u32) :: u64)"
    and "unat (ucast (sat_mul (max a 1) (unwrap_or k 1) :: u32) :: u64) < 2 ^ 32"
proof -
  let ?w = "sat_mul (max a 1) (unwrap_or k 1) :: u32"
  have le: "unat ?w < 2 ^ 32" using unat_le_max [of ?w] by simp
  then have eq: "unat (ucast ?w :: u64) = unat ?w" by (simp add: unsigned_ucast_eq take_bit_nat_eq_self)
  have "unwrap_or k 1 \<noteq> 0" using assms by (cases k) simp_all
  moreover note max_one_nonzero [of a]
  ultimately have "1 \<le> unat (max a 1) * unat (unwrap_or k 1)" by (simp add: Suc_le_eq unat_gt_0)
  then show "1 \<le> unat (ucast ?w :: u64)" unfolding eq unat_sat_mul by simp
  show "unat (ucast ?w :: u64) < 2 ^ 32" using le eq by simp
qed

lemma enough_steps:
  assumes "list_all (\<lambda>node. is_none_or (Option.bind (ns_loop_policy node) ls_max_iterations) (\<lambda>i. i \<noteq> 0)) (bm_values (sc_nodes s))"
    and "length (sc_nodes s) < 2 ^ 32"
  shows "length (sc_nodes s) \<le> unat (maximum_scheduler_steps s)" and "0 < unat (maximum_scheduler_steps s)"
proof -
  define f :: "node_spec \<Rightarrow> u64" where
    "f node = ucast (sat_mul (max (rp_max_attempts (ns_retry_policy node)) 1)
      (unwrap_or (Option.bind (ns_loop_policy node) ls_max_iterations) 1))" for node
  let ?xs = "bm_values (sc_nodes s)"
  have max: "maximum_scheduler_steps s = max (sat_mul (sum_list (map f ?xs)) 4) 1"
    by (simp add: maximum_scheduler_steps_def f_def [abs_def])
  have w: "1 \<le> unat (f node)" "unat (f node) < 2 ^ 32" if "node \<in> set ?xs" for node
    using step_weight assms(1) that by (auto simp: f_def list_all_iff)
  have len: "length ?xs = length (sc_nodes s)" by (simp add: bm_values_def)
  have "sum_list (map (\<lambda>_. 1) ?xs) \<le> sum_list (map (\<lambda>x. unat (f x)) ?xs)"
    by (rule sum_list_mono) (use w(1) in blast)
  then have "length (sc_nodes s) \<le> unat (sum_list (map f ?xs))"
    using sum_list_unat_u64 [of ?xs f] w(2) assms(2) len by (simp add: sum_list_triv)
  then have "length (sc_nodes s) \<le> unat (sat_mul (sum_list (map f ?xs)) 4)"
    using assms(2) unfolding unat_sat_mul by simp
  moreover have "unat (sat_mul (sum_list (map f ?xs)) 4) \<le> unat (maximum_scheduler_steps s)"
    by (simp add: max word_le_nat_alt [symmetric])
  ultimately show "length (sc_nodes s) \<le> unat (maximum_scheduler_steps s)" by linarith
  show "0 < unat (maximum_scheduler_steps s)" by (simp add: max unat_gt_0 max_one_nonzero)
qed


section \<open>The whole run\<close>

lemma run_completes:
  assumes "new_scheduler env host spec config = Ok s0" and "lively spec"
    and "\<not> cf_plan_mode config" and "cf_max_active_model_calls config \<noteq> 0"
  obtains s where
    "run_to_completion fake_backend v run_id (s0, complete_immediately) = ((s, complete_immediately), Some (Ok (report_of s)))"
    and "sc_run_status s = RS_Completed"
proof -
  let ?s1 = "start_run s0"
  have valid: "valid_graph env default_validation_options spec" by (rule new_scheduler_valid [OF assms(1)])
  have inv: "run_inv True fake_pending (graph_statics spec config) (s0, complete_immediately)"
    by (rule new_scheduler_inv [OF assms(1)]) (simp add: fake_pending_def complete_immediately_def)
  then have inv1: "run_inv True fake_pending (graph_statics spec config) (?s1, complete_immediately)"
    by (rule status_op_inv) simp
  have s0: "s0 = initial_scheduler host spec config"
    using assms(1) by (auto simp: new_scheduler_def Let_def split: if_splits)
  then have run: "sc_run_status ?s1 = RS_Running" by (simp add: start_run_def initial_scheduler_def Let_def)
  have mem: "(n, node) \<in> set (bm_of_list (map (\<lambda>node. (ns_id node, node)) (sb_nodes (gs_spec spec)))) \<Longrightarrow>
      node \<in> set (sb_nodes (gs_spec spec))" for n node
    using set_bm_of_list [of "map (\<lambda>node. (ns_id node, node)) (sb_nodes (gs_spec spec))"] by auto
  have pend: "status_of ?s1 n = Some st \<Longrightarrow> st = NS_Pending" for n st
    using assms(2) by (auto simp: s0 start_run_def initial_scheduler_def Let_def status_of_def bm_get_def initial_status_def
        lively_def list_all_iff dest!: map_of_SomeD mem split: if_splits)
  have q: "quiet (?s1, complete_immediately)"
    using assms(2) pend by (fastforce simp: quiet_def healthy_def open_ledger_def lively_def
        s0 start_run_def initial_scheduler_def Let_def new_ledger_def bm_keys_def bm_values_def)
  note st = reachable_fields [OF inv1]
  have keys: "set (bm_keys (sc_nodes ?s1)) = ns_id ` set (sb_nodes (gs_spec spec))"
    by (simp add: st(5) bm_keys_of_list image_image)
  have "card (ns_id ` set (sb_nodes (gs_spec spec))) = length (sc_nodes ?s1)"
    using bm_wf_of_list [of "map (\<lambda>node. (ns_id node, node)) (sb_nodes (gs_spec spec))"] distinct_card [of "bm_keys (sc_nodes ?s1)"]
    by (simp add: keys [symmetric] st(5) bm_wf_def bm_keys_def)
  moreover have "length (sc_nodes ?s1) \<le> length (sb_nodes (gs_spec spec))"
    using calculation card_image_le [of "set (sb_nodes (gs_spec spec))" ns_id] card_length [of "sb_nodes (gs_spec spec)"] by simp
  moreover have "list_all (\<lambda>node. is_none_or (Option.bind (ns_loop_policy node) ls_max_iterations) (\<lambda>i. i \<noteq> 0)) (bm_values (sc_nodes ?s1))"
    using assms(2) mem by (fastforce simp: lively_def list_all_iff bm_values_def st(5))
  ultimately have fuel: "card (ns_id ` set (sb_nodes (gs_spec spec))) - card (succeeded ?s1) \<le> unat (maximum_scheduler_steps ?s1)"
    "0 < unat (maximum_scheduler_steps ?s1)"
    using enough_steps [of ?s1] assms(2) by (simp_all add: lively_def)
  from fueled_steps_complete [OF inv1 q run valid assms(2,3,4) fuel] obtain s where
    "run_steps fake_backend v run_id (unat (maximum_scheduler_steps ?s1)) (?s1, complete_immediately) =
       ((s, complete_immediately), Some (Ok ()))" and status: "sc_run_status s = RS_Completed" by blast
  then have "run_to_completion fake_backend v run_id (s0, complete_immediately) = ((s, complete_immediately), Some (Ok (report_of s)))"
    by (simp add: run_to_completion_def Let_def)
  with status show thesis by (rule that [rotated])
qed

end
