(* ===== verification/Scheduler_Properties.thy ===== *)
theory Scheduler_Properties
  imports Scheduler_Live
begin

text \<open>
  What the scheduler promises of every run of an accepted graph: steps fail only in the backend,
  limits on workers, resources, paths and budget hold throughout, nodes start after their
  dependencies, a completed run has every node succeeded, cancellation gives everything back, and
  with workers that succeed the run completes.
\<close>

section \<open>A run to apply the properties to\<close>

definition build_start :: scheduler where
  "build_start = initial_scheduler global_admission_controller build_graph (config_from_graph build_graph)"

definition build_stepped :: "scheduler \<times> fake_worker_backend" where
  "build_stepped = fst (scheduler_step fake_backend (\<lambda>_. ''id'') ''run'' (start_run build_start, manual_backend))"

lemma build_new:
  "new_scheduler plain_norm_env global_admission_controller build_graph (config_from_graph build_graph) = Ok build_start"
  using build_graph_valid by (simp add: new_scheduler_def build_start_def valid_graph_def Let_def)

lemma build_config: "\<not> cf_plan_mode (config_from_graph build_graph)" "cf_max_active_model_calls (config_from_graph build_graph) \<noteq> 0"
  by (simp_all add: config_from_graph_def max_one_nonzero)

lemma build_reaches:
  "(run_op fake_backend fake_progress)\<^sup>*\<^sup>* (build_start, manual_backend) (fst build_stepped, snd build_stepped)"
proof -
  have "run_op fake_backend fake_progress (build_start, manual_backend) (start_run build_start, manual_backend)"
    by (rule op_start)
  moreover have "run_op fake_backend fake_progress (start_run build_start, manual_backend) build_stepped"
    unfolding build_stepped_def by (rule op_step [OF prod.collapse [symmetric]])
  ultimately show ?thesis by (simp add: rtranclp.rtrancl_into_rtrancl)
qed

lemma build_lively: "lively build_graph"
proof -
  have "join_reachable build_graph ''a''" "join_reachable build_graph ''l''" by code_simp+
  moreover have "sb_budgets (gs_spec build_graph) = default_graph_budgets"
    by (simp add: build_graph_def minimal_graph_def Let_def)
  ultimately show ?thesis
    by (simp add: lively_def build_graph_nodes) (simp add: cargo_node_def build_loop_def minimal_node_def loop3_def)
qed

lemma build_completes:
  obtains s where "sc_run_status s = RS_Completed"
    and "(run_op fake_backend fake_progress)\<^sup>*\<^sup>* (build_start, complete_immediately) (s, complete_immediately)"
proof -
  obtain s where "run_to_completion fake_backend (\<lambda>_. ''id'') ''run'' (build_start, complete_immediately) =
      ((s, complete_immediately), Some (Ok (report_of s)))" and "sc_run_status s = RS_Completed"
    by (rule run_completes [OF build_new build_lively build_config])
  then show thesis by (intro that r_into_rtranclp op_run)
qed

section \<open>Completed runs\<close>

lemma completed_all_succeeded:
  assumes "new_scheduler env host spec config = Ok s0" and "(run_op backend progress)\<^sup>*\<^sup>* (s0, b0) (s, b)"
    and "sc_run_status s = RS_Completed" and "node \<in> set (sb_nodes (gs_spec spec))"
  shows "node_status_of s (ns_id node) = Some NS_Succeeded"
proof -
  note inv = reachable_fields [OF reachable_run [OF assms(1,2)]]
  have "ns_id node \<in> set (bm_keys (bm_of_list (map (\<lambda>node. (ns_id node, node)) (sb_nodes (gs_spec spec)))))"
    using assms(4) by (simp add: bm_keys_of_list image_image)
  then have "ns_id node \<in> set (bm_keys (sc_statuses s))" using inv(1,5) by (simp add: scheduler_inv_def)
  then obtain st where "(ns_id node, st) \<in> set (sc_statuses s)" by (auto simp: bm_keys_def)
  moreover from this have "st = NS_Succeeded"
    using inv(1) assms(3) by (auto simp: scheduler_inv_def list_all_iff bm_values_def)
  moreover have "bm_wf (sc_statuses s)" using inv(1) by (simp add: scheduler_inv_def)
  ultimately show ?thesis by (simp add: node_status_of_def bm_get_Some_iff)
qed

lemma build_all_succeeded:
  assumes "(run_op fake_backend fake_progress)\<^sup>*\<^sup>* (build_start, complete_immediately) (s, b)" and "sc_run_status s = RS_Completed"
  shows "node_status_of s ''l'' = Some NS_Succeeded"
  using completed_all_succeeded [OF build_new assms, of build_loop]
  by (simp add: build_graph_nodes) (simp add: build_loop_def minimal_node_def)

section \<open>Properties\<close>

text \<open>
  C1. A run with workers that succeed at once completes, under these conditions: the scheduler accepts
  the graph, does not run it in plan mode and allows at least one worker at a time; and the graph is
  \<open>lively\<close>, that is, it sets no budget limits, has fewer than \<open>2 ^ 32\<close> nodes, no compensation node, no
  loop policy with an iteration bound of zero, and no join that asks for more successes than it has
  dependencies. Then \<open>run_to_completion\<close> returns, within the bound on steps the code sets itself, a report
  that says completed and counts every node as completed, for every number of workers allowed at a time
  and whatever resources and paths the nodes compete for. (With a budget limit such a run can end as
  budget-stopped instead.)
\<close>

theorem immediate_run_completes:
  assumes "new_scheduler env host spec config = Ok s0" and "lively spec"
    and "\<not> cf_plan_mode config" and "cf_max_active_model_calls config \<noteq> 0"
  shows "\<exists>sb report. run_to_completion fake_backend v run_id (s0, complete_immediately) = (sb, Some (Ok report)) \<and>
    sr_run_status report = RS_Completed \<and> sr_completed_nodes report = sr_total_nodes report"
proof -
  obtain s where run: "run_to_completion fake_backend v run_id (s0, complete_immediately) =
      ((s, complete_immediately), Some (Ok (report_of s)))" and status: "sc_run_status s = RS_Completed"
    using run_completes [OF assms] by metis
  have "run_inv False (\<lambda>_. {#}) (graph_statics spec config) (s, complete_immediately)"
    by (rule reachable_run [OF assms(1)], rule r_into_rtranclp [of "run_op fake_backend (\<lambda>_ _. False)"], rule op_run [OF run])
  note inv = reachable_fields(1) [OF this]
  have "list_all (\<lambda>x. x = NS_Succeeded) (bm_values (sc_statuses s))" using inv status by (simp add: scheduler_inv_def)
  then have "count_status NS_Succeeded s = length (sc_statuses s)"
    by (simp add: count_status_def list_all_iff bm_values_def filter_id_conv)
  moreover have "length (sc_statuses s) = length (sc_nodes s)"
  proof -
    have "distinct (bm_keys (sc_statuses s))" "distinct (bm_keys (sc_nodes s))"
      "set (bm_keys (sc_statuses s)) = set (bm_keys (sc_nodes s))"
      using inv bm_wf_of_list [of "map (\<lambda>node. (ns_id node, node)) (sb_nodes (gs_spec (sc_spec s)))"]
      by (simp_all add: scheduler_inv_def derived_ok_def bm_wf_def bm_keys_def)
    then show ?thesis using distinct_card by (metis bm_keys_def length_map)
  qed
  ultimately show ?thesis using run status by (auto simp: report_of_def)
qed

theorem immediate_run_completes_witness:
  "\<exists>sb report. run_to_completion fake_backend (\<lambda>_. ''id'') ''run'' (build_start, complete_immediately) = (sb, Some (Ok report)) \<and>
    sr_run_status report = RS_Completed \<and> sr_completed_nodes report = sr_total_nodes report"
  by (rule immediate_run_completes [OF build_new build_lively build_config])

text \<open>
  C2. On an accepted graph that is not run in plan mode, after any operations and whatever the
  workers do, a step of the scheduler does not panic, and the only error it can return is one of
  the worker backend: none of budget, resources or admission.
\<close>

theorem step_fails_only_in_backend:
  assumes "new_scheduler env host spec config = Ok s0" and "\<not> cf_plan_mode config"
    and "(run_op backend progress)\<^sup>*\<^sup>* (s0, b0) (s, b)"
  shows "\<exists>sb'. scheduler_step backend v run_id (s, b) = (sb', Some (Ok ())) \<or>
    (\<exists>e. scheduler_step backend v run_id (s, b) = (sb', Some (Err (SE_Worker e))))"
proof -
  note inv = reachable_run [OF assms(1,3)]
  obtain s' b' r where step: "scheduler_step backend v run_id (s, b) = ((s', b'), r)" by (metis prod.exhaust)
  then have "r \<noteq> None" using step_run_inv [OF step inv] by simp
  then consider "r = Some (Ok ())" | e where "r = Some (Err e)" by (cases r; cases "the r") auto
  then show ?thesis
  proof cases
    case (2 e)
    with step_error_is_backend [OF _ inv new_scheduler_valid [OF assms(1)] assms(2)] step show ?thesis by blast
  qed (use step in blast)
qed

theorem step_fails_only_in_backend_witness:
  "\<exists>sb'. scheduler_step fake_backend (\<lambda>_. ''id'') ''run'' build_stepped = (sb', Some (Ok ())) \<or>
    (\<exists>e. scheduler_step fake_backend (\<lambda>_. ''id'') ''run'' build_stepped = (sb', Some (Err (SE_Worker e))))"
  using step_fails_only_in_backend [OF build_new build_config(1) build_reaches, of "\<lambda>_. ''id''" "''run''"] by simp

text \<open>
  C4. Never more model workers are active than \<^verbatim>\<open>max_active_model_calls\<close> allows, and the peak the
  report gives is within it.
\<close>

theorem active_workers_bounded:
  assumes "new_scheduler env host spec config = Ok s0" and "(run_op backend progress)\<^sup>*\<^sup>* (s0, b0) (s, b)"
  shows "length (sc_active_workers s) \<le> unat (cf_max_active_model_calls config) \<and>
    sr_peak_active_workers (report_of s) \<le> unat (cf_max_active_model_calls config)"
  using reachable_fields(1,3) [OF reachable_run [OF assms]]
  by (simp add: scheduler_inv_def workers_inv_def report_of_def)

theorem active_workers_bounded_witness:
  "length (sc_active_workers (fst build_stepped)) \<le> unat (cf_max_active_model_calls (config_from_graph build_graph)) \<and>
   sr_peak_active_workers (report_of (fst build_stepped)) \<le> unat (cf_max_active_model_calls (config_from_graph build_graph))"
  by (rule active_workers_bounded [OF build_new build_reaches])

text \<open>
  C5. The nodes that hold tickets at the same time never write to overlapping paths, and together
  they hold of every resource at most the limit the graph declares.
\<close>

theorem concurrent_nodes_isolated:
  assumes "new_scheduler env host spec config = Ok s0" and "(run_op backend progress)\<^sup>*\<^sup>* (s0, b0) (s, b)"
  shows "pairwise writes_disjoint (set (bm_values (sc_active_tickets s))) \<and>
    sum_list (map (\<lambda>t. unat (amount_of (rtk_claims t) r)) (bm_values (sc_active_tickets s))) \<le> limit_at (from_graph spec) r"
proof -
  have inv: "scheduler_inv s" "sc_spec s = spec" using reachable_fields [OF reachable_run [OF assms(1,2)]] by simp_all
  then obtain held where steps: "resource_step\<^sup>*\<^sup>* (from_graph spec, []) (sc_resources s, held)"
    and held: "mset held = mset (bm_values (sc_active_tickets s))"
    by (auto simp: scheduler_inv_def tickets_inv_def)
  have limit: "limit_at (sc_resources s) r = limit_at (from_graph spec) r"
    using resource_run_definitions [OF steps] by (simp add: limit_at_def)
  have "sum_list (map (\<lambda>t. unat (amount_of (rtk_claims t) r)) (bm_values (sc_active_tickets s))) = held_by r held"
    unfolding held_by_def sum_mset_sum_list [symmetric] mset_map held ..
  moreover have "set held = set (bm_values (sc_active_tickets s))" using held by (rule mset_eq_setD)
  ultimately show ?thesis
    using resource_invD(2,7) [OF reachable_resources [OF steps]] limit by (metis pairwise_def)
qed

theorem concurrent_nodes_isolated_witness:
  "pairwise writes_disjoint (set (bm_values (sc_active_tickets (fst build_stepped)))) \<and>
   sum_list (map (\<lambda>t. unat (amount_of (rtk_claims t) ''cargo'')) (bm_values (sc_active_tickets (fst build_stepped)))) \<le>
     limit_at (from_graph build_graph) ''cargo''"
  by (rule concurrent_nodes_isolated [OF build_new build_reaches])

text \<open>
  C7. A run that reports completed has every node of the graph succeeded.
\<close>

theorem completed_means_all_succeeded:
  assumes "new_scheduler env host spec config = Ok s0" and "(run_op backend progress)\<^sup>*\<^sup>* (s0, b0) (s, b)"
    and "sc_run_status s = RS_Completed" and "node \<in> set (sb_nodes (gs_spec spec))"
  shows "node_status_of s (ns_id node) = Some NS_Succeeded"
  using assms by (rule completed_all_succeeded)

theorem completed_means_all_succeeded_witness:
  "\<exists>s. sc_run_status s = RS_Completed \<and> node_status_of s ''l'' = Some NS_Succeeded"
proof -
  obtain s where run: "sc_run_status s = RS_Completed"
    and reach: "(run_op fake_backend fake_progress)\<^sup>*\<^sup>* (build_start, complete_immediately) (s, complete_immediately)"
    by (rule build_completes)
  have "node_status_of s (ns_id build_loop) = Some NS_Succeeded"
    by (rule completed_means_all_succeeded [OF build_new reach run]) (simp add: build_graph_nodes)
  with run show ?thesis by (auto simp: build_loop_def minimal_node_def)
qed

text \<open>
  C6. The ledger of a run stays open only while what was charged is within all budgets of the
  graph; once it is stopped, a step begins no further attempt.
\<close>

theorem run_budget_enforced:
  assumes "new_scheduler env host spec config = Ok s0" and "(run_op backend progress)\<^sup>*\<^sup>* (s0, b0) (s, b)"
    and "within_costs (sb_budgets (gs_spec spec)) default_usage"
  shows "(if bl_stopped (sc_budget s) = None
      then within_u64 (sb_budgets (gs_spec spec)) (bl_charged (sc_budget s)) \<and>
        within_costs (sb_budgets (gs_spec spec)) (bl_charged (sc_budget s))
      else sc_attempts (fst (fst (scheduler_step backend v run_id (s, b)))) = sc_attempts s)"
proof (cases "bl_stopped (sc_budget s) = None")
  case True
  note inv = reachable_fields [OF reachable_run [OF assms(1,2)]]
  have "(ledger_step (\<lambda>_ _ _. True))\<^sup>*\<^sup>* (new_ledger (sb_budgets (gs_spec spec))) (sc_budget s)"
    using inv(1,2) by (simp add: scheduler_inv_def)
  then have "charged_ok (sb_budgets (gs_spec spec)) (sc_budget s)"
    by (rule any_ledger.reach_inv [rotated]) (use assms(3) in simp)
  with True show ?thesis by (simp add: charged_ok_def)
next
  case False
  show ?thesis unfolding if_not_P [OF False] by (rule stopped_step_begins_nothing [OF False])
qed

theorem run_budget_enforced_witness:
  "(if bl_stopped (sc_budget (fst build_stepped)) = None
    then within_u64 default_graph_budgets (bl_charged (sc_budget (fst build_stepped))) \<and>
      within_costs default_graph_budgets (bl_charged (sc_budget (fst build_stepped)))
    else sc_attempts (fst (fst (scheduler_step fake_backend (\<lambda>_. ''id'') ''run'' (fst build_stepped, snd build_stepped)))) =
      sc_attempts (fst build_stepped))"
proof -
  have budgets: "sb_budgets (gs_spec build_graph) = default_graph_budgets"
    by (simp add: build_graph_def minimal_graph_def Let_def)
  have "within_costs (sb_budgets (gs_spec build_graph)) default_usage"
    by (simp add: budgets within_costs_def default_graph_budgets_def)
  from run_budget_enforced [OF build_new build_reaches this, of "\<lambda>_. ''id''" "''run''"] show ?thesis
    unfolding budgets .
qed

text \<open>
  C3. With a backend that answers only what was started, in a graph whose nodes have fewer than
  \<open>2 ^ 32\<close> dependencies, every node that runs or has succeeded has its dependencies satisfied, by the
  join policy of its edges, or by all of them having succeeded where no edge declares a join.
\<close>

theorem dependencies_before_start:
  assumes "faithful_backend backend pending progress"
    and "new_scheduler env host spec config = Ok s0" and "pending b0 = {#}"
    and "(run_op backend progress)\<^sup>*\<^sup>* (s0, b0) (s, b)"
    and "node_status_of s n = Some NS_Running \<or> node_status_of s n = Some NS_Succeeded"
    and "length (unwrap_or (bm_get (build_dependency_map spec) n) []) < 2 ^ 32"
  shows "dependencies_satisfied s n \<and>
    (strongest_join (unwrap_or (bm_get (build_incoming_edges spec) n) []) = None \<longrightarrow>
     (\<forall>dep \<in> set (unwrap_or (bm_get (build_dependency_map spec) n) []). node_status_of s dep = Some NS_Succeeded))"
proof -
  have "fresh_run (\<lambda>b. pending b = {#}) spec config (s0, b0)" using assms(2,3) by (auto simp: fresh_run_def)
  from faithful_backend.faithful_reach [OF assms(1) this assms(4)]
  have deps: "deps_inv s" "sc_dependencies s = build_dependency_map spec" "sc_incoming_edges s = build_incoming_edges spec"
    by (simp_all add: run_inv_def statics_def graph_statics_def)
  then have "deps_done s n" using assms(5) by (auto simp: deps_inv_def node_status_of_def status_of_def)
  then have sat: "dependencies_satisfied s n" using assms(6) by (simp add: deps_done_def run_deps_def deps)
  moreover have "node_status_of s dep = Some NS_Succeeded"
    if "strongest_join (unwrap_or (bm_get (build_incoming_edges spec) n) []) = None"
      and "dep \<in> set (unwrap_or (bm_get (build_dependency_map spec) n) [])" for dep
    using sat that
    by (cases "bm_get (build_dependency_map spec) n")
      (auto simp: dependencies_satisfied_def deps node_status_of_def list_all_iff split: if_splits)
  ultimately show ?thesis by blast
qed

theorem dependencies_before_start_witness:
  "\<exists>s. dependencies_satisfied s ''l'' \<and> node_status_of s ''a'' = Some NS_Succeeded"
proof -
  obtain s where run: "sc_run_status s = RS_Completed"
    and reach: "(run_op fake_backend fake_progress)\<^sup>*\<^sup>* (build_start, complete_immediately) (s, complete_immediately)"
    by (rule build_completes)
  have deps: "unwrap_or (bm_get (build_dependency_map build_graph) ''l'') [] = [''a'']"
    "strongest_join (unwrap_or (bm_get (build_incoming_edges build_graph) ''l'') []) = None"
    by code_simp+
  have "node_status_of s ''l'' = Some NS_Succeeded" by (rule build_all_succeeded [OF reach run])
  then have "node_status_of s ''l'' = Some NS_Running \<or> node_status_of s ''l'' = Some NS_Succeeded" by simp
  from dependencies_before_start [OF fake.faithful_backend_axioms build_new _ reach this] deps show ?thesis
    by (auto simp: fake_pending_def complete_immediately_def)
qed

text \<open>
  C8. Cancelling gives everything back: no ticket, permit, worker or reservation of the run is
  left, in the scheduler, the resource manager or the ledger, and every node is terminal.
\<close>

theorem cancel_releases_everything:
  assumes "new_scheduler env host spec config = Ok s0" and "(run_op backend progress)\<^sup>*\<^sup>* (s0, b0) (s, b)"
    and "s' = fst (cancel_run backend v (s, b))"
  shows "sc_run_status s' = RS_Cancelled \<and> sc_active_tickets s' = [] \<and> sc_active_workers s' = [] \<and>
    held_amount (sc_resources s') r = 0 \<and> bl_reservations (sc_budget s') = [] \<and>
    sc_host_tickets s' = [] \<and> sc_host_requests s' = [] \<and> sc_provider_permits s' = [] \<and>
    list_all node_status_is_terminal (bm_values (sc_statuses s'))"
proof -
  have s': "s' = cancel_state v s" using assms(3) by (simp add: cancel_run_def)
  note inv = reachable_fields [OF reachable_run [OF assms(1,2)]]
  obtain held where "resource_step\<^sup>*\<^sup>* (from_graph spec, []) (sc_resources s, held)"
    and "mset held = mset (bm_values (sc_active_tickets s))"
    using inv(1,2) by (auto simp: scheduler_inv_def tickets_inv_def)
  from release_tickets [OF this] have "resource_step\<^sup>*\<^sup>* (from_graph spec, []) (sc_resources s', [])"
    by (simp add: s' cancel_fields)
  from resource_invD(1) [OF reachable_resources [OF this], of r]
  have "held_amount (sc_resources s') r = 0" by (simp add: held_by_def unat_eq_zero)
  moreover have "set (bm_keys (bl_reservations (sc_budget s'))) = {}"
    using inv(1) by (auto simp: s' cancel_fields release_reservations scheduler_inv_def reservations_inv_def)
  then have "bl_reservations (sc_budget s') = []" by (simp add: bm_keys_def)
  moreover have "list_all node_status_is_terminal (bm_values (sc_statuses s'))"
    by (auto simp: s' cancel_fields list_all_iff bm_values_def split: if_splits)
  ultimately show ?thesis by (simp add: s' cancel_fields cancel_gives_back)
qed

theorem cancel_releases_everything_witness:
  "let s' = fst (cancel_run fake_backend (\<lambda>_. ''id'') (fst build_stepped, snd build_stepped))
   in sc_run_status s' = RS_Cancelled \<and> sc_active_tickets s' = [] \<and> held_amount (sc_resources s') ''cargo'' = 0 \<and>
     bl_reservations (sc_budget s') = [] \<and> list_all node_status_is_terminal (bm_values (sc_statuses s'))"
  using cancel_releases_everything [OF build_new build_reaches refl, of "\<lambda>_. ''id''" "''cargo''"] by (simp add: Let_def)

end
