(* ===== verification/Store_Correct.thy ===== *)
theory Store_Correct
  imports Store
begin

text \<open>
  What holds of every store. Each operation is a sequence of a few kinds of writes, the relation
  \<open>store_write\<close>; the invariants are shown once for each kind, and \<open>store_op_writes\<close> says that the
  public operations, on success and on failure, are made of such writes.
\<close>

section \<open>Tables\<close>

named_theorems table_simps \<open>statements on a table, read as look-ups and as conditions on its rows\<close>

lemma set_bm_insert_subset: "set (bm_insert k v m) \<subseteq> insert (k, v) (set m)"
  by (auto simp: bm_insert_def bm_remove_def set_insort_key)

lemma rows_insert: "P (k, v) \<Longrightarrow> list_all P m \<Longrightarrow> list_all P (bm_insert k v m)"
  using set_bm_insert_subset [of k v m] by (auto simp: list_all_iff)

lemma rows_filter: "list_all P m \<Longrightarrow> list_all P (filter q m)"
  by (auto simp: list_all_iff)

lemma rows_remove: "list_all P m \<Longrightarrow> list_all P (bm_remove k m)"
  by (auto simp: list_all_iff bm_remove_def)

lemma rows_delete: "list_all P m \<Longrightarrow> list_all P (delete_rows q m)" "list_all P m \<Longrightarrow> list_all P (delete_row k r m)"
  by (auto simp: list_all_iff delete_rows_def delete_row_def bm_remove_def)

lemma bm_wf_filter: "bm_wf m \<Longrightarrow> bm_wf (filter q m)"
  by (auto simp: bm_wf_def sorted_map distinct_map intro: sorted_wrt_filter inj_on_subset)

lemma bm_wf_delete: "bm_wf m \<Longrightarrow> bm_wf (delete_rows q m)" "bm_wf m \<Longrightarrow> bm_wf (delete_row k r m)"
  by (simp_all add: delete_rows_def delete_row_def bm_wf_filter bm_wf_remove)

lemma bm_wf_update: "bm_wf m \<Longrightarrow> bm_wf (update_row k p f m)"
  by (auto simp: update_row_def bm_wf_insert split: option.split)

lemma bm_get_filter:
  assumes "bm_wf m"
  shows "bm_get (filter q m) k = (case bm_get m k of Some v \<Rightarrow> if q (k, v) then Some v else None | None \<Rightarrow> None)"
proof -
  have iff: "bm_get (filter q m) k = Some v \<longleftrightarrow> bm_get m k = Some v \<and> q (k, v)" for v
    using bm_get_Some_iff [OF assms, of k v] bm_get_Some_iff [OF bm_wf_filter [OF assms], of q k v] by simp
  show ?thesis
  proof (cases "\<exists>v. bm_get m k = Some v \<and> q (k, v)")
    case True
    then obtain v where "bm_get m k = Some v" "q (k, v)" by blast
    with iff [of v] show ?thesis by simp
  next
    case False
    with iff have "bm_get (filter q m) k = None" by (metis not_None_eq)
    with False show ?thesis by (auto split: option.split)
  qed
qed

lemma get_delete_rows: "bm_wf m \<Longrightarrow> bm_get (delete_rows q m) k = (if q k then None else bm_get m k)"
  by (auto simp: delete_rows_def bm_get_filter split: option.splits)

lemma get_update_row:
  "bm_get (update_row k p f m) k' =
   (if k' = k then map_option (\<lambda>r. if p r then f r else r) (bm_get m k) else bm_get m k')"
  by (auto simp: update_row_def bmap_simps split: option.splits)

lemma contains_update_row [table_simps]: "bm_contains (update_row k p f m) k' = bm_contains m k'"
  by (simp add: bm_contains_def get_update_row)

lemma update_row_cases:
  obtains "update_row k p f m = m"
  | row where "bm_get m k = Some row" "p row" "update_row k p f m = bm_insert k (f row) m"
proof (cases "is_some_and (bm_get m k) p")
  case True
  then obtain row where "bm_get m k = Some row" "p row" by (cases "bm_get m k") auto
  then show thesis using that(2) by (simp add: update_row_def)
next
  case False
  then have "update_row k p f m = m" by (auto simp: update_row_def split: option.split)
  then show thesis by (rule that(1))
qed

lemma contains_delete_rows: "bm_wf m \<Longrightarrow> bm_contains (delete_rows q m) k \<longleftrightarrow> bm_contains m k \<and> \<not> q k"
  by (simp add: bm_contains_def get_delete_rows)

lemma map_r_Ok:
  "map_r f xs = Ok ys \<longleftrightarrow> list_all2 (\<lambda>x y. f x = Ok y) xs ys"
  by (induction xs arbitrary: ys) (auto simp: bind_r_eq_Ok list_all2_Cons1)

lemma json_Ok [simp]: "json r = Ok v \<longleftrightarrow> r = Ok v"
  by (auto simp: json_def split: sum.splits)

lemma query_row_Ok [simp]: "query_row x = Ok v \<longleftrightarrow> x = Some v"
  by (auto simp: query_row_def ok_or_def split: option.splits)

lemma constraint_Ok [simp]: "constraint c = Ok u \<longleftrightarrow> c"
  by (simp add: constraint_def)

lemma references_Ok [simp]: "references en table k = Ok u \<longleftrightarrow> (en_foreign_keys en \<longrightarrow> bm_contains table k)"
  by (simp add: references_def)

section \<open>Well-formed stores\<close>

abbreviation run_ref :: "'j store \<Rightarrow> string \<Rightarrow> bool" where
  "run_ref s \<equiv> bm_contains (st_runs s)"

abbreviation node_ref :: "'j store \<Rightarrow> string \<times> node_id \<Rightarrow> bool" where
  "node_ref s \<equiv> bm_contains (st_nodes s)"

text \<open>The tables the others refer to: graphs, runs, nodes and budgets.\<close>

definition core_wf :: "'j store \<Rightarrow> bool" where
  "core_wf s \<longleftrightarrow>
     bm_wf (st_specs s) \<and> bm_wf (st_runs s) \<and> bm_wf (st_nodes s) \<and> bm_wf (st_budgets s) \<and>
     bm_wf (st_reservations s) \<and>
     list_all (\<lambda>(_, run). bm_contains (st_specs s) (ru_spec_hash run)) (st_runs s) \<and>
     list_all (\<lambda>((run_id, _), _). run_ref s run_id) (st_nodes s) \<and>
     (\<forall>run_id. bm_contains (st_budgets s) run_id \<longleftrightarrow> run_ref s run_id) \<and>
     list_all (\<lambda>((run_id, nid, _), _). node_ref s (run_id, nid)) (st_reservations s) \<and>
     list_all (\<lambda>e. run_ref s (er_run_id e)) (st_events s)"

definition side_wf :: "'j store \<Rightarrow> bool" where
  "side_wf s \<longleftrightarrow>
     bm_wf (st_active_runs s) \<and> bm_wf (st_leases s) \<and> bm_wf (st_usage s) \<and> bm_wf (st_approvals s) \<and>
     bm_wf (st_retry_schedules s) \<and> bm_wf (st_retry_history s) \<and> bm_wf (st_loops s) \<and>
     bm_wf (st_plans s) \<and> bm_wf (st_coordinators s) \<and>
     list_all (\<lambda>(_, run_id, _). run_ref s run_id) (st_active_runs s) \<and>
     list_all (\<lambda>((run_id, _), _). run_ref s run_id) (st_leases s) \<and>
     list_all (\<lambda>((run_id, _), _). run_ref s run_id) (st_usage s) \<and>
     list_all (\<lambda>(run_id, _). run_ref s run_id) (st_approvals s) \<and>
     list_all (\<lambda>(run_id, _). run_ref s run_id) (st_plans s) \<and>
     list_all (\<lambda>(k, _). node_ref s k) (st_loops s) \<and>
     list_all (\<lambda>((run_id, nid, _), _). node_ref s (run_id, nid)) (st_retry_history s) \<and>
     list_all (\<lambda>(k, r, _). node_ref s k \<and> k = (rsch_run_id r, rsch_node_id r)) (st_retry_schedules s)"

definition store_wf :: "'j store \<Rightarrow> bool" where
  "store_wf s \<longleftrightarrow> core_wf s \<and> side_wf s"


section \<open>Kinds of writes\<close>

text \<open>The ledger of a run after a change, with the text that is saved.\<close>

definition saved :: "'j engine \<Rightarrow> string \<Rightarrow> budget_ledger \<Rightarrow> 'j store \<Rightarrow> 'j store \<Rightarrow> bool" where
  "saved en run_id l s s' \<longleftrightarrow>
     (\<exists>text at_ms. to_string (en_budget en) (persistent_state l) = Ok text \<and>
        s' = s\<lparr>st_budgets := update_row run_id (\<lambda>_. True) (\<lambda>_. (text, at_ms)) (st_budgets s)\<rparr>)"

text \<open>Stores that differ in the tables nothing refers to.\<close>

definition same_core :: "'j store \<Rightarrow> 'j store \<Rightarrow> bool" where
  "same_core s s' \<longleftrightarrow>
     st_specs s' = st_specs s \<and> st_runs s' = st_runs s \<and> st_nodes s' = st_nodes s \<and>
     st_budgets s' = st_budgets s \<and> st_reservations s' = st_reservations s \<and> st_events s' = st_events s"

text \<open>
  \<open>fresh\<close> is what a lease does to the attempt number of its node, \<open>gone\<close> tells which runs may be
  cleaned up.
\<close>

inductive store_write ::
  "'j engine \<Rightarrow> (u32 \<Rightarrow> u32 \<Rightarrow> bool) \<Rightarrow> (string \<Rightarrow> bool) \<Rightarrow> 'j store \<Rightarrow> 'j store \<Rightarrow> bool"
  for en fresh gone where
  w_log: "run_ref s (er_run_id e) \<Longrightarrow> store_write en fresh gone s (s\<lparr>st_events := st_events s @ [e]\<rparr>)"
| w_run: "bm_get (st_runs s) run_id = Some row \<Longrightarrow> ru_spec_hash row' = ru_spec_hash row \<Longrightarrow>
    store_write en fresh gone s (s\<lparr>st_runs := bm_insert run_id row' (st_runs s)\<rparr>)"
| w_node: "bm_get (st_nodes s) k = Some row \<Longrightarrow> nr_attempt row' = nr_attempt row \<or> fresh (nr_attempt row) (nr_attempt row') \<Longrightarrow>
    store_write en fresh gone s (s\<lparr>st_nodes := bm_insert k row' (st_nodes s)\<rparr>)"
| w_side: "same_core s s' \<Longrightarrow> (side_wf s \<Longrightarrow> side_wf s') \<Longrightarrow> store_write en fresh gone s s'"
| w_stop: "load_ledger en run_id s = Ok l \<Longrightarrow> bl_charged l' = bl_charged l \<Longrightarrow> bl_reservations l' = bl_reservations l \<Longrightarrow>
    saved en run_id l' s s' \<Longrightarrow> store_write en fresh gone s s'"
| w_reserve: "load_ledger en run_id s = Ok l \<Longrightarrow> reserve l (run_id, nid, a) estimate = (l', Ok u) \<Longrightarrow>
    bm_get (st_nodes s) (run_id, nid) = Some row \<Longrightarrow> fresh (nr_attempt row) a \<Longrightarrow>
    saved en run_id l' s s1 \<Longrightarrow> \<not> bm_contains (st_reservations s) (run_id, nid, a) \<Longrightarrow>
    store_write en fresh gone s
      (s1\<lparr>st_reservations := bm_insert (run_id, nid, a) v (st_reservations s1),
          st_nodes := bm_insert (run_id, nid) (row'\<lparr>nr_attempt := a\<rparr>) (st_nodes s1)\<rparr>)"
| w_settle: "load_ledger en (fst k) s = Ok l \<Longrightarrow> reconcile l k actual = (l', Ok charged) \<Longrightarrow>
    saved en (fst k) l' s s1 \<Longrightarrow>
    store_write en fresh gone s (s1\<lparr>st_reservations := bm_remove k (st_reservations s1)\<rparr>)"
| w_create: "create_run_tx en run_id spec session_id repo_root now hash spec_json s = Ok (s', u) \<Longrightarrow>
    store_write en fresh gone s s'"
| w_cleanup: "gone run_id \<Longrightarrow> cleanup_run run_id s = (s', Ok u) \<Longrightarrow> store_write en fresh gone s s'"

abbreviation store_writes :: "'j engine \<Rightarrow> (u32 \<Rightarrow> u32 \<Rightarrow> bool) \<Rightarrow> (string \<Rightarrow> bool) \<Rightarrow> 'j store \<Rightarrow> 'j store \<Rightarrow> bool" where
  "store_writes en fresh gone \<equiv> (store_write en fresh gone)\<^sup>*\<^sup>*"


section \<open>Writes keep a store well-formed\<close>

definition new_node_row :: "i64 \<Rightarrow> 'j node_row" where
  "new_node_row now =
     \<lparr>nr_status = NS_Pending, nr_attempt = 0, nr_lease_owner = None, nr_lease_expires_at_ms = None,
      nr_output_json = None, nr_updated_at_ms = now\<rparr>"

lemma insert_nodes:
  assumes "fold_r (insert_node run_id now) nodes s = Ok s'"
  shows "\<exists>ns. s' = s\<lparr>st_nodes := ns\<rparr> \<and> (bm_wf (st_nodes s) \<longrightarrow> bm_wf ns) \<and>
    (\<forall>k. bm_get ns k = (if fst k = run_id \<and> snd k \<in> ns_id ` set nodes then Some (new_node_row now) else bm_get (st_nodes s) k))"
  using assms
proof (induction nodes arbitrary: s)
  case (Cons node nodes)
  then obtain s1 where s1: "insert_node run_id now node s = Ok s1" "fold_r (insert_node run_id now) nodes s1 = Ok s'"
    by (auto simp: bind_r_eq_Ok)
  then have eq: "s1 = s\<lparr>st_nodes := bm_insert (run_id, ns_id node) (new_node_row now) (st_nodes s)\<rparr>"
    by (auto simp: insert_node_def bind_r_eq_Ok new_node_row_def)
  from Cons.IH [OF s1(2)] obtain ns where "s' = s1\<lparr>st_nodes := ns\<rparr>" "bm_wf (st_nodes s1) \<longrightarrow> bm_wf ns"
    "\<forall>k. bm_get ns k = (if fst k = run_id \<and> snd k \<in> ns_id ` set nodes then Some (new_node_row now) else bm_get (st_nodes s1) k)"
    by blast
  then show ?case
    by (intro exI [of _ ns]) (auto simp: eq bm_wf_insert bmap_simps)
qed (auto intro!: exI [of _ "st_nodes s'"])

lemma insert_event_Ok:
  assumes "insert_event_tx en run_id event now s = Ok s'"
  shows "\<exists>e. er_run_id e = run_id \<and> s' = s\<lparr>st_events := st_events s @ [e]\<rparr> \<and>
    (en_foreign_keys en \<longrightarrow> run_ref s run_id)"
proof -
  from assms obtain j where "s' = s\<lparr>st_events := st_events s @
      [\<lparr>er_run_id = run_id, er_event_type = event_type event, er_event_json = j, er_created_at_ms = now\<rparr>]\<rparr>"
    "en_foreign_keys en \<longrightarrow> run_ref s run_id"
    by (auto simp: insert_event_tx_def bind_r_eq_Ok)
  then show ?thesis
    by (intro exI [of _ "\<lparr>er_run_id = run_id, er_event_type = event_type event, er_event_json = j, er_created_at_ms = now\<rparr>"])
      simp
qed

text \<open>What creating a run changes.\<close>

definition created ::
  "'j engine \<Rightarrow> string \<Rightarrow> graph_spec \<Rightarrow> i64 \<Rightarrow> string \<Rightarrow> 'j \<Rightarrow> 'j store \<Rightarrow> 'j store \<Rightarrow> bool" where
  "created en run_id spec now hash spec_json s s' \<longleftrightarrow>
     \<not> run_ref s run_id \<and> \<not> bm_contains (st_budgets s) run_id \<and>
     (\<exists>row. ru_spec_hash row = hash \<and> ru_status row = RS_AwaitingApproval \<and> st_runs s' = bm_insert run_id row (st_runs s)) \<and>
     bm_contains (st_specs s') hash \<and> (bm_wf (st_specs s) \<longrightarrow> bm_wf (st_specs s')) \<and>
     (\<forall>h. bm_contains (st_specs s) h \<longrightarrow> bm_get (st_specs s') h = bm_get (st_specs s) h) \<and>
     (bm_wf (st_nodes s) \<longrightarrow> bm_wf (st_nodes s')) \<and>
     (\<forall>k. bm_get (st_nodes s') k =
        (if fst k = run_id \<and> snd k \<in> ns_id ` set (sb_nodes (gs_spec spec)) then Some (new_node_row now)
         else bm_get (st_nodes s) k)) \<and>
     (\<exists>e. er_run_id e = run_id \<and> st_events s' = st_events s @ [e]) \<and>
     (\<exists>text. to_string (en_budget en) default_persistent_state = Ok text \<and>
        st_budgets s' = bm_insert run_id (text, now) (st_budgets s)) \<and>
     st_reservations s' = st_reservations s \<and> st_active_runs s' = st_active_runs s \<and>
     st_leases s' = st_leases s \<and> st_usage s' = st_usage s \<and> st_approvals s' = st_approvals s \<and>
     st_retry_schedules s' = st_retry_schedules s \<and> st_retry_history s' = st_retry_history s \<and>
     st_coordinators s' = st_coordinators s \<and> st_loops s' = st_loops s \<and> st_plans s' = st_plans s"

lemma create_run_created:
  assumes "create_run_tx en run_id spec session_id repo_root now hash spec_json s = Ok (s', u)"
  shows "created en run_id spec now hash spec_json s s'"
proof -
  let ?s1 = "insert_spec hash \<lparr>sp_name = gm_name (gs_metadata spec), sp_spec_json = spec_json, sp_created_at_ms = now\<rparr> s"
  let ?row = "\<lparr>ru_status = RS_AwaitingApproval, ru_spec_hash = hash, ru_session_id = session_id,
      ru_repo_root = repo_root, ru_created_at_ms = now, ru_updated_at_ms = now\<rparr>"
  let ?s2 = "?s1\<lparr>st_runs := bm_insert run_id ?row (st_runs ?s1)\<rparr>"
  have s1: "st_runs ?s1 = st_runs s" "st_nodes ?s1 = st_nodes s" "st_budgets ?s1 = st_budgets s"
    "st_reservations ?s1 = st_reservations s" "st_active_runs ?s1 = st_active_runs s"
    "st_leases ?s1 = st_leases s" "st_usage ?s1 = st_usage s" "st_approvals ?s1 = st_approvals s"
    "st_retry_schedules ?s1 = st_retry_schedules s" "st_retry_history ?s1 = st_retry_history s"
    "st_coordinators ?s1 = st_coordinators s" "st_loops ?s1 = st_loops s" "st_plans ?s1 = st_plans s"
    "st_events ?s1 = st_events s" "bm_contains (st_specs ?s1) hash" "bm_wf (st_specs s) \<longrightarrow> bm_wf (st_specs ?s1)"
    "bm_contains (st_specs s) h \<longrightarrow> bm_get (st_specs ?s1) h = bm_get (st_specs s) h" for h
    by (auto simp: insert_spec_def bmap_simps bm_wf_insert)
  from assms obtain s3 s4 j where fresh: "\<not> run_ref ?s1 run_id"
    and s3: "fold_r (insert_node run_id now) (sb_nodes (gs_spec spec)) ?s2 = Ok s3"
    and s4: "insert_event_tx en run_id (GE_RunCreated RS_AwaitingApproval) now s3 = Ok s4"
    and j: "to_string (en_budget en) default_persistent_state = Ok j" "\<not> bm_contains (st_budgets s4) run_id"
    and s': "s' = s4\<lparr>st_budgets := bm_insert run_id (j, now) (st_budgets s4)\<rparr>"
    by (auto simp: create_run_tx_def Let_def bind_r_eq_Ok)
  from insert_nodes [OF s3] obtain ns where s3': "s3 = ?s2\<lparr>st_nodes := ns\<rparr>" and ns: "bm_wf (st_nodes ?s2) \<longrightarrow> bm_wf ns"
    "\<forall>k. bm_get ns k = (if fst k = run_id \<and> snd k \<in> ns_id ` set (sb_nodes (gs_spec spec)) then Some (new_node_row now)
       else bm_get (st_nodes ?s2) k)"
    by blast
  from insert_event_Ok [OF s4] obtain e where e: "er_run_id e = run_id" "s4 = s3\<lparr>st_events := st_events s3 @ [e]\<rparr>"
    by blast
  have eq: "s' = ?s1\<lparr>st_runs := bm_insert run_id ?row (st_runs s), st_nodes := ns, st_events := st_events s @ [e],
      st_budgets := bm_insert run_id (j, now) (st_budgets s)\<rparr>"
    by (simp add: s' e(2) s3' s1)
  have fresh': "\<not> run_ref s run_id" "\<not> bm_contains (st_budgets s) run_id"
    using fresh j(2) by (simp_all add: e(2) s3' s1)
  have "\<exists>row. ru_spec_hash row = hash \<and> ru_status row = RS_AwaitingApproval \<and> st_runs s' = bm_insert run_id row (st_runs s)"
    by (intro exI [of _ ?row]) (simp add: eq)
  then show ?thesis
    unfolding created_def using fresh' ns e(1) j(1) s1(15,16,17)
    by (intro conjI) (simp_all add: eq s1)
qed

lemma side_wf_mono:
  assumes "\<And>r. run_ref s r \<Longrightarrow> run_ref s' r" and "\<And>k. node_ref s k \<Longrightarrow> node_ref s' k"
    and "st_active_runs s' = st_active_runs s" "st_leases s' = st_leases s" "st_usage s' = st_usage s"
      "st_approvals s' = st_approvals s" "st_retry_schedules s' = st_retry_schedules s"
      "st_retry_history s' = st_retry_history s" "st_coordinators s' = st_coordinators s"
      "st_loops s' = st_loops s" "st_plans s' = st_plans s"
    and "side_wf s"
  shows "side_wf s'"
  using assms(12) unfolding side_wf_def assms(3-11)
  by (intro conjI) (auto elim!: list.pred_mono_strong intro: assms(1,2))


lemma rows_cong: "list_all P m \<Longrightarrow> (\<And>x. x \<in> set m \<Longrightarrow> P x \<Longrightarrow> Q x) \<Longrightarrow> list_all Q m"
  by (auto simp: list_all_iff)

text \<open>Where the rows refer to, and that a table keeps its references when others only grow.\<close>

lemma core_wf_grow:
  assumes wf: "core_wf s"
    and grow: "\<And>h. bm_contains (st_specs s) h \<Longrightarrow> bm_contains (st_specs s') h"
      "\<And>r. run_ref s r \<Longrightarrow> run_ref s' r" "\<And>k. node_ref s k \<Longrightarrow> node_ref s' k"
    and "bm_wf (st_specs s')" "bm_wf (st_runs s')" "bm_wf (st_nodes s')" "bm_wf (st_budgets s')" "bm_wf (st_reservations s')"
    and runs: "\<And>r row. (r, row) \<in> set (st_runs s') \<Longrightarrow> (r, row) \<in> set (st_runs s) \<or> bm_contains (st_specs s') (ru_spec_hash row)"
    and nodes: "\<And>r n row. ((r, n), row) \<in> set (st_nodes s') \<Longrightarrow> node_ref s (r, n) \<or> run_ref s' r"
    and budgets: "\<And>r. bm_contains (st_budgets s') r \<longleftrightarrow> run_ref s' r"
    and res: "\<And>r n a v. ((r, n, a), v) \<in> set (st_reservations s') \<Longrightarrow> ((r, n, a), v) \<in> set (st_reservations s) \<or> node_ref s' (r, n)"
    and events: "\<And>e. e \<in> set (st_events s') \<Longrightarrow> e \<in> set (st_events s) \<or> run_ref s' (er_run_id e)"
  shows "core_wf s'"
proof -
  have node_run: "run_ref s r" if "node_ref s (r, n)" for r n
    using wf that by (force simp: core_wf_def list_all_iff bm_contains_keys bm_keys_def)
  show ?thesis
    using wf assms(5-9) budgets unfolding core_wf_def
    by (intro conjI)
      (auto simp: list_all_iff dest!: runs nodes res events intro: grow node_run)
qed


lemma keys_of_set: "(k, v) \<in> set m \<Longrightarrow> bm_contains m k"
  by (force simp: bm_contains_keys bm_keys_def)

lemma set_insertD: "(k', v') \<in> set (bm_insert k v m) \<Longrightarrow> (k', v') = (k, v) \<or> (k', v') \<in> set m"
  using set_bm_insert_subset [of k v m] by blast

lemma in_removeD: "x \<in> set (bm_remove k m) \<Longrightarrow> x \<in> set m"
  by (simp add: bm_remove_def)

lemma saved_fields:
  assumes "saved en run_id l s s'"
  shows "st_specs s' = st_specs s \<and> st_runs s' = st_runs s \<and> st_nodes s' = st_nodes s \<and> st_reservations s' = st_reservations s \<and>
    st_events s' = st_events s \<and> (bm_wf (st_budgets s) \<longrightarrow> bm_wf (st_budgets s')) \<and>
    (\<forall>r. bm_contains (st_budgets s') r = bm_contains (st_budgets s) r) \<and>
    (\<forall>r. r \<noteq> run_id \<longrightarrow> bm_get (st_budgets s') r = bm_get (st_budgets s) r) \<and>
    (side_wf s \<longrightarrow> side_wf s')"
  using assms by (auto simp: saved_def bm_wf_update table_simps get_update_row elim!: side_wf_mono [rotated -1])

lemma cleanup_fields:
  assumes "cleanup_run run_id s = (s', Ok u)"
  shows "run_ref s run_id \<and>
    s' = s\<lparr>st_active_runs := filter (\<lambda>(_, run, _). run \<noteq> run_id) (st_active_runs s),
          st_approvals := bm_remove run_id (st_approvals s),
          st_plans := bm_remove run_id (st_plans s),
          st_loops := delete_rows (\<lambda>(run, _). run = run_id) (st_loops s),
          st_retry_history := delete_rows (\<lambda>(run, _). run = run_id) (st_retry_history s),
          st_retry_schedules := delete_rows (\<lambda>(run, _). run = run_id) (st_retry_schedules s),
          st_reservations := delete_rows (\<lambda>(run, _). run = run_id) (st_reservations s),
          st_budgets := bm_remove run_id (st_budgets s),
          st_leases := delete_rows (\<lambda>(run, _). run = run_id) (st_leases s),
          st_nodes := delete_rows (\<lambda>(run, _). run = run_id) (st_nodes s),
          st_events := filter (\<lambda>e. er_run_id e \<noteq> run_id) (st_events s),
          st_usage := delete_rows (\<lambda>(run, _). run = run_id) (st_usage s),
          st_runs := bm_remove run_id (st_runs s)\<rparr>"
  using assms by (auto simp: cleanup_run_def in_run_def ensure_run_def split: if_splits)

lemma rows_filter_cong: "list_all P m \<Longrightarrow> (\<And>x. x \<in> set m \<Longrightarrow> q x \<Longrightarrow> P x \<Longrightarrow> Q x) \<Longrightarrow> list_all Q (filter q m)"
  by (auto simp: list_all_iff)

lemma cleanup_wf:
  assumes "cleanup_run run_id s = (s', Ok u)" and "store_wf s"
  shows "store_wf s'"
proof -
  have core: "core_wf s" and side: "side_wf s" using assms(2) by (simp_all add: store_wf_def)
  note s' = cleanup_fields [OF assms(1), THEN conjunct2]
  have run: "run_ref s' r \<longleftrightarrow> run_ref s r \<and> r \<noteq> run_id" for r
    by (auto simp: s' bmap_simps)
  have node: "node_ref s' k \<longleftrightarrow> node_ref s k \<and> fst k \<noteq> run_id" for k
    using core by (cases k) (simp add: s' core_wf_def contains_delete_rows)
  have budget: "bm_contains (st_budgets s') r \<longleftrightarrow> run_ref s r \<and> r \<noteq> run_id" for r
    using core by (auto simp: s' core_wf_def bmap_simps)
  have wf': "bm_wf (st_specs s')" "bm_wf (st_runs s')" "bm_wf (st_nodes s')" "bm_wf (st_budgets s')" "bm_wf (st_reservations s')"
    using core by (simp_all add: s' core_wf_def bm_wf_remove bm_wf_delete)
  have "core_wf s'"
    using core wf' unfolding core_wf_def budget run node
    by (intro conjI) (auto simp: s' bm_remove_def delete_rows_def list_all_iff run node)
  moreover have "side_wf s'"
    using side unfolding side_wf_def run node
    by (intro conjI) (auto simp: s' bm_wf_remove bm_wf_delete bm_wf_filter bm_remove_def delete_rows_def list_all_iff run node)
  ultimately show ?thesis by (simp add: store_wf_def)
qed


lemma created_wf:
  assumes c: "created en run_id spec now hash spec_json s s'" and "store_wf s"
  shows "store_wf s'"
proof -
  have core: "core_wf s" and side: "side_wf s" using assms(2) by (simp_all add: store_wf_def)
  from c obtain row e where row: "ru_spec_hash row = hash" "st_runs s' = bm_insert run_id row (st_runs s)"
    and e: "er_run_id e = run_id" "st_events s' = st_events s @ [e]"
    by (auto simp: created_def)
  have run: "run_ref s' r \<longleftrightarrow> r = run_id \<or> run_ref s r" for r
    by (simp add: row bmap_simps)
  have node: "node_ref s' k \<longleftrightarrow> fst k = run_id \<and> snd k \<in> ns_id ` set (sb_nodes (gs_spec spec)) \<or> node_ref s k" for k
  proof -
    have "bm_get (st_nodes s') k =
        (if fst k = run_id \<and> snd k \<in> ns_id ` set (sb_nodes (gs_spec spec)) then Some (new_node_row now)
         else bm_get (st_nodes s) k)"
      using c unfolding created_def by blast
    then show ?thesis by (auto simp: bm_contains_def)
  qed
  have "core_wf s'"
  proof (rule core_wf_grow [OF core])
    show "bm_contains (st_specs s') h" if "bm_contains (st_specs s) h" for h
      using c that by (auto simp: created_def bm_contains_def)
    show "(r, w) \<in> set (st_runs s) \<or> bm_contains (st_specs s') (ru_spec_hash w)" if "(r, w) \<in> set (st_runs s')" for r w
      using c that by (auto simp: created_def row dest!: set_insertD)
    show "node_ref s (r, n) \<or> run_ref s' r" if "((r, n), w) \<in> set (st_nodes s')" for r n w
      using keys_of_set [OF that] by (auto simp: node run)
    show "bm_contains (st_budgets s') r \<longleftrightarrow> run_ref s' r" for r
      using c core by (auto simp: created_def run core_wf_def bmap_simps)
  qed (use c core in \<open>auto simp: created_def core_wf_def run node row e bm_wf_insert bmap_simps\<close>)
  moreover have "side_wf s'"
    by (rule side_wf_mono [OF _ _ _ _ _ _ _ _ _ _ _ side]) (use c in \<open>auto simp: created_def run node\<close>)
  ultimately show ?thesis by (simp add: store_wf_def)
qed

lemma budget_write_wf:
  assumes "saved en run_id l s s1" and wf: "store_wf s"
    and "s' = s1\<lparr>st_reservations := rs, st_nodes := ns\<rparr>"
    and "bm_wf rs" "bm_wf ns" "\<And>k. bm_contains ns k \<longleftrightarrow> node_ref s k"
    and "\<And>r n a v. ((r, n, a), v) \<in> set rs \<Longrightarrow> ((r, n, a), v) \<in> set (st_reservations s) \<or> node_ref s (r, n)"
  shows "store_wf s'"
proof -
  note f = saved_fields [OF assms(1)]
  have core: "core_wf s" using wf by (simp add: store_wf_def)
  have fields: "st_specs s' = st_specs s" "st_runs s' = st_runs s" "st_events s' = st_events s"
      "st_reservations s' = rs" "st_nodes s' = ns" "st_budgets s' = st_budgets s1"
    using f assms(3) by simp_all
  have budgets: "bm_wf (st_budgets s1)" "bm_contains (st_budgets s1) r \<longleftrightarrow> run_ref s r" for r
    using f core by (simp_all add: core_wf_def)
  have "core_wf s'"
    by (rule core_wf_grow [OF core], unfold fields)
      (use core budgets assms(4-6) in \<open>auto simp: core_wf_def dest: keys_of_set assms(7)\<close>)
  moreover have "side_wf s1" using wf f by (simp add: store_wf_def)
  then have "side_wf s'"
    by (rule side_wf_mono [rotated -1]) (use f assms(3,6) in auto)
  ultimately show ?thesis by (simp add: store_wf_def)
qed

lemma get_contains: "bm_get m k = Some v \<Longrightarrow> bm_contains m k"
  by (simp add: bm_contains_def)

lemma existing_insert: "bm_get m k = Some v \<Longrightarrow> bm_contains (bm_insert k w m) k' \<longleftrightarrow> bm_contains m k'"
  by (auto simp: bmap_simps bm_contains_def)

lemma store_write_wf:
  assumes "store_write en fresh gone s s'" and wf: "store_wf s"
  shows "store_wf s'"
proof -
  have core: "core_wf s" and side: "side_wf s" using wf by (simp_all add: store_wf_def)
  have bm: "bm_wf (st_nodes s)" "bm_wf (st_reservations s)" using core by (simp_all add: core_wf_def)
  from assms(1) show ?thesis
  proof (cases rule: store_write.cases)
    case (w_log e)
    have "core_wf s'" by (rule core_wf_grow [OF core]) (use core w_log in \<open>auto simp: core_wf_def dest: keys_of_set\<close>)
    moreover have "side_wf s'" by (rule side_wf_mono [OF _ _ _ _ _ _ _ _ _ _ _ side]) (use w_log in auto)
    ultimately show ?thesis by (simp add: store_wf_def)
  next
    case (w_run run_id row row')
    have "bm_contains (st_specs s) (ru_spec_hash row)"
      using core w_run(2) by (auto simp: core_wf_def list_all_iff bm_get_Some_iff)
    then have "core_wf s'"
      using core w_run by (intro core_wf_grow [OF core])
        (auto simp: core_wf_def bm_wf_insert existing_insert dest!: set_insertD dest: keys_of_set)
    moreover have "side_wf s'"
      by (rule side_wf_mono [OF _ _ _ _ _ _ _ _ _ _ _ side]) (use w_run in \<open>auto simp: existing_insert\<close>)
    ultimately show ?thesis by (simp add: store_wf_def)
  next
    case (w_node k row row')
    have "core_wf s'"
      using core w_node get_contains [OF w_node(2)] by (intro core_wf_grow [OF core])
        (auto simp: core_wf_def bm_wf_insert existing_insert dest!: set_insertD dest: keys_of_set)
    moreover have "side_wf s'"
      by (rule side_wf_mono [OF _ _ _ _ _ _ _ _ _ _ _ side]) (use w_node in \<open>auto simp: existing_insert\<close>)
    ultimately show ?thesis by (simp add: store_wf_def)
  next
    case w_side
    then have "core_wf s'" using core by (simp add: core_wf_def same_core_def)
    with w_side side show ?thesis by (simp add: store_wf_def)
  next
    case (w_stop run_id l l')
    have "store_wf (s'\<lparr>st_reservations := st_reservations s, st_nodes := st_nodes s\<rparr>)"
      by (rule budget_write_wf [OF w_stop(4) wf refl bm(2,1)]) auto
    then show ?thesis using saved_fields [OF w_stop(4)] by (cases s') auto
  next
    case (w_reserve run_id l nid a estimate l' u row s1 v row')
    note f = saved_fields [OF w_reserve(6)]
    show ?thesis
      by (rule budget_write_wf [OF w_reserve(6) wf w_reserve(1)])
        (use f w_reserve(4) get_contains [OF w_reserve(4)] bm in
          \<open>auto simp: bm_wf_insert existing_insert dest!: set_insertD\<close>)
  next
    case (w_settle k l actual l' charged s1)
    note f = saved_fields [OF w_settle(4)]
    have "store_wf (s1\<lparr>st_reservations := bm_remove k (st_reservations s), st_nodes := st_nodes s\<rparr>)"
      by (rule budget_write_wf [OF w_settle(4) wf refl]) (use bm in \<open>auto simp: bm_wf_remove dest: in_removeD\<close>)
    then show ?thesis using f w_settle(1) by (cases s1) auto
  next
    case w_create
    then show ?thesis using created_wf [OF create_run_created wf] by blast
  next
    case w_cleanup
    then show ?thesis using cleanup_wf [OF _ wf] by blast
  qed
qed


section \<open>The durable budget\<close>

text \<open>
  What is relied on of the JSON text of a ledger: if it can be read, then what is read agrees with
  what was written in everything but the floating-point costs, which lose their last bit.
\<close>

definition same_integers :: "usage_accounting \<Rightarrow> usage_accounting \<Rightarrow> bool" where
  "same_integers u v \<longleftrightarrow> list_all (\<lambda>d. d v = d u) u64_dims"

definition same_state :: "budget_persistent_state \<Rightarrow> budget_persistent_state \<Rightarrow> bool" where
  "same_state v w \<longleftrightarrow>
     bps_stopped w = bps_stopped v \<and> same_integers (bps_charged v) (bps_charged w) \<and>
     list_all2 (\<lambda>(k, u) (k', u'). k' = k \<and> same_integers u u') (bps_reservations v) (bps_reservations w)"

definition reads_back :: "'j engine \<Rightarrow> bool" where
  "reads_back en \<longleftrightarrow>
     (\<forall>v j w. to_string (en_budget en) v = Ok j \<longrightarrow> from_str (en_budget en) j = Ok w \<longrightarrow> same_state v w)"

text \<open>
  The ledger that is loaded for a run has charged no more than its integer limits, and its open
  reservations are the rows of the reservation table.
\<close>

definition ledger_ok :: "'j store \<Rightarrow> string \<Rightarrow> budget_ledger \<Rightarrow> bool" where
  "ledger_ok s run_id l \<longleftrightarrow>
     within_u64 (bl_limits l) (bl_charged l) \<and>
     (\<forall>k. bm_contains (bl_reservations l) k \<longleftrightarrow> fst k = run_id \<and> bm_contains (st_reservations s) k)"

definition ledgers_ok :: "'j engine \<Rightarrow> 'j store \<Rightarrow> bool" where
  "ledgers_ok en s \<longleftrightarrow> (\<forall>run_id l. load_ledger en run_id s = Ok l \<longrightarrow> ledger_ok s run_id l)"

lemma within_u64_integers: "same_integers u v \<Longrightarrow> within_u64 limits v \<longleftrightarrow> within_u64 limits u"
proof -
  assume "same_integers u v"
  then have "d v = d u" if "(b, d, n) \<in> set (u64_limits limits)" for b d n
    using u64_limits_dims [OF that] by (simp add: same_integers_def list_all_iff)
  then have "is_none_or b (\<lambda>limit. d v \<le> limit) = is_none_or b (\<lambda>limit. d u \<le> limit)"
    if "(b, d, n) \<in> set (u64_limits limits)" for b d n using that by metis
  then show ?thesis unfolding within_u64_def by (intro list.pred_cong) (auto split: prod.splits)
qed

lemma load_cong:
  "spec_json_for_run s' r = spec_json_for_run s r \<Longrightarrow> bm_get (st_budgets s') r = bm_get (st_budgets s) r \<Longrightarrow>
   load_ledger en r s' = load_ledger en r s"
  by (simp add: load_ledger_def)

lemma load_ledger_Ok:
  "load_ledger en r s = Ok l \<longleftrightarrow>
   (\<exists>j spec j' t state. spec_json_for_run s r = Some j \<and> from_str (en_spec en) j = Ok spec \<and>
      bm_get (st_budgets s) r = Some (j', t) \<and> from_str (en_budget en) j' = Ok state \<and>
      l = from_persistent_state (sb_budgets (gs_spec spec)) state)"
  by (auto simp: load_ledger_def bind_r_eq_Ok)

lemma loaded_wf: "load_ledger en r s = Ok l \<Longrightarrow> bm_wf (bl_reservations l)"
  by (auto simp: load_ledger_Ok from_persistent_state_def bm_wf_of_list)

lemma from_same_state:
  assumes "same_state (persistent_state l) w" and "bm_wf (bl_reservations l)"
  shows "same_integers (bl_charged l) (bl_charged (from_persistent_state limits w))"
    and "bm_contains (bl_reservations (from_persistent_state limits w)) k \<longleftrightarrow> bm_contains (bl_reservations l) k"
proof -
  have keys: "map fst (bps_reservations w) = map fst (bl_reservations l)"
  proof -
    have "list_all2 (\<lambda>(k, u) (k', u'). k' = k \<and> same_integers u u') xs ys \<Longrightarrow> map fst ys = map fst xs" for xs ys
      by (induction rule: list_all2_induct) auto
    from this [of "bl_reservations l" "bps_reservations w"] show ?thesis
      using assms(1) by (simp add: same_state_def persistent_state_def)
  qed
  then have "bm_wf (bps_reservations w)" using assms(2) by (simp add: bm_wf_def)
  with keys show "bm_contains (bl_reservations (from_persistent_state limits w)) k \<longleftrightarrow> bm_contains (bl_reservations l) k"
    by (simp add: from_persistent_state_def bm_of_list_id bm_contains_keys bm_keys_def flip: set_map)
  show "same_integers (bl_charged l) (bl_charged (from_persistent_state limits w))"
    using assms(1) by (simp add: same_state_def persistent_state_def from_persistent_state_def)
qed

lemma reload_saved:
  assumes "reads_back en" and "load_ledger en r s = Ok l" and "saved en r l' s s'"
    and "load_ledger en r s' = Ok l2" and "bm_wf (bl_reservations l')"
  shows "bl_limits l2 = bl_limits l" and "same_integers (bl_charged l') (bl_charged l2)"
    and "bm_contains (bl_reservations l2) k \<longleftrightarrow> bm_contains (bl_reservations l') k"
proof -
  have json: "spec_json_for_run s' r = spec_json_for_run s r"
    using assms(3) by (auto simp: saved_def spec_json_for_run_def split: option.split)
  from assms(2,3) obtain j t spec where j: "to_string (en_budget en) (persistent_state l') = Ok j"
      "bm_get (st_budgets s') r = Some (j, t)"
    and spec: "from_str (en_spec en) (the (spec_json_for_run s r)) = Ok spec" "bl_limits l = sb_budgets (gs_spec spec)"
    by (auto simp: load_ledger_Ok saved_def get_update_row from_persistent_state_def)
  with assms(4) json obtain state where state: "from_str (en_budget en) j = Ok state"
    "l2 = from_persistent_state (bl_limits l) state"
    by (auto simp: load_ledger_Ok)
  with assms(1) j(1) have "same_state (persistent_state l') state" by (simp add: reads_back_def)
  from from_same_state [OF this assms(5)] state(2)
  show "bl_limits l2 = bl_limits l" "same_integers (bl_charged l') (bl_charged l2)"
    "bm_contains (bl_reservations l2) k \<longleftrightarrow> bm_contains (bl_reservations l') k"
    by (simp_all add: from_persistent_state_def)
qed


lemma spec_json_cong:
  "st_runs s' = st_runs s \<Longrightarrow> st_specs s' = st_specs s \<Longrightarrow> spec_json_for_run s' r = spec_json_for_run s r"
  by (simp add: spec_json_for_run_def split: option.split)

lemma ledgers_ok_cong:
  assumes "ledgers_ok en s" and "\<And>r. load_ledger en r s' = load_ledger en r s" and "st_reservations s' = st_reservations s"
  shows "ledgers_ok en s'"
  using assms by (simp add: ledgers_ok_def ledger_ok_def)

lemma ledgers_ok_change:
  assumes "reads_back en" and ok: "ledgers_ok en s" and "load_ledger en run_id s = Ok l"
    and sv: "saved en run_id l' s s1" and "bm_wf (bl_reservations l')" and "within_u64 (bl_limits l) (bl_charged l')"
    and "st_runs s' = st_runs s1" "st_specs s' = st_specs s1" "st_budgets s' = st_budgets s1"
    and others: "\<And>k. fst k \<noteq> run_id \<Longrightarrow> bm_contains (st_reservations s') k = bm_contains (st_reservations s) k"
    and keys: "\<And>k. bm_contains (bl_reservations l') k \<longleftrightarrow> fst k = run_id \<and> bm_contains (st_reservations s') k"
  shows "ledgers_ok en s'"
  unfolding ledgers_ok_def
proof (intro allI impI)
  fix r l2
  assume l2: "load_ledger en r s' = Ok l2"
  note f = saved_fields [OF sv]
  have same: "load_ledger en r s' = load_ledger en r s1"
    using assms(7-9) by (intro load_cong spec_json_cong) simp_all
  show "ledger_ok s' r l2"
  proof (cases "r = run_id")
    case True
    from reload_saved [OF assms(1,3) sv _ assms(5), of l2] l2 same True assms(6) keys show ?thesis
      by (simp add: ledger_ok_def within_u64_integers)
  next
    case False
    with f same have "load_ledger en r s' = load_ledger en r s"
      by (metis load_cong spec_json_cong)
    with l2 ok have "ledger_ok s r l2" by (simp add: ledgers_ok_def)
    with others False show ?thesis unfolding ledger_ok_def by metis
  qed
qed

lemma ledger_okD: "ledgers_ok en s \<Longrightarrow> load_ledger en r s = Ok l \<Longrightarrow> ledger_ok s r l"
  by (simp add: ledgers_ok_def)

lemma reserve_Ok:
  "reserve l k req = (l', Ok u) \<Longrightarrow>
   bl_charged l' = bl_charged l \<and> bl_reservations l' = bm_insert k req (bl_reservations l)"
  by (auto simp: reserve_def Let_def split: option.splits sum.splits)

lemma reconcile_Ok:
  assumes "reconcile l k actual = (l', Ok charged)"
  shows "bm_contains (bl_reservations l) k \<and> bl_reservations l' = bm_remove k (bl_reservations l) \<and>
    within_u64 (bl_limits l) (bl_charged l')"
  using assms
  by (auto simp: reconcile_def Let_def bm_contains_def dest: check_limits_Ok_u64 split: option.splits sum.splits)

lemma created_ledgers:
  assumes "reads_back en" and c: "created en run_id spec now hash spec_json s s'" and "store_wf s" and "ledgers_ok en s"
  shows "ledgers_ok en s'"
  unfolding ledgers_ok_def
proof (intro allI impI)
  fix r l
  assume l: "load_ledger en r s' = Ok l"
  have core: "core_wf s" using assms(3) by (simp add: store_wf_def)
  have res: "st_reservations s' = st_reservations s" using c by (simp add: created_def)
  show "ledger_ok s' r l"
  proof (cases "r = run_id")
    case True
    from c obtain j where j: "to_string (en_budget en) default_persistent_state = Ok j"
        "st_budgets s' = bm_insert run_id (j, now) (st_budgets s)"
      by (auto simp: created_def)
    with l True obtain state limits where state: "from_str (en_budget en) j = Ok state" "l = from_persistent_state limits state"
      by (auto simp: load_ledger_Ok bmap_simps)
    have "default_persistent_state = persistent_state (new_ledger limits)"
      by (simp add: default_persistent_state_def persistent_state_def new_ledger_def)
    with assms(1) j(1) state(1) have "same_state (persistent_state (new_ledger limits)) state"
      by (auto simp: reads_back_def)
    from from_same_state [OF this, of limits] state(2)
    have "same_integers default_usage (bl_charged l)" "\<not> bm_contains (bl_reservations l) k" for k
      by (simp_all add: new_ledger_def bm_contains_simps bm_contains_def bmap_simps)
    moreover have "\<not> bm_contains (st_reservations s) k" if "fst k = run_id" for k
    proof
      assume "bm_contains (st_reservations s) k"
      then obtain v where "(k, v) \<in> set (st_reservations s)" by (auto simp: bm_contains_keys bm_keys_def)
      with core that have "node_ref s (run_id, fst (snd k))"
        by (cases k) (auto simp: core_wf_def list_all_iff)
      with core have "run_ref s run_id" by (force simp: core_wf_def list_all_iff bm_contains_keys bm_keys_def)
      with c show False by (simp add: created_def)
    qed
    ultimately show ?thesis
      using True by (auto simp: ledger_ok_def res within_u64_integers within_u64_default)
  next
    case False
    have "spec_json_for_run s' r = spec_json_for_run s r"
    proof -
      from c obtain row where "st_runs s' = bm_insert run_id row (st_runs s)" by (auto simp: created_def)
      then have run: "bm_get (st_runs s') r = bm_get (st_runs s) r" using False by (simp add: bmap_simps)
      have "bm_get (st_specs s') (ru_spec_hash w) = bm_get (st_specs s) (ru_spec_hash w)"
        if "bm_get (st_runs s) r = Some w" for w
        using c core that by (auto simp: created_def core_wf_def list_all_iff bm_get_Some_iff)
      with run show ?thesis by (auto simp: spec_json_for_run_def split: option.split)
    qed
    moreover have "bm_get (st_budgets s') r = bm_get (st_budgets s) r"
      using c False by (auto simp: created_def bmap_simps)
    ultimately have "load_ledger en r s' = load_ledger en r s" by (rule load_cong)
    with l assms(4) show ?thesis by (simp add: ledgers_ok_def ledger_ok_def res)
  qed
qed


lemma cleanup_ledgers:
  assumes "cleanup_run run_id s = (s', Ok u)" and "store_wf s" and "ledgers_ok en s"
  shows "ledgers_ok en s'"
  unfolding ledgers_ok_def
proof (intro allI impI)
  fix r l
  assume l: "load_ledger en r s' = Ok l"
  note s' = cleanup_fields [OF assms(1), THEN conjunct2]
  have core: "core_wf s" using assms(2) by (simp add: store_wf_def)
  have r: "r \<noteq> run_id" using l by (auto simp: load_ledger_Ok s' bmap_simps)
  have "spec_json_for_run s' r = spec_json_for_run s r"
    using r by (simp add: spec_json_for_run_def s' bmap_simps split: option.split)
  moreover have "bm_get (st_budgets s') r = bm_get (st_budgets s) r"
    using r by (simp add: s' bmap_simps)
  ultimately have "load_ledger en r s' = load_ledger en r s" by (rule load_cong)
  with l assms(3) have "ledger_ok s r l" by (simp add: ledgers_ok_def)
  then show "ledger_ok s' r l"
    using core r by (auto simp: ledger_ok_def s' core_wf_def contains_delete_rows)
qed

lemma store_write_ledgers:
  assumes "store_write en fresh gone s s'" and "reads_back en" and wf: "store_wf s" and ok: "ledgers_ok en s"
  shows "ledgers_ok en s'"
  using assms(1)
proof (cases rule: store_write.cases)
  case (w_log e)
  then show ?thesis by (intro ledgers_ok_cong [OF ok] load_cong spec_json_cong) simp_all
next
  case (w_run run_id row row')
  then have "spec_json_for_run s' r = spec_json_for_run s r" for r
    by (simp add: spec_json_for_run_def bmap_simps split: option.split)
  with w_run show ?thesis by (intro ledgers_ok_cong [OF ok] load_cong) simp_all
next
  case (w_node k row row')
  then show ?thesis by (intro ledgers_ok_cong [OF ok] load_cong spec_json_cong) simp_all
next
  case w_side
  then show ?thesis by (intro ledgers_ok_cong [OF ok] load_cong spec_json_cong) (simp_all add: same_core_def)
next
  case (w_stop run_id l l')
  show ?thesis
    by (rule ledgers_ok_change [OF assms(2) ok w_stop(1,4)])
      (use ledger_okD [OF ok w_stop(1)] loaded_wf [OF w_stop(1)] w_stop(2,3) saved_fields [OF w_stop(4)] in
        \<open>auto simp: ledger_ok_def\<close>)
next
  case (w_reserve run_id l nid a estimate l' u row s1 v row')
  have l': "bl_charged l' = bl_charged l" "bl_reservations l' = bm_insert (run_id, nid, a) estimate (bl_reservations l)"
    using reserve_Ok [OF w_reserve(3)] by simp_all
  show ?thesis
    by (rule ledgers_ok_change [OF assms(2) ok w_reserve(2,6)])
      (use ledger_okD [OF ok w_reserve(2)] loaded_wf [OF w_reserve(2)] l' saved_fields [OF w_reserve(6)] in
        \<open>auto simp: ledger_ok_def w_reserve(1) bm_wf_insert bmap_simps\<close>)
next
  case (w_settle k l actual l' charged s1)
  note r = reconcile_Ok [OF w_settle(3)]
  show ?thesis
    by (rule ledgers_ok_change [OF assms(2) ok w_settle(2,4)])
      (use ledger_okD [OF ok w_settle(2)] loaded_wf [OF w_settle(2)] r saved_fields [OF w_settle(4)] in
        \<open>auto simp: ledger_ok_def w_settle(1) bm_wf_remove bmap_simps\<close>)
next
  case w_create
  then show ?thesis using created_ledgers [OF assms(2) create_run_created wf ok] by blast
next
  case w_cleanup
  then show ?thesis using cleanup_ledgers [OF _ wf ok] by blast
qed

section \<open>Attempts\<close>

text \<open>No open reservation is ahead of its node.\<close>

definition reservations_behind :: "'j store \<Rightarrow> bool" where
  "reservations_behind s \<longleftrightarrow>
     (\<forall>run_id nid a row. bm_contains (st_reservations s) (run_id, nid, a) \<longrightarrow>
        bm_get (st_nodes s) (run_id, nid) = Some row \<longrightarrow> a \<le> nr_attempt row)"


lemma node_run: "store_wf s \<Longrightarrow> node_ref s (r, n) \<Longrightarrow> run_ref s r"
  by (force simp: store_wf_def core_wf_def list_all_iff bm_contains_keys bm_keys_def)

text \<open>
  As long as a run is not cleaned up, the attempt of a node never falls, and an attempt that has no
  open reservation gets none again.
\<close>

definition moved_on :: "string \<times> node_id \<Rightarrow> 'j store \<Rightarrow> 'j store \<Rightarrow> bool" where
  "moved_on k s s' \<longleftrightarrow>
     (\<forall>row. bm_get (st_nodes s) k = Some row \<longrightarrow>
        (\<exists>row'. bm_get (st_nodes s') k = Some row' \<and> nr_attempt row \<le> nr_attempt row' \<and>
           (\<forall>a \<le> nr_attempt row. \<not> bm_contains (st_reservations s) (fst k, snd k, a) \<longrightarrow>
              \<not> bm_contains (st_reservations s') (fst k, snd k, a))))"

lemma moved_on_refl: "moved_on k s s"
  by (simp add: moved_on_def)

lemma moved_on_trans: "moved_on k s s' \<Longrightarrow> moved_on k s' s'' \<Longrightarrow> moved_on k s s''"
  unfolding moved_on_def by (meson order_trans)

lemma moved_on_same:
  "st_nodes s' = st_nodes s \<Longrightarrow> st_reservations s' = st_reservations s \<Longrightarrow> moved_on k s s'"
  by (simp add: moved_on_def)

lemma store_write_moves:
  assumes "store_write en (<) gone s s'" and wf: "store_wf s" and "\<not> gone r"
  shows "moved_on (r, n) s s'"
  using assms(1)
proof (cases rule: store_write.cases)
  case (w_node k row row')
  then show ?thesis by (auto simp: moved_on_def bmap_simps)
next
  case (w_stop run_id l l')
  then show ?thesis using saved_fields [OF w_stop(4)] by (intro moved_on_same) simp_all
next
  case (w_reserve run_id l nid a estimate l' u row s1 v row')
  then show ?thesis using saved_fields [OF w_reserve(6)] by (auto simp: moved_on_def bmap_simps)
next
  case (w_settle k l actual l' charged s1)
  then show ?thesis using saved_fields [OF w_settle(4)] by (auto simp: moved_on_def bmap_simps)
next
  case (w_create run_id spec session_id repo_root now hash spec_json u)
  note c = create_run_created [OF w_create]
  have new: "\<not> run_ref s run_id" and res: "st_reservations s' = st_reservations s"
    and nodes: "bm_get (st_nodes s') (r, n) =
        (if r = run_id \<and> n \<in> ns_id ` set (sb_nodes (gs_spec spec)) then Some (new_node_row now)
         else bm_get (st_nodes s) (r, n))"
    using c unfolding created_def by auto
  show ?thesis
  proof (cases "bm_get (st_nodes s) (r, n)")
    case (Some row)
    then have "r \<noteq> run_id" using node_run [OF wf, of r n] new by (auto simp: bm_contains_def)
    with nodes res show ?thesis by (simp add: moved_on_def)
  qed (simp add: moved_on_def)
next
  case (w_cleanup run_id u)
  note s' = cleanup_fields [OF w_cleanup(2), THEN conjunct2]
  have "bm_wf (st_nodes s)" "bm_wf (st_reservations s)" using wf by (simp_all add: store_wf_def core_wf_def)
  moreover have "run_id \<noteq> r" using w_cleanup(1) assms(3) by auto
  ultimately show ?thesis by (auto simp: moved_on_def s' get_delete_rows contains_delete_rows)
qed (simp_all add: moved_on_same same_core_def)

section \<open>Operations are made of writes\<close>

lemma update_run_writes:
  assumes "\<And>row. ru_spec_hash (f row) = ru_spec_hash row"
  shows "store_writes en fresh gone s (update_run run_id f s)"
proof (cases rule: update_row_cases [of run_id "\<lambda>_. True" f "st_runs s"])
  case (2 row)
  then show ?thesis using w_run [OF 2(1), of "f row"] assms by (simp add: update_run_def r_into_rtranclp)
qed (simp add: update_run_def)

lemma update_node_writes:
  assumes "\<And>row. bm_get (st_nodes s) (run_id, nid) = Some row \<Longrightarrow>
    nr_attempt (f row) = nr_attempt row \<or> fresh (nr_attempt row) (nr_attempt (f row))"
  shows "store_writes en fresh gone s (update_node run_id nid p f s)"
proof (cases rule: update_row_cases [of "(run_id, nid)" p f "st_nodes s"])
  case (2 row)
  then show ?thesis using w_node [OF 2(1), of "f row"] assms [OF 2(1)] by (simp add: update_node_def r_into_rtranclp)
qed (simp add: update_node_def)

lemma side_write:
  "same_core s s' \<Longrightarrow> (side_wf s \<Longrightarrow> side_wf s') \<Longrightarrow> store_writes en fresh gone s s'"
  by (rule r_into_rtranclp, rule w_side)

lemma insert_event_writes:
  assumes "insert_event_tx en run_id event now s = Ok s'" and "en_foreign_keys en"
  shows "store_writes en fresh gone s s'" and "run_ref s run_id"
  using insert_event_Ok [OF assms(1)] assms(2) by (auto intro!: r_into_rtranclp w_log)

lemma leases_write:
  assumes "bm_wf (st_leases s) \<Longrightarrow> bm_wf ls" and "set ls \<subseteq> set (st_leases s)"
  shows "store_writes en fresh gone s (s\<lparr>st_leases := ls\<rparr>)"
  using assms by (intro side_write) (auto simp: same_core_def side_wf_def list_all_iff)

lemma lease_insert_write:
  assumes "run_ref s r"
  shows "store_writes en fresh gone s (s\<lparr>st_leases := bm_insert (r, n) v (st_leases s)\<rparr>)"
  using assms by (intro side_write) (auto simp: same_core_def side_wf_def bm_wf_insert intro!: rows_insert)

lemma usage_writes:
  assumes "insert_usage en k usage at_ms s = Ok s'" and "run_ref s (fst k)"
  shows "store_writes en fresh gone s s'"
  using assms
  by (intro side_write)
    (auto simp: insert_usage_def bind_r_eq_Ok same_core_def side_wf_def bm_wf_insert split_beta intro!: rows_insert)

lemma save_ledger_saved: "save_ledger en run_id l at_ms s = Ok s' \<Longrightarrow> saved en run_id l s s'"
  by (auto simp: save_ledger_def bind_r_eq_Ok saved_def)

lemma loaded_run: "load_ledger en r s = Ok l \<Longrightarrow> run_ref s r"
  by (auto simp: load_ledger_Ok spec_json_for_run_def bm_contains_def split: option.splits)

lemma settle_OkE:
  assumes "settle_reservation en k actual at_ms s = Ok s'"
  obtains l l' charged s1 where "load_ledger en (fst k) s = Ok l" "reconcile l k actual = (l', Ok charged)"
    "save_ledger en (fst k) l' at_ms s = Ok s1"
    "insert_usage en k charged at_ms (s1\<lparr>st_reservations := bm_remove k (st_reservations s1)\<rparr>) = Ok s'"
proof -
  from assms obtain l where l: "load_ledger en (fst k) s = Ok l"
    by (auto simp: settle_reservation_def bind_r_eq_Ok)
  obtain l' res where r: "reconcile l k actual = (l', res)" by (cases "reconcile l k actual")
  show thesis
  proof (cases res)
    case (Inl e)
    with assms l r show thesis by (simp add: settle_reservation_def)
  next
    case (Inr charged)
    with assms l r that show thesis by (auto simp: settle_reservation_def bind_r_eq_Ok)
  qed
qed

lemma settle_writes:
  assumes "settle_reservation en k actual at_ms s = Ok s'"
  shows "store_writes en fresh gone s s'"
  using assms
proof (rule settle_OkE)
  fix l l' charged s1
  assume l: "load_ledger en (fst k) s = Ok l" "reconcile l k actual = (l', Ok charged)"
      "save_ledger en (fst k) l' at_ms s = Ok s1"
      "insert_usage en k charged at_ms (s1\<lparr>st_reservations := bm_remove k (st_reservations s1)\<rparr>) = Ok s'"
  note sv = save_ledger_saved [OF l(3)]
  have "run_ref (s1\<lparr>st_reservations := bm_remove k (st_reservations s1)\<rparr>) (fst k)"
    using loaded_run [OF l(1)] saved_fields [OF sv] by simp
  from usage_writes [OF l(4) this] w_settle [OF l(1,2) sv] show ?thesis
    by (meson converse_rtranclp_into_rtranclp)
qed


text \<open>The events that may be appended directly: \<open>leases\<close> says what is known of a granted lease.\<close>

fun lease_fits :: "(u32 \<Rightarrow> u32 \<Rightarrow> bool) \<Rightarrow> 'j store \<Rightarrow> string \<Rightarrow> graph_event \<Rightarrow> bool" where
  "lease_fits fresh s run_id (GE_NodeLeased nid a owner t) =
     is_none_or (bm_get (st_nodes s) (run_id, nid)) (\<lambda>row. fresh (nr_attempt row) a)"
| "lease_fits fresh s run_id e = True"

lemma end_lease_attempt [simp]: "nr_attempt (end_lease status now r) = nr_attempt r"
  by (simp add: end_lease_def)

lemma delete_row_subset: "set (delete_row k p m) \<subseteq> set m"
  by (auto simp: delete_row_def bm_remove_def)

lemma remove_subset: "set (bm_remove k m) \<subseteq> set m"
  by (auto simp: bm_remove_def)

lemmas update_simps = update_node_def update_run_def set_run_status_def

lemma update_node_refs [simp]: "st_runs (update_node r n p f s) = st_runs s" "st_leases (update_node r n p f s) = st_leases s"
  by (simp_all add: update_node_def)

lemma lease_fits_cong: "st_nodes s' = st_nodes s \<Longrightarrow> lease_fits fresh s' run_id e = lease_fits fresh s run_id e"
  by (cases e) simp_all

lemma end_lease_writes:
  assumes "\<And>row. nr_attempt (f row) = nr_attempt row"
    and "bm_wf (st_leases s) \<Longrightarrow> bm_wf ls" and "set ls \<subseteq> set (st_leases s)"
  shows "store_writes en fresh gone s ((update_node r n p f s)\<lparr>st_leases := ls\<rparr>)"
  by (rule rtranclp_trans [OF update_node_writes leases_write]) (simp_all add: assms)

lemma apply_event_writes:
  assumes "apply_event_tx en run_id event now s = Ok s'" and "run_ref s run_id" and "lease_fits fresh s run_id event"
  shows "store_writes en fresh gone s s'"
proof -
  have node: "store_writes en fresh gone s (update_node run_id nid p f s)"
    if "\<And>row. nr_attempt (f row) = nr_attempt row" for nid p f
    by (rule update_node_writes) (simp add: that)
  have status: "store_writes en fresh gone s (set_run_status run_id status now s)" for status
    unfolding set_run_status_def by (rule update_run_writes) simp
  from assms show ?thesis
  proof (cases event)
    case (GE_NodeLeased nid a owner t)
    let ?s1 = "update_node run_id nid (\<lambda>_. True)
      (\<lambda>r. r\<lparr>nr_status := NS_Leased, nr_attempt := a, nr_lease_owner := Some owner,
             nr_lease_expires_at_ms := Some t, nr_updated_at_ms := now\<rparr>) s"
    have "store_writes en fresh gone s ?s1"
      by (rule update_node_writes) (use assms(3) GE_NodeLeased in simp)
    moreover have "store_writes en fresh gone ?s1 s'"
      using assms(1,2) GE_NodeLeased by (auto simp: Let_def intro!: lease_insert_write simp flip: update_node_refs(2))
    ultimately show ?thesis by simp
  next
    case (GE_NodeOutputAccepted nid a status)
    then show ?thesis
      using assms(1) by (auto simp: Let_def intro!: end_lease_writes bm_wf_remove remove_subset)
  next
    case (GE_LeaseExpired nid a)
    let ?s1 = "update_node run_id nid (\<lambda>r. nr_attempt r = a) (end_lease NS_Stale now) s"
    let ?s2 = "?s1\<lparr>st_leases := delete_row (run_id, nid) (\<lambda>l. lr_attempt l = a) (st_leases ?s1)\<rparr>"
    have "store_writes en fresh gone s ?s2"
      by (rule end_lease_writes) (simp_all add: bm_wf_delete delete_row_subset)
    moreover have "store_writes en fresh gone ?s2 s'"
      using assms(1) GE_LeaseExpired
      by (auto simp: Let_def reconcile_budget_tx_def intro: settle_writes split: if_splits)
    ultimately show ?thesis by simp
  next
    case (GE_RetryScheduled schedule)
    then show ?thesis
      using assms(1) by (auto simp: Let_def intro!: end_lease_writes bm_wf_remove remove_subset)
  next
    case (GE_RunRecovered owner)
    then show ?thesis using assms(1) by (auto intro!: update_run_writes)
  qed (auto intro: node status)
qed

lemma record_event_writes:
  assumes "record_event en run_id event now s = Ok s'" and "en_foreign_keys en" and "lease_fits fresh s run_id event"
  shows "store_writes en fresh gone s s'"
proof -
  from assms(1) obtain s1 where s1: "insert_event_tx en run_id event now s = Ok s1"
      "apply_event_tx en run_id event now s1 = Ok s'"
    by (auto simp: record_event_def bind_r_eq_Ok)
  from insert_event_Ok [OF s1(1)] assms(2) have "run_ref s1 run_id" "st_nodes s1 = st_nodes s" by auto
  with assms(3) lease_fits_cong [of s1 s] have "run_ref s1 run_id" "lease_fits fresh s1 run_id event" by auto
  then show ?thesis
    by (rule rtranclp_trans [OF insert_event_writes(1) [OF s1(1) assms(2)] apply_event_writes [OF s1(2)]])
qed


section \<open>The public operations\<close>

text \<open>
  One operation of the store, whatever its outcome. Events are appended directly by the runtime and the
  commands, never to grant a lease; \<open>fresh\<close> restricts the attempt numbers that leases hand out (the
  code adds one, \<open>lease_node\<close> with wrap-around and \<open>reserve_and_lease_node\<close> with saturation).
\<close>

inductive store_op ::
  "'j engine \<Rightarrow> (u32 \<Rightarrow> u32 \<Rightarrow> bool) \<Rightarrow> (string \<Rightarrow> bool) \<Rightarrow> 'j store \<Rightarrow> 'j store \<Rightarrow> bool"
  for en fresh gone where
  op_create: "store_op en fresh gone s (fst (create_run_with_id en run_id spec session_id repo_root now s))"
| op_event: "(\<And>nid a owner t. event \<noteq> GE_NodeLeased nid a owner t) \<Longrightarrow>
    store_op en fresh gone s (fst (append_event en run_id event now s))"
| op_attach: "store_op en fresh gone s (fst (attach_active_run session_id repo_root run_id now s))"
| op_lease: "(\<And>row. bm_get (st_nodes s) (run_id, nid) = Some row \<Longrightarrow> fresh (nr_attempt row) (nr_attempt row + 1)) \<Longrightarrow>
    store_op en fresh gone s (fst (lease_node en run_id nid owner ttl_ms now s))"
| op_reserve: "(\<And>row. bm_get (st_nodes s) (run_id, nid) = Some row \<Longrightarrow>
      fresh (nr_attempt row) (sat_add (nr_attempt row) 1)) \<Longrightarrow>
    store_op en fresh gone s (fst (reserve_and_lease_node en run_id nid owner ttl_ms estimate at_ms s))"
| op_accept_reconcile: "store_op en fresh gone s
    (fst (accept_output_and_reconcile en run_id nid attempt output actual_usage at_ms s))"
| op_accept: "store_op en fresh gone s (fst (accept_output en run_id nid attempt output now s))"
| op_usage: "store_op en fresh gone s (fst (record_usage en run_id nid attempt usage now s))"
| op_expire: "store_op en fresh gone s (fst (expire_leases en clock now s))"
| op_loop: "store_op en fresh gone s (fst (save_loop_state en run_id nid state at_ms s))"
| op_plan: "store_op en fresh gone s (fst (save_compensation_plan en run_id plan at_ms s))"
| op_schedule: "store_op en fresh gone s (fst (schedule_retry en schedule now s))"
| op_activate: "store_op en fresh gone s (fst (activate_due_retries_matching en only at_ms s))"
| op_acquire: "store_op en fresh gone s (fst (try_acquire_coordinator scope owner at_ms ttl_ms s))"
| op_heartbeat: "store_op en fresh gone s (fst (heartbeat_coordinator scope owner at_ms ttl_ms s))"
| op_approve: "store_op en fresh gone s (fst (save_execution_approval en run_id approval now s))"
| op_cleanup: "gone run_id \<Longrightarrow> store_op en fresh gone s (fst (cleanup_run run_id s))"

lemma transaction_writes:
  assumes "\<And>s' v. body s = Ok (s', v) \<Longrightarrow> store_writes en fresh gone s s'"
  shows "store_writes en fresh gone s (fst (transaction body s))"
  using assms by (auto simp: transaction_def split: sum.split prod.split)

lemma in_run_writes:
  assumes "run_ref s run_id \<Longrightarrow> store_writes en fresh gone s (fst (f s))"
  shows "store_writes en fresh gone s (fst (in_run run_id f s))"
  using assms by (simp add: in_run_def ensure_run_def)

lemma with_unit_Ok [simp]: "with_unit r = Ok x \<longleftrightarrow> r = Ok (fst x)"
  by (cases x) (auto simp: with_unit_def bind_r_eq_Ok)

lemma append_event_writes:
  assumes "en_foreign_keys en" and "lease_fits fresh s run_id event"
  shows "store_writes en fresh gone s (fst (append_event en run_id event now s))"
  unfolding append_event_def
  by (intro in_run_writes transaction_writes) (auto intro: record_event_writes [OF _ assms])

lemma expire_each_writes:
  assumes "en_foreign_keys en"
  shows "store_writes en fresh gone s (fst (expire_each en clock ks s))"
proof (induction ks arbitrary: s)
  case (Cons k ks)
  obtain r n a where k: "k = (r, n, a)" by (cases k)
  obtain s1 res where s1: "append_event en r (GE_LeaseExpired n a) (clock s) s = (s1, res)"
    by (cases "append_event en r (GE_LeaseExpired n a) (clock s) s")
  then have "store_writes en fresh gone s s1"
    using append_event_writes [OF assms, of fresh s r "GE_LeaseExpired n a" gone "clock s"] by simp
  with Cons.IH [of s1] k s1 show ?case by (auto split: sum.split)
qed simp


lemma load_ledger_spec_independent [simp]:
  "load_ledger en r (s\<lparr>st_events := es\<rparr>) = load_ledger en r s"
  by (intro load_cong spec_json_cong) simp_all

lemma stop_run_budget_writes:
  assumes "stop_run_budget en run_id l error at_ms s = Ok (s', v)" and "load_ledger en run_id s = Ok l0"
    and "bl_charged l = bl_charged l0" "bl_reservations l = bl_reservations l0" and fk: "en_foreign_keys en"
  shows "store_writes en fresh gone s s'"
proof -
  from assms(1) obtain s1 where s1: "save_ledger en run_id (l\<lparr>bl_stopped := Some (Reason_Error error)\<rparr>) at_ms s = Ok s1"
      "record_event en run_id (GE_RunStatusChanged RS_BudgetStopped) at_ms s1 = Ok s'"
    by (auto simp: stop_run_budget_def bind_r_eq_Ok Let_def)
  have "store_write en fresh gone s s1"
    by (rule w_stop [OF assms(2) _ _ save_ledger_saved [OF s1(1)]]) (simp_all add: assms(3,4))
  moreover have "store_writes en fresh gone s1 s'" by (rule record_event_writes [OF s1(2) fk]) simp
  ultimately show ?thesis by (rule converse_rtranclp_into_rtranclp)
qed

lemma grant_lease_writes:
  assumes "grant_lease en (run_id, nid, a) owner ttl_ms estimate l at_ms s = Ok (s', v)"
    and l0: "load_ledger en run_id s = Ok l0" "reserve l0 (run_id, nid, a) estimate = (l, Ok u)"
    and row: "bm_get (st_nodes s) (run_id, nid) = Some row" "fresh (nr_attempt row) a"
    and fk: "en_foreign_keys en"
  shows "store_writes en fresh gone s s'"
proof -
  let ?expires = "i64_sat_add at_ms (max ttl_ms 1)"
  from assms(1) obtain s1 j s2 where s1: "save_ledger en run_id l at_ms s = Ok s1"
      "\<not> bm_contains (st_reservations s1) (run_id, nid, a)"
    and s2: "s2 = s1\<lparr>st_reservations := bm_insert (run_id, nid, a) (j, at_ms) (st_reservations s1)\<rparr>"
      "record_event en run_id (GE_NodeLeased nid a owner ?expires) at_ms s2 = Ok s'"
    by (auto simp: grant_lease_def bind_r_eq_Ok Let_def)
  note sv = save_ledger_saved [OF s1(1)] and f = saved_fields [OF save_ledger_saved [OF s1(1)]]
  from s2(2) obtain s3 where "insert_event_tx en run_id (GE_NodeLeased nid a owner ?expires) at_ms s2 = Ok s3"
    and s3: "apply_event_tx en run_id (GE_NodeLeased nid a owner ?expires) at_ms s3 = Ok s'"
    by (auto simp: record_event_def bind_r_eq_Ok)
  from insert_event_Ok [OF this(1)] fk obtain e where e: "er_run_id e = run_id" "run_ref s2 run_id"
      "s3 = s2\<lparr>st_events := st_events s2 @ [e]\<rparr>"
    by auto
  let ?row = "row\<lparr>nr_status := NS_Leased, nr_lease_owner := Some owner, nr_lease_expires_at_ms := Some ?expires,
      nr_updated_at_ms := at_ms\<rparr>"
  let ?t = "s1\<lparr>st_reservations := bm_insert (run_id, nid, a) (j, at_ms) (st_reservations s1),
      st_nodes := bm_insert (run_id, nid) (?row\<lparr>nr_attempt := a\<rparr>) (st_nodes s1)\<rparr>"
  let ?t2 = "?t\<lparr>st_events := st_events ?t @ [e]\<rparr>"
  have row1: "bm_get (st_nodes s1) (run_id, nid) = Some row" using row(1) f by simp
  have "store_write en fresh gone s ?t"
    by (rule w_reserve [where fresh = fresh, OF l0 row sv]) (use s1(2) f in simp)
  moreover have "store_write en fresh gone ?t ?t2"
    by (rule w_log) (use e s2(1) in simp)
  moreover have "s' = ?t2\<lparr>st_leases := bm_insert (run_id, nid)
      \<lparr>lr_owner = owner, lr_attempt = a, lr_expires_at_ms = ?expires\<rparr> (st_leases ?t2)\<rparr>"
    using s3 row1 by (cases s1; cases row) (simp add: e(3) s2(1) update_node_def update_row_def Let_def)
  then have "store_writes en fresh gone ?t2 s'"
    using lease_insert_write [of ?t2 run_id en fresh gone nid] e(2) s2(1) by simp
  ultimately show ?thesis by (meson converse_rtranclp_into_rtranclp)
qed

lemma reserve_and_lease_writes:
  assumes "reserve_and_lease_tx en run_id nid owner ttl_ms estimate at_ms s = Ok (s', v)" and fk: "en_foreign_keys en"
    and fits: "\<And>row. bm_get (st_nodes s) (run_id, nid) = Some row \<Longrightarrow> fresh (nr_attempt row) (sat_add (nr_attempt row) 1)"
  shows "store_writes en fresh gone s s'"
proof -
  from assms(1) obtain row where row: "bm_get (st_nodes s) (run_id, nid) = Some row"
    by (auto simp: reserve_and_lease_tx_def split: option.splits)
  show ?thesis
  proof (cases "may_lease (nr_status row)")
    case False
    with assms(1) row show ?thesis by (simp add: reserve_and_lease_tx_def)
  next
    case True
    let ?k = "(run_id, nid, sat_add (nr_attempt row) 1)"
    from assms(1) row True obtain l0 where l0: "load_ledger en run_id s = Ok l0"
      by (auto simp: reserve_and_lease_tx_def bind_r_eq_Ok)
    obtain l res where r: "reserve l0 ?k estimate = (l, res)" by (cases "reserve l0 ?k estimate")
    show ?thesis
    proof (cases res)
      case (Inl e)
      then have "l = l0" using reserve_Err [of l0 ?k estimate e] r by simp
      moreover have "stop_run_budget en run_id l e at_ms s = Ok (s', v)"
        using assms(1) row True l0 r Inl reserve_error [of l0 ?k estimate e]
        by (auto simp: reserve_and_lease_tx_def Let_def)
      ultimately show ?thesis using stop_run_budget_writes [OF _ l0 _ _ fk] by blast
    next
      case (Inr u)
      then have "grant_lease en ?k owner ttl_ms estimate l at_ms s = Ok (s', v)"
        using assms(1) row True l0 r by (simp add: reserve_and_lease_tx_def Let_def)
      from grant_lease_writes [where fresh = fresh, OF this l0 _ row fits [OF row] fk] r Inr show ?thesis by simp
    qed
  qed
qed

lemma accept_and_reconcile_writes:
  assumes "accept_and_reconcile_tx en run_id nid attempt output actual_usage at_ms s = Ok (s', v)"
    and fk: "en_foreign_keys en"
  shows "store_writes en fresh gone s s'"
proof (cases "s' = s")
  case False
  let ?event = "GE_NodeOutputAccepted nid attempt (no_status output)"
  from assms(1) False obtain s1 s2 j where s: "settle_reservation en (run_id, nid, attempt) actual_usage at_ms s = Ok s1"
      "insert_event_tx en run_id ?event at_ms s1 = Ok s2"
    and s': "s' = (update_node run_id nid (\<lambda>r. nr_attempt r = attempt)
         (\<lambda>r. end_lease (no_status output) at_ms (r\<lparr>nr_output_json := Some j\<rparr>)) s2)
         \<lparr>st_leases := delete_row (run_id, nid) (\<lambda>l. lr_attempt l = attempt) (st_leases s2)\<rparr>"
    by (auto simp: accept_and_reconcile_tx_def bind_r_eq_Ok Let_def split: option.splits if_splits)
  have "store_writes en fresh gone s2 s'"
    unfolding s' by (rule end_lease_writes) (simp_all add: bm_wf_delete delete_row_subset)
  with settle_writes [OF s(1)] insert_event_writes(1) [OF s(2) fk] show ?thesis
    by (meson rtranclp_trans)
qed simp


lemma save_loop_writes:
  assumes "en_foreign_keys en"
  shows "store_writes en fresh gone s (fst (save_loop_state en run_id nid state at_ms s))"
  unfolding save_loop_state_def
proof (intro in_run_writes transaction_writes)
  fix s' v
  assume "bind_r (json (to_string (en_loop en) state)) (\<lambda>text.
       bind_r (references en (st_nodes s) (run_id, nid)) (\<lambda>_.
       with_unit (record_event en run_id (GE_LoopStateUpdated nid (lo_iteration state) (lo_status state)) at_ms
         (s\<lparr>st_loops := bm_insert (run_id, nid) (text, at_ms) (st_loops s)\<rparr>)))) = Ok (s', v)"
  then obtain j where "node_ref s (run_id, nid)"
    and ev: "record_event en run_id (GE_LoopStateUpdated nid (lo_iteration state) (lo_status state)) at_ms
         (s\<lparr>st_loops := bm_insert (run_id, nid) (j, at_ms) (st_loops s)\<rparr>) = Ok s'"
    using assms by (auto simp: bind_r_eq_Ok)
  then have "store_writes en fresh gone s (s\<lparr>st_loops := bm_insert (run_id, nid) (j, at_ms) (st_loops s)\<rparr>)"
    by (intro side_write) (auto simp: same_core_def side_wf_def bm_wf_insert intro!: rows_insert)
  also have "store_writes en fresh gone \<dots> s'" by (rule record_event_writes [OF ev assms]) simp
  finally show "store_writes en fresh gone s s'" .
qed

lemma save_plan_writes:
  assumes "en_foreign_keys en"
  shows "store_writes en fresh gone s (fst (save_compensation_plan en run_id plan at_ms s))"
  unfolding save_compensation_plan_def
proof (intro in_run_writes transaction_writes)
  fix s' v
  assume "run_ref s run_id" and "bind_r (json (to_string (en_plan en) plan)) (\<lambda>text.
       with_unit (record_event en run_id (GE_CompensationUpdated (cpl_status plan) (cpl_cursor plan)) at_ms
         (s\<lparr>st_plans := bm_insert run_id (text, at_ms) (st_plans s)\<rparr>))) = Ok (s', v)"
  then obtain j where "run_ref s run_id"
    and ev: "record_event en run_id (GE_CompensationUpdated (cpl_status plan) (cpl_cursor plan)) at_ms
         (s\<lparr>st_plans := bm_insert run_id (j, at_ms) (st_plans s)\<rparr>) = Ok s'"
    by (auto simp: bind_r_eq_Ok)
  then have "store_writes en fresh gone s (s\<lparr>st_plans := bm_insert run_id (j, at_ms) (st_plans s)\<rparr>)"
    by (intro side_write) (auto simp: same_core_def side_wf_def bm_wf_insert intro!: rows_insert)
  also have "store_writes en fresh gone \<dots> s'" by (rule record_event_writes [OF ev assms]) simp
  finally show "store_writes en fresh gone s s'" .
qed

lemma retry_tables_write:
  assumes "node_ref s (rsch_run_id schedule, rsch_node_id schedule)"
    and "s1 = s\<lparr>st_retry_schedules := bm_insert (rsch_run_id schedule, rsch_node_id schedule) (schedule, now) (st_retry_schedules s)\<rparr>"
  shows "store_writes en fresh gone s
    (insert_history (rsch_run_id schedule, rsch_node_id schedule, rsch_prior_attempt schedule) row s1)"
  using assms
  by (intro side_write)
    (auto simp: insert_history_def same_core_def side_wf_def bm_wf_insert intro!: rows_insert)

lemma schedule_retry_writes:
  assumes "en_foreign_keys en"
  shows "store_writes en fresh gone s (fst (schedule_retry en schedule now s))"
proof -
  let ?k = "(rsch_run_id schedule, rsch_node_id schedule)"
  let ?s1 = "s\<lparr>st_retry_schedules := bm_insert ?k (schedule, now) (st_retry_schedules s)\<rparr>"
  let ?s2 = "\<lambda>j. insert_history (rsch_run_id schedule, rsch_node_id schedule, rsch_prior_attempt schedule)
      \<lparr>hr_schedule_json = j, hr_chosen_delay_ms = rsch_chosen_delay_ms schedule, hr_created_at_ms = now\<rparr> ?s1"
  have "store_writes en fresh gone s s'"
    if ref: "node_ref s ?k" and ev: "record_event en (rsch_run_id schedule) (GE_RetryScheduled schedule) now (?s2 j) = Ok s'"
    for s' j
  proof -
    have "store_writes en fresh gone s (?s2 j)" by (rule retry_tables_write [OF ref refl])
    also have "store_writes en fresh gone (?s2 j) s'" by (rule record_event_writes [OF ev assms]) simp
    finally show ?thesis .
  qed
  then show ?thesis
    unfolding schedule_retry_def Let_def
    by (intro in_run_writes transaction_writes) (use assms in \<open>auto simp: bind_r_eq_Ok\<close>)
qed

lemma activate_writes:
  assumes "en_foreign_keys en" and "fold_r (activate_retry en at_ms) rs s = Ok s'"
  shows "store_writes en fresh gone s s'"
  using assms(2)
proof (induction rs arbitrary: s)
  case (Cons r rs)
  then obtain s1 where s1: "activate_retry en at_ms r s = Ok s1" "fold_r (activate_retry en at_ms) rs s1 = Ok s'"
    by (auto simp: bind_r_eq_Ok)
  then obtain s0 where s0: "record_event en (rsch_run_id r) (GE_RetryReady (rsch_node_id r) (rsch_next_attempt r)) at_ms s = Ok s0"
    and eq: "s1 = s0\<lparr>st_retry_schedules := bm_remove (rsch_run_id r, rsch_node_id r) (st_retry_schedules s0)\<rparr>"
    by (auto simp: activate_retry_def bind_r_eq_Ok)
  have "store_writes en fresh gone s s0" by (rule record_event_writes [OF s0 assms(1)]) simp
  also have "store_writes en fresh gone s0 s1"
    unfolding eq by (intro side_write) (auto simp: same_core_def side_wf_def bm_wf_remove intro!: rows_remove)
  also have "store_writes en fresh gone s1 s'" by (rule Cons.IH [OF s1(2)])
  finally show ?case .
qed simp

lemma create_run_writes:
  "store_writes en fresh gone s (fst (create_run_with_id en run_id spec session_id repo_root now s))"
proof -
  have "store_writes en fresh gone s (fst (transaction (create_run_tx en run_id spec session_id repo_root now hash j) s))" for hash j
    by (rule transaction_writes) (auto intro: r_into_rtranclp w_create)
  then show ?thesis by (simp add: create_run_with_id_def split: sum.split)
qed

lemma accept_output_writes:
  assumes "en_foreign_keys en"
  shows "store_writes en fresh gone s (fst (accept_output en run_id nid attempt output now s))"
proof -
  have "store_writes en fresh gone s s'"
    if "insert_event_tx en run_id e now s = Ok s1" "s' = update_node run_id nid (\<lambda>_. True)
         (\<lambda>r. end_lease status now (r\<lparr>nr_output_json := Some j\<rparr>)) s1" for s' s1 e j status
    using insert_event_writes(1) [OF that(1) assms] that(2)
      update_node_writes [of s1 run_id nid "\<lambda>r. end_lease status now (r\<lparr>nr_output_json := Some j\<rparr>)" fresh en gone "\<lambda>_. True"]
    by (auto intro: rtranclp_trans)
  then have "store_writes en fresh gone s (fst (transaction (\<lambda>s.
       bind_r (insert_event_tx en run_id e now s) (\<lambda>s1.
       Ok (update_node run_id nid (\<lambda>_. True) (\<lambda>r. end_lease status now (r\<lparr>nr_output_json := Some j\<rparr>)) s1, True))) s))"
    for e j status
    by (intro transaction_writes) (auto simp: bind_r_eq_Ok)
  then show ?thesis by (auto simp: accept_output_def split: option.split sum.split)
qed


lemma lease_node_writes:
  assumes "en_foreign_keys en"
    and "\<And>row. bm_get (st_nodes s) (run_id, nid) = Some row \<Longrightarrow> fresh (nr_attempt row) (nr_attempt row + 1)"
  shows "store_writes en fresh gone s (fst (lease_node en run_id nid owner ttl_ms now s))"
proof (cases "bm_get (st_nodes s) (run_id, nid)")
  case (Some row)
  have "store_writes en fresh gone s s'"
    if "record_event en run_id (GE_NodeLeased nid (nr_attempt row + 1) owner t) now s = Ok s'" for s' t
    by (rule record_event_writes [OF that assms(1)]) (use Some assms(2) in simp)
  then have "store_writes en fresh gone s (fst (transaction (\<lambda>s. bind_r
       (record_event en run_id (GE_NodeLeased nid (nr_attempt row + 1) owner t) now s) (\<lambda>s'. Ok (s', v s'))) s))" for t v
    by (intro transaction_writes) (auto simp: bind_r_eq_Ok)
  then show ?thesis using Some by (auto simp: lease_node_def Let_def)
qed (simp add: lease_node_def)

lemma coordinator_write:
  assumes "bm_wf (st_coordinators s) \<Longrightarrow> bm_wf cs"
  shows "store_writes en fresh gone s (s\<lparr>st_coordinators := cs\<rparr>)"
  using assms by (intro side_write) (auto simp: same_core_def side_wf_def)

lemma store_op_writes:
  assumes "store_op en fresh gone s s'" and fk: "en_foreign_keys en"
  shows "store_writes en fresh gone s s'"
  using assms(1)
proof (cases rule: store_op.cases)
  case (op_event event run_id now)
  then have "lease_fits fresh s run_id event" by (cases event) auto
  then show ?thesis using op_event append_event_writes [OF fk] by blast
next
  case op_create
  then show ?thesis by (simp add: create_run_writes)
next
  case (op_attach session_id repo_root run_id now)
  have "store_writes en fresh gone s (s\<lparr>st_active_runs := bm_insert (session_id, repo_root) (run_id, now) (st_active_runs s)\<rparr>)"
    if "run_ref s run_id"
    using that by (intro side_write) (auto simp: same_core_def side_wf_def bm_wf_insert intro!: rows_insert)
  then show ?thesis unfolding op_attach attach_active_run_def by (intro in_run_writes) simp
next
  case (op_lease run_id nid owner ttl_ms now)
  then show ?thesis using lease_node_writes [OF fk] by blast
next
  case (op_reserve run_id nid owner ttl_ms estimate at_ms)
  then show ?thesis unfolding reserve_and_lease_node_def
    by (auto intro!: transaction_writes intro: reserve_and_lease_writes [OF _ fk])
next
  case op_accept_reconcile
  then show ?thesis unfolding accept_output_and_reconcile_def
    by (auto intro!: transaction_writes intro: accept_and_reconcile_writes [OF _ fk])
next
  case op_accept
  then show ?thesis by (simp add: accept_output_writes [OF fk])
next
  case op_usage
  then show ?thesis unfolding record_usage_def
    by (auto intro!: in_run_writes transaction_writes intro: usage_writes)
next
  case (op_expire clock now)
  then show ?thesis using expire_each_writes [OF fk, of fresh gone s clock "expired_leases en now s"]
    by (auto simp: expire_leases_def split: prod.split sum.split)
next
  case op_loop
  then show ?thesis by (simp add: save_loop_writes [OF fk])
next
  case op_plan
  then show ?thesis by (simp add: save_plan_writes [OF fk])
next
  case op_schedule
  then show ?thesis by (simp add: schedule_retry_writes [OF fk])
next
  case op_activate
  then show ?thesis unfolding activate_due_retries_matching_def Let_def
    by (auto intro!: transaction_writes simp: bind_r_eq_Ok intro: activate_writes [OF fk])
next
  case op_acquire
  then show ?thesis by (auto simp: try_acquire_coordinator_def Let_def intro!: coordinator_write bm_wf_insert)
next
  case op_heartbeat
  then show ?thesis by (auto simp: heartbeat_coordinator_def Let_def intro!: coordinator_write bm_wf_update)
next
  case (op_approve run_id approval now)
  have "store_writes en fresh gone s (s\<lparr>st_approvals := bm_insert run_id (j, now) (st_approvals s)\<rparr>)"
    if "run_ref s run_id" for j
    using that by (intro side_write) (auto simp: same_core_def side_wf_def bm_wf_insert intro!: rows_insert)
  then show ?thesis unfolding op_approve save_execution_approval_def
    by (intro in_run_writes transaction_writes) (auto simp: bind_r_eq_Ok)
next
  case (op_cleanup run_id)
  then show ?thesis
    by (cases "run_ref s run_id")
      (auto simp: cleanup_run_def in_run_def ensure_run_def intro!: r_into_rtranclp w_cleanup [where run_id = run_id])
qed

text \<open>An empty database is well-formed, and so is what every sequence of operations makes of it.\<close>

definition store_inv :: "'j engine \<Rightarrow> 'j store \<Rightarrow> bool" where
  "store_inv en s \<longleftrightarrow> store_wf s \<and> ledgers_ok en s"

lemma empty_store_wf: "store_wf empty_store"
  by (simp add: store_wf_def core_wf_def side_wf_def empty_store_def bm_contains_def bmap_simps)

lemma empty_store_inv: "store_inv en empty_store"
  by (simp add: store_inv_def empty_store_wf ledgers_ok_def load_ledger_Ok) (simp add: empty_store_def bmap_simps)

lemma store_writes_wf: "store_writes en fresh gone s s' \<Longrightarrow> store_wf s \<Longrightarrow> store_wf s'"
  by (induction rule: rtranclp_induct) (auto intro: store_write_wf)

lemma store_writes_inv:
  assumes "store_writes en fresh gone s s'" and "reads_back en" and "store_inv en s"
  shows "store_inv en s'"
  using assms(1,3)
  by (induction rule: rtranclp_induct) (auto simp: store_inv_def intro: store_write_wf store_write_ledgers [OF _ assms(2)])

lemma store_writes_move:
  assumes "store_writes en (<) gone s s'" and "store_wf s" and "\<not> gone r"
  shows "moved_on (r, n) s s' \<and> store_wf s'"
  using assms(1)
proof (induction rule: rtranclp_induct)
  case base
  then show ?case using assms(2) by (simp add: moved_on_refl)
next
  case (step t u)
  then show ?case
    using store_write_moves [OF step(2) _ assms(3), of n] store_write_wf [OF step(2)] by (blast intro: moved_on_trans)
qed

interpretation store_run: invariant_system
  "\<lambda>s. s = empty_store \<and> en_foreign_keys en \<and> reads_back en" "\<lambda>s s'. en_foreign_keys en \<and> reads_back en \<and> store_op en fresh gone s s'"
  "store_inv en" for en fresh gone
  by unfold_locales (auto simp: empty_store_inv intro: store_writes_inv store_op_writes)

end
