(* ===== verification/Store_Properties.thy ===== *)
theory Store_Properties
  imports Store_Correct
begin

text \<open>
  What the durable store promises of every sequence of operations: its tables stay consistent, the
  ledgers it keeps stay within their limits and agree with the reservation table, outputs of
  superseded attempts are refused, an attempt is settled once, retries are activated when they are
  due, and a coordinator keeps its lease until it runs out.
\<close>

section \<open>A concrete engine\<close>

text \<open>Text that keeps the value it was made of.\<close>

datatype kept_text =
    KT_Spec graph_spec
  | KT_Budget budget_persistent_state
  | KT_Usage usage_accounting
  | KT_Output node_output
  | KT_Event graph_event
  | KT_Schedule retry_schedule
  | KT_Loop loop_state
  | KT_Plan compensation_plan
  | KT_Approval execution_approval

definition plain_engine :: "kept_text engine" where
  "plain_engine =
     \<lparr>en_norm = plain_norm_env, en_foreign_keys = True, en_scan = id,
      en_spec = \<lparr>to_string = \<lambda>v. Ok (KT_Spec v), from_str = \<lambda>t. case t of KT_Spec v \<Rightarrow> Ok v | _ \<Rightarrow> Err ''spec''\<rparr>,
      en_budget = \<lparr>to_string = \<lambda>v. Ok (KT_Budget v), from_str = \<lambda>t. case t of KT_Budget v \<Rightarrow> Ok v | _ \<Rightarrow> Err ''budget''\<rparr>,
      en_usage = \<lparr>to_string = \<lambda>v. Ok (KT_Usage v), from_str = \<lambda>t. case t of KT_Usage v \<Rightarrow> Ok v | _ \<Rightarrow> Err ''usage''\<rparr>,
      en_output = \<lparr>to_string = \<lambda>v. Ok (KT_Output v), from_str = \<lambda>t. case t of KT_Output v \<Rightarrow> Ok v | _ \<Rightarrow> Err ''output''\<rparr>,
      en_event = \<lparr>to_string = \<lambda>v. Ok (KT_Event v), from_str = \<lambda>t. case t of KT_Event v \<Rightarrow> Ok v | _ \<Rightarrow> Err ''event''\<rparr>,
      en_schedule = \<lparr>to_string = \<lambda>v. Ok (KT_Schedule v), from_str = \<lambda>t. case t of KT_Schedule v \<Rightarrow> Ok v | _ \<Rightarrow> Err ''schedule''\<rparr>,
      en_loop = \<lparr>to_string = \<lambda>v. Ok (KT_Loop v), from_str = \<lambda>t. case t of KT_Loop v \<Rightarrow> Ok v | _ \<Rightarrow> Err ''loop''\<rparr>,
      en_plan = \<lparr>to_string = \<lambda>v. Ok (KT_Plan v), from_str = \<lambda>t. case t of KT_Plan v \<Rightarrow> Ok v | _ \<Rightarrow> Err ''plan''\<rparr>,
      en_approval = \<lparr>to_string = \<lambda>v. Ok (KT_Approval v), from_str = \<lambda>t. case t of KT_Approval v \<Rightarrow> Ok v | _ \<Rightarrow> Err ''approval''\<rparr>\<rparr>"

lemma plain_engine_simps [simp]:
  "en_foreign_keys plain_engine" "en_norm plain_engine = plain_norm_env" "en_scan plain_engine = id"
  "to_string (en_spec plain_engine) = (\<lambda>v. Ok (KT_Spec v))"
  "to_string (en_budget plain_engine) = (\<lambda>v. Ok (KT_Budget v))"
  "to_string (en_usage plain_engine) = (\<lambda>v. Ok (KT_Usage v))"
  "to_string (en_output plain_engine) = (\<lambda>v. Ok (KT_Output v))"
  "to_string (en_event plain_engine) = (\<lambda>v. Ok (KT_Event v))"
  "to_string (en_schedule plain_engine) = (\<lambda>v. Ok (KT_Schedule v))"
  "from_str (en_spec plain_engine) (KT_Spec spec) = Ok spec"
  "from_str (en_budget plain_engine) (KT_Budget state) = Ok state"
  "from_str (en_output plain_engine) (KT_Output out) = Ok out"
  "from_str (en_event plain_engine) (KT_Event event) = Ok event"
  by (simp_all add: plain_engine_def)

lemma same_state_refl: "same_state v v"
proof -
  have "same_integers u u" for u by (simp add: same_integers_def list_all_iff)
  then have "list_all2 (\<lambda>(k, u) (k', u'). k' = k \<and> same_integers u u') xs xs" for xs :: "('k \<times> usage_accounting) list"
    by (induction xs) auto
  with \<open>\<And>u. same_integers u u\<close> show ?thesis by (simp add: same_state_def)
qed

lemma plain_engine_reads_back: "reads_back plain_engine"
  by (auto simp: reads_back_def same_state_refl)

definition stored_graph :: graph_spec where
  "stored_graph = minimal_graph [minimal_node ''a'' NK_Agent ''x''] []"

definition stored_run :: "kept_text store" where
  "stored_run = fst (create_run_with_id plain_engine ''run'' stored_graph None ''/repo'' 0 empty_store)"

abbreviation any_ops :: "'j engine \<Rightarrow> 'j store \<Rightarrow> 'j store \<Rightarrow> bool" where
  "any_ops en \<equiv> (store_op en (\<lambda>_ _. True) (\<lambda>_. True))\<^sup>*\<^sup>*"

lemma store_reachable_inv:
  assumes "(store_op en fresh gone)\<^sup>*\<^sup>* s s'" and "en_foreign_keys en" and "reads_back en" and "store_inv en s"
  shows "store_inv en s'"
  using store_run.steps_inv [of en fresh gone s s'] assms by simp

lemma store_reachable_writes:
  assumes "(store_op en fresh gone)\<^sup>*\<^sup>* s s'" and "en_foreign_keys en"
  shows "store_writes en fresh gone s s'"
  using assms(1) by (induction rule: rtranclp_induct) (auto intro: rtranclp_trans store_op_writes [OF _ assms(2)])

text \<open>The concrete run, evaluated.\<close>

lemma stored_hash: "\<exists>hash. canonical_graph_hash plain_norm_env stored_graph = Ok hash"
  by (simp add: canonical_graph_hash_def normalize_graph_spec_def hash_graph_spec_def Let_def plain_norm_env_def)

definition stored_hash_text :: string where
  "stored_hash_text = (case canonical_graph_hash plain_norm_env stored_graph of Inr h \<Rightarrow> h | Inl _ \<Rightarrow> [])"

lemma stored_graph_fields [simp]:
  "sb_nodes (gs_spec stored_graph) = [minimal_node ''a'' NK_Agent ''x'']"
  "sb_budgets (gs_spec stored_graph) = default_graph_budgets"
  "ns_id (minimal_node nid kind objective) = nid"
  by (simp_all add: stored_graph_def minimal_graph_def minimal_node_def)

lemma stored_run_fields [simp]:
  "st_specs stored_run = [(stored_hash_text, \<lparr>sp_name = gm_name (gs_metadata stored_graph), sp_spec_json = KT_Spec stored_graph, sp_created_at_ms = 0\<rparr>)]"
  "st_runs stored_run = [(''run'', \<lparr>ru_status = RS_AwaitingApproval, ru_spec_hash = stored_hash_text, ru_session_id = None,
     ru_repo_root = ''/repo'', ru_created_at_ms = 0, ru_updated_at_ms = 0\<rparr>)]"
  "st_nodes stored_run = [((''run'', ''a''), new_node_row 0)]"
  "st_budgets stored_run = [(''run'', KT_Budget default_persistent_state, 0)]"
  "st_reservations stored_run = []" "st_leases stored_run = []" "st_retry_schedules stored_run = []"
  "st_coordinators stored_run = []" "st_retry_history stored_run = []"
proof -
  from stored_hash obtain h where h: "canonical_graph_hash plain_norm_env stored_graph = Ok h" ..
  have run: "stored_run = fst (create_run_with_id plain_engine ''run'' stored_graph None ''/repo'' 0 empty_store)"
    by (simp add: stored_run_def)
  show "st_specs stored_run = [(stored_hash_text, \<lparr>sp_name = gm_name (gs_metadata stored_graph), sp_spec_json = KT_Spec stored_graph, sp_created_at_ms = 0\<rparr>)]"
    "st_runs stored_run = [(''run'', \<lparr>ru_status = RS_AwaitingApproval, ru_spec_hash = stored_hash_text, ru_session_id = None,
       ru_repo_root = ''/repo'', ru_created_at_ms = 0, ru_updated_at_ms = 0\<rparr>)]"
    "st_nodes stored_run = [((''run'', ''a''), new_node_row 0)]"
    "st_budgets stored_run = [(''run'', KT_Budget default_persistent_state, 0)]"
    "st_reservations stored_run = []" "st_leases stored_run = []" "st_retry_schedules stored_run = []"
    "st_coordinators stored_run = []" "st_retry_history stored_run = []"
    unfolding run
    by (simp_all add: create_run_with_id_def h stored_hash_text_def json_def transaction_def create_run_tx_def Let_def
        insert_spec_def insert_node_def insert_event_tx_def constraint_def references_def empty_store_def
        bm_insert_def bm_remove_def bm_contains_def bm_get_def new_node_row_def)
qed

lemma stored_run_rest:
  "st_schema_version stored_run = None" "st_usage stored_run = []"
  "st_events stored_run = [\<lparr>er_run_id = ''run'', er_event_type = ''run_created'',
     er_event_json = KT_Event (GE_RunCreated RS_AwaitingApproval), er_created_at_ms = 0\<rparr>]"
proof -
  from stored_hash obtain h where h: "canonical_graph_hash plain_norm_env stored_graph = Ok h" ..
  show "st_schema_version stored_run = None" "st_usage stored_run = []"
    "st_events stored_run = [\<lparr>er_run_id = ''run'', er_event_type = ''run_created'',
       er_event_json = KT_Event (GE_RunCreated RS_AwaitingApproval), er_created_at_ms = 0\<rparr>]"
    by (simp_all add: stored_run_def create_run_with_id_def h json_def transaction_def create_run_tx_def Let_def
        insert_spec_def insert_node_def insert_event_tx_def constraint_def references_def empty_store_def
        bm_insert_def bm_remove_def bm_contains_def bm_get_def new_node_row_def)
qed

lemma stored_reachable: "(store_op plain_engine fresh gone)\<^sup>*\<^sup>* empty_store stored_run"
  unfolding stored_run_def by (rule r_into_rtranclp, rule op_create)

lemma stored_inv: "store_inv plain_engine stored_run"
  by (rule store_reachable_inv [OF stored_reachable _ plain_engine_reads_back empty_store_inv]) simp

lemma stored_ledger: "load_ledger plain_engine ''run'' stored_run = Ok (new_ledger default_graph_budgets)"
  by (auto simp: load_ledger_Ok spec_json_for_run_def bm_get_def from_persistent_state_def default_persistent_state_def
      new_ledger_def bm_of_list_def)

section \<open>Consistency\<close>

text \<open>
  C15. The tables stay consistent: after any sequence of operations, successful or not, every table has
  its rows in the order of distinct keys, every run has a stored graph and a budget, and every node,
  event, reservation, lease, usage record, retry, loop state, plan and approval belongs to a run or a
  node that exists.
\<close>

theorem store_stays_well_formed:
  assumes "any_ops en empty_store s" and "en_foreign_keys en"
  shows "store_wf s"
  by (rule store_writes_wf [OF store_reachable_writes [OF assms] empty_store_wf])

theorem store_stays_well_formed_witness: "store_wf stored_run"
  by (rule store_stays_well_formed [OF stored_reachable]) simp

text \<open>
  C12. The durable budget is sound: whatever operations came before, the ledger that is loaded for a run
  has charged no more than any of its integer limits, and its open reservations are exactly the rows of
  the reservation table.
\<close>

theorem durable_budget_sound:
  assumes "any_ops en empty_store s" and "en_foreign_keys en" and "reads_back en" and "load_ledger en run_id s = Ok l"
  shows "within_u64 (bl_limits l) (bl_charged l) \<and>
    (\<forall>k. bm_contains (bl_reservations l) k \<longleftrightarrow> fst k = run_id \<and> bm_contains (st_reservations s) k)"
  using store_reachable_inv [OF assms(1-3) empty_store_inv] assms(4)
  by (simp add: store_inv_def ledgers_ok_def ledger_ok_def)

theorem durable_budget_sound_witness:
  "within_u64 default_graph_budgets (bl_charged (new_ledger default_graph_budgets)) \<and>
   \<not> bm_contains (st_reservations stored_run) (''run'', ''a'', 1)"
  using durable_budget_sound [OF stored_reachable _ plain_engine_reads_back stored_ledger]
  by (auto simp: new_ledger_def bm_contains_def bm_get_def)


section \<open>Attempts\<close>

text \<open>Operations that do not clean up the run, and whose leases raise the attempt number.\<close>

abbreviation run_ops :: "'j engine \<Rightarrow> string \<Rightarrow> 'j store \<Rightarrow> 'j store \<Rightarrow> bool" where
  "run_ops en run_id \<equiv> (store_op en (<) (\<lambda>r. r \<noteq> run_id))\<^sup>*\<^sup>*"

lemma grant_lease_row:
  assumes "grant_lease en (run_id, nid, a) owner ttl_ms estimate l at_ms s = Ok (s', LRO_Leased lease)"
    and row: "bm_get (st_nodes s) (run_id, nid) = Some row"
  shows "nl_attempt lease = a \<and>
    (\<exists>row'. bm_get (st_nodes s') (run_id, nid) = Some row' \<and> nr_attempt row' = a \<and> nr_status row' = NS_Leased)"
proof -
  let ?e = "GE_NodeLeased nid a owner (i64_sat_add at_ms (max ttl_ms 1))"
  from assms(1) obtain s1 v where s1: "save_ledger en run_id l at_ms s = Ok s1"
    and "record_event en run_id ?e at_ms (s1\<lparr>st_reservations := v\<rparr>) = Ok s'" and a: "nl_attempt lease = a"
    by (auto simp: grant_lease_def bind_r_eq_Ok Let_def)
  moreover define s2 where "s2 = s1\<lparr>st_reservations := v\<rparr>"
  ultimately have s2: "st_nodes s2 = st_nodes s1" and ev: "record_event en run_id ?e at_ms s2 = Ok s'" by simp_all
  from ev obtain s3 where s3: "insert_event_tx en run_id ?e at_ms s2 = Ok s3" "apply_event_tx en run_id ?e at_ms s3 = Ok s'"
    by (auto simp: record_event_def bind_r_eq_Ok)
  have "st_nodes s3 = st_nodes s"
    using insert_event_Ok [OF s3(1)] s2 saved_fields [OF save_ledger_saved [OF s1]] by auto
  with s3(2) row a show ?thesis
    by (auto simp: Let_def update_node_def get_update_row)
qed

lemma leased_row:
  assumes "reserve_and_lease_node en run_id nid owner ttl_ms estimate at_ms s = (s', Ok (LRO_Leased lease))"
  obtains row row' where "bm_get (st_nodes s) (run_id, nid) = Some row" "may_lease (nr_status row)"
    "nl_attempt lease = sat_add (nr_attempt row) 1"
    "bm_get (st_nodes s') (run_id, nid) = Some row'" "nr_attempt row' = nl_attempt lease" "nr_status row' = NS_Leased"
proof -
  from assms have tx: "reserve_and_lease_tx en run_id nid owner ttl_ms estimate at_ms s = Ok (s', LRO_Leased lease)"
    by (auto simp: reserve_and_lease_node_def transaction_def split: sum.splits)
  then obtain row where row: "bm_get (st_nodes s) (run_id, nid) = Some row" "may_lease (nr_status row)"
    by (auto simp: reserve_and_lease_tx_def split: option.splits if_splits)
  let ?k = "(run_id, nid, sat_add (nr_attempt row) 1)"
  from tx row obtain l0 where l0: "load_ledger en run_id s = Ok l0"
    by (auto simp: reserve_and_lease_tx_def bind_r_eq_Ok)
  obtain l res where r: "reserve l0 ?k estimate = (l, res)" by (cases "reserve l0 ?k estimate")
  have "grant_lease en ?k owner ttl_ms estimate l at_ms s = Ok (s', LRO_Leased lease)"
    using tx row l0 r by (auto simp: reserve_and_lease_tx_def Let_def stop_run_budget_def bind_r_eq_Ok
        split: sum.splits budget_error.splits)
  from grant_lease_row [OF this row(1)] row that show thesis by auto
qed

lemma lease_keeps_wf:
  assumes "en_foreign_keys en" and "store_wf s"
  shows "store_wf (fst (reserve_and_lease_node en run_id nid owner ttl_ms estimate at_ms s))"
  using store_op_writes [OF op_reserve assms(1), where fresh = "\<lambda>_ _. True"] assms(2)
  by (blast intro: store_writes_wf)

lemma accept_stale:
  assumes "bm_get (st_nodes s) (run_id, nid) = Some row" and "nr_attempt row \<noteq> attempt"
  shows "accept_output_and_reconcile en run_id nid attempt output usage at_ms s = (s, Ok False)"
    and "accept_output en run_id nid attempt output at_ms s = (s, Ok False)"
  using assms
  by (simp_all add: accept_output_and_reconcile_def accept_and_reconcile_tx_def transaction_def accept_output_def)

lemma sat_add_one_less: "sat_add a 1 \<noteq> - 1 \<Longrightarrow> a < sat_add a 1" for a :: u32
proof -
  assume "sat_add a 1 \<noteq> - 1"
  then have "unat a + 1 < 2 ^ 32" by (simp add: sat_add_def split: if_splits)
  then have "unat (sat_add a 1) = unat a + 1" by (simp add: unat_sat_add)
  then show ?thesis by (simp add: word_less_nat_alt)
qed

text \<open>
  C14. Fencing: once a node has been leased again, the output of the superseded attempt is refused and
  changes nothing, whatever operations on the store lie between and after the two leases (short of
  cleaning up the run, and of the last attempt number).
\<close>

theorem superseded_output_refused:
  assumes "any_ops en empty_store s" and "en_foreign_keys en"
    and lease1: "reserve_and_lease_node en run_id nid owner ttl_ms estimate at_ms s = (s1, Ok (LRO_Leased old))"
    and "run_ops en run_id s1 s2"
    and lease2: "reserve_and_lease_node en run_id nid owner' ttl_ms' estimate' at_ms' s2 = (s3, Ok (LRO_Leased new))"
    and "nl_attempt new \<noteq> - 1" and "run_ops en run_id s3 s4"
  shows "accept_output_and_reconcile en run_id nid (nl_attempt old) output usage now s4 = (s4, Ok False) \<and>
    accept_output en run_id nid (nl_attempt old) output now s4 = (s4, Ok False)"
proof -
  note moves = store_writes_move [OF store_reachable_writes [OF _ assms(2)], of "\<lambda>r. r \<noteq> run_id" _ _ run_id nid]
  have wf: "store_wf s" by (rule store_writes_wf [OF store_reachable_writes [OF assms(1,2)] empty_store_wf])
  have wf1: "store_wf s1" using lease_keeps_wf [OF assms(2) wf] lease1 by (metis fst_conv)
  from lease1 obtain row1 where row1: "bm_get (st_nodes s1) (run_id, nid) = Some row1" "nr_attempt row1 = nl_attempt old"
    by (rule leased_row)
  from moves [OF assms(4) wf1] row1 obtain row2 where wf2: "store_wf s2"
    and row2: "bm_get (st_nodes s2) (run_id, nid) = Some row2" "nl_attempt old \<le> nr_attempt row2"
    by (auto simp: moved_on_def)
  from lease2 row2 obtain row3 where row3: "bm_get (st_nodes s3) (run_id, nid) = Some row3"
      "nr_attempt row3 = nl_attempt new" "nl_attempt new = sat_add (nr_attempt row2) 1"
    by (auto elim!: leased_row)
  have wf3: "store_wf s3" using lease_keeps_wf [OF assms(2) wf2] lease2 by (metis fst_conv)
  from moves [OF assms(7) wf3] row3 obtain row4 where row4: "bm_get (st_nodes s4) (run_id, nid) = Some row4"
      "nl_attempt new \<le> nr_attempt row4"
    by (auto simp: moved_on_def)
  have "nr_attempt row2 < nl_attempt new" using row3(3) assms(6) sat_add_one_less [of "nr_attempt row2"] by simp
  with row2(2) row4(2) have "nr_attempt row4 \<noteq> nl_attempt old" by auto
  with accept_stale [OF row4(1)] show ?thesis by blast
qed


text \<open>The concrete run after a lease, after the node was made ready again, and after a second lease.\<close>

lemma reserve_unlimited:
  "bl_stopped l = None \<Longrightarrow> bl_limits l = default_graph_budgets \<Longrightarrow>
   reserve l k u = (l\<lparr>bl_reservations := bm_insert k u (bl_reservations l)\<rparr>, Ok ())"
  by (simp add: reserve_def Let_def check_limits_def u64_limits_def default_graph_budgets_def check_estimated_cost_def
      check_provider_cost_def)

definition leased_run :: "kept_text store" where
  "leased_run = fst (reserve_and_lease_node plain_engine ''run'' ''a'' ''w'' 10 default_usage 0 stored_run)"

definition ready_run :: "kept_text store" where
  "ready_run = fst (append_event plain_engine ''run'' (GE_NodeStatusChanged ''a'' NS_Ready) 0 leased_run)"

definition leased_again :: "kept_text store" where
  "leased_again = fst (reserve_and_lease_node plain_engine ''run'' ''a'' ''v'' 10 default_usage 1 ready_run)"

definition test_lease :: "u32 \<Rightarrow> string \<Rightarrow> i64 \<Rightarrow> node_lease" where
  "test_lease a owner expires =
     \<lparr>nl_run_id = ''run'', nl_node_id = ''a'', nl_attempt = a, nl_owner = owner, nl_lease_expires_at_ms = expires\<rparr>"

lemmas lease_eval = reserve_and_lease_node_def reserve_and_lease_tx_def transaction_def bm_get_def
  new_node_row_def may_lease_def reserve_unlimited Let_def grant_lease_def save_ledger_def json_def constraint_def
  bm_contains_def record_event_def insert_event_tx_def references_def update_node_def update_row_def bm_insert_def
  bm_remove_def sat_add_def i64_sat_add_def i64_sat_def i64_max_def i64_min_def

lemma first_lease: "reserve_and_lease_node plain_engine ''run'' ''a'' ''w'' 10 default_usage 0 stored_run =
    (leased_run, Ok (LRO_Leased (test_lease 1 ''w'' 10)))"
  unfolding leased_run_def by (simp add: lease_eval stored_ledger new_ledger_def test_lease_def)

lemma leased_run_fields [simp]:
  "st_specs leased_run = st_specs stored_run" "st_runs leased_run = st_runs stored_run"
  "st_nodes leased_run = [((''run'', ''a''), \<lparr>nr_status = NS_Leased, nr_attempt = 1, nr_lease_owner = Some ''w'',
     nr_lease_expires_at_ms = Some 10, nr_output_json = None, nr_updated_at_ms = 0\<rparr>)]"
  "st_budgets leased_run = [(''run'', KT_Budget \<lparr>bps_charged = default_usage,
     bps_reservations = [((''run'', ''a'', 1), default_usage)], bps_stopped = None\<rparr>, 0)]"
  "st_reservations leased_run = [((''run'', ''a'', 1), KT_Usage default_usage, 0)]"
  unfolding leased_run_def
  by (simp_all add: lease_eval stored_ledger new_ledger_def persistent_state_def)

lemma leased_run_retries:
  "st_retry_schedules leased_run = []" "st_retry_history leased_run = []" "st_coordinators leased_run = []"
  "st_leases leased_run = [((''run'', ''a''), \<lparr>lr_owner = ''w'', lr_attempt = 1, lr_expires_at_ms = 10\<rparr>)]"
  unfolding leased_run_def
  by (simp_all add: lease_eval stored_ledger new_ledger_def)

lemma leased_run_rest:
  "st_schema_version leased_run = None" "st_usage leased_run = []"
  "st_events leased_run = st_events stored_run @ [\<lparr>er_run_id = ''run'', er_event_type = ''node_leased'',
     er_event_json = KT_Event (GE_NodeLeased ''a'' 1 ''w'' 10), er_created_at_ms = 0\<rparr>]"
  by (simp_all add: leased_run_def lease_eval stored_ledger new_ledger_def stored_run_rest)

lemma ready_run_fields [simp]:
  "st_runs ready_run = st_runs stored_run" "spec_json_for_run ready_run ''run'' = Some (KT_Spec stored_graph)"
  "st_nodes ready_run = [((''run'', ''a''), \<lparr>nr_status = NS_Ready, nr_attempt = 1, nr_lease_owner = Some ''w'',
     nr_lease_expires_at_ms = Some 10, nr_output_json = None, nr_updated_at_ms = 0\<rparr>)]"
  "st_budgets ready_run = st_budgets leased_run" "st_reservations ready_run = st_reservations leased_run"
  unfolding ready_run_def
  by (simp_all add: append_event_def in_run_def ensure_run_def with_unit_def spec_json_for_run_def lease_eval)

lemma ready_ledger: "load_ledger plain_engine ''run'' ready_run = Ok \<lparr>bl_limits = default_graph_budgets, bl_charged = default_usage,
    bl_reservations = [((''run'', ''a'', 1), default_usage)], bl_stopped = None\<rparr>"
  by (auto simp: load_ledger_Ok bm_get_def from_persistent_state_def bm_of_list_def bm_insert_def bm_remove_def)

lemma second_lease: "reserve_and_lease_node plain_engine ''run'' ''a'' ''v'' 10 default_usage 1 ready_run =
    (leased_again, Ok (LRO_Leased (test_lease 2 ''v'' 11)))"
  unfolding leased_again_def by (simp add: lease_eval ready_ledger test_lease_def)

lemma ready_reached: "run_ops plain_engine ''run'' leased_run ready_run"
  unfolding ready_run_def by (rule r_into_rtranclp, rule op_event) simp

theorem superseded_output_refused_witness:
  "accept_output_and_reconcile plain_engine ''run'' ''a'' 1 quiet_output None 5 leased_again = (leased_again, Ok False)"
  using superseded_output_refused [OF stored_reachable _ first_lease ready_reached second_lease _ rtranclp.rtrancl_refl]
  by (simp add: test_lease_def)


lemma accepted_row:
  assumes "accept_output_and_reconcile en run_id nid attempt out usage at_ms s = (s', Ok True)"
  shows "(\<exists>row. bm_get (st_nodes s') (run_id, nid) = Some row \<and> nr_attempt row = attempt) \<and>
    \<not> bm_contains (st_reservations s') (run_id, nid, attempt)"
proof -
  let ?k = "(run_id, nid, attempt)"
  from assms obtain row s1 s2 j where row: "bm_get (st_nodes s) (run_id, nid) = Some row" "nr_attempt row = attempt"
    and s1: "settle_reservation en ?k usage at_ms s = Ok s1"
    and s2: "insert_event_tx en run_id (GE_NodeOutputAccepted nid attempt (no_status out)) at_ms s1 = Ok s2"
    and s': "st_reservations s' = st_reservations s2" "st_nodes s' = st_nodes
       (update_node run_id nid (\<lambda>r. nr_attempt r = attempt) (\<lambda>r. end_lease (no_status out) at_ms (r\<lparr>nr_output_json := Some j\<rparr>)) s2)"
    by (auto simp: accept_output_and_reconcile_def accept_and_reconcile_tx_def transaction_def bind_r_eq_Ok Let_def
        update_node_def split: option.splits if_splits sum.splits)
  from s1 have "st_nodes s1 = st_nodes s \<and> \<not> bm_contains (st_reservations s1) ?k"
    by (rule settle_OkE) (auto simp: save_ledger_def insert_usage_def bind_r_eq_Ok bmap_simps)
  with insert_event_Ok [OF s2] s' row
  have "bm_get (st_nodes s') (run_id, nid) = Some (end_lease (no_status out) at_ms (row\<lparr>nr_output_json := Some j\<rparr>))"
      "\<not> bm_contains (st_reservations s') ?k"
    by (auto simp: update_node_def get_update_row)
  with row(2) show ?thesis by simp
qed

lemma settled_not_again:
  assumes "store_inv en s" and "\<not> bm_contains (st_reservations s) (run_id, nid, attempt)"
  shows "fst (accept_output_and_reconcile en run_id nid attempt out usage at_ms s) = s \<and>
    snd (accept_output_and_reconcile en run_id nid attempt out usage at_ms s) \<noteq> Ok True"
proof -
  let ?k = "(run_id, nid, attempt)"
  have "\<nexists>s1. settle_reservation en ?k usage at_ms s = Ok s1"
  proof
    assume "\<exists>s1. settle_reservation en ?k usage at_ms s = Ok s1"
    then obtain l l' c where l: "load_ledger en run_id s = Ok l" "reconcile l ?k usage = (l', Ok c)"
      by (auto elim!: settle_OkE)
    with assms show False using reconcile_Ok [OF l(2)] by (auto simp: store_inv_def ledgers_ok_def ledger_ok_def)
  qed
  then obtain e where "settle_reservation en ?k usage at_ms s = Err e" by (cases "settle_reservation en ?k usage at_ms s") auto
  then show ?thesis
    by (auto simp: accept_output_and_reconcile_def accept_and_reconcile_tx_def transaction_def split: option.split)
qed

text \<open>
  C13. An attempt is settled once: after its output has been accepted and its usage charged, accepting an
  output for the same attempt again neither succeeds nor changes the store, whatever operations came in
  between (short of cleaning up the run).
\<close>

theorem attempt_settled_once:
  assumes "any_ops en empty_store s" and "en_foreign_keys en" and "reads_back en"
    and acc: "accept_output_and_reconcile en run_id nid attempt out usage at_ms s = (s1, Ok True)"
    and "run_ops en run_id s1 s2"
  shows "fst (accept_output_and_reconcile en run_id nid attempt out' usage' at_ms' s2) = s2 \<and>
    snd (accept_output_and_reconcile en run_id nid attempt out' usage' at_ms' s2) \<noteq> Ok True"
proof -
  have inv: "store_inv en s" by (rule store_reachable_inv [OF assms(1-3) empty_store_inv])
  have "store_writes en (\<lambda>_ _. True) (\<lambda>_. True) s s1"
    using store_op_writes [OF op_accept_reconcile assms(2)] acc by (metis fst_conv)
  then have inv1: "store_inv en s1" by (rule store_writes_inv [OF _ assms(3) inv])
  have inv2: "store_inv en s2" by (rule store_reachable_inv [OF assms(5,2,3) inv1])
  have "store_wf s1" using inv1 by (simp add: store_inv_def)
  from store_writes_move [OF store_reachable_writes [OF assms(5,2)] this, of run_id nid] accepted_row [OF acc]
  have "\<not> bm_contains (st_reservations s2) (run_id, nid, attempt)" by (auto simp: moved_on_def)
  from settled_not_again [OF inv2 this] show ?thesis .
qed

definition accepted_run :: "kept_text store" where
  "accepted_run = fst (accept_output_and_reconcile plain_engine ''run'' ''a'' 1 quiet_output None 3 leased_run)"

lemma leased_ledger: "load_ledger plain_engine ''run'' leased_run = Ok \<lparr>bl_limits = default_graph_budgets, bl_charged = default_usage,
    bl_reservations = [((''run'', ''a'', 1), default_usage)], bl_stopped = None\<rparr>"
  by (auto simp: load_ledger_Ok bm_get_def from_persistent_state_def bm_of_list_def bm_insert_def bm_remove_def
      spec_json_for_run_def)

lemma first_accept: "accept_output_and_reconcile plain_engine ''run'' ''a'' 1 quiet_output None 3 leased_run = (accepted_run, Ok True)"
  unfolding accepted_run_def
  by (simp add: accept_output_and_reconcile_def accept_and_reconcile_tx_def transaction_def settle_reservation_def leased_ledger
      reconcile_def check_limits_def u64_limits_def default_graph_budgets_def check_estimated_cost_def check_provider_cost_def
      insert_usage_def lease_eval)

theorem attempt_settled_once_witness:
  "fst (accept_output_and_reconcile plain_engine ''run'' ''a'' 1 quiet_output None 4 accepted_run) = accepted_run \<and>
   snd (accept_output_and_reconcile plain_engine ''run'' ''a'' 1 quiet_output None 4 accepted_run) \<noteq> Ok True"
proof -
  have "any_ops plain_engine stored_run leased_run"
    unfolding leased_run_def by (rule r_into_rtranclp, rule op_reserve) simp
  then have "any_ops plain_engine empty_store leased_run" using stored_reachable by (rule rtranclp_trans [rotated])
  from attempt_settled_once [OF this _ plain_engine_reads_back first_accept rtranclp.rtrancl_refl] show ?thesis by simp
qed


section \<open>Retries\<close>

definition retry_key :: "retry_schedule \<Rightarrow> string \<times> node_id" where
  "retry_key r = (rsch_run_id r, rsch_node_id r)"

text \<open>What activating one retry does to the rows of nodes and retries.\<close>

lemma activate_retry_effect:
  assumes "activate_retry en at_ms r s = Ok s'"
  shows "bm_get (st_retry_schedules s') k = (if k = retry_key r then None else bm_get (st_retry_schedules s) k) \<and>
    map_option nr_status (bm_get (st_nodes s') k) =
      map_option (\<lambda>row. if k = retry_key r \<and> nr_status row = NS_Retrying then NS_Ready else nr_status row) (bm_get (st_nodes s) k)"
proof -
  let ?e = "GE_RetryReady (rsch_node_id r) (rsch_next_attempt r)"
  from assms obtain s1 s2 where s1: "insert_event_tx en (rsch_run_id r) ?e at_ms s = Ok s1"
    and s2: "apply_event_tx en (rsch_run_id r) ?e at_ms s1 = Ok s2"
    and s': "s' = s2\<lparr>st_retry_schedules := bm_remove (retry_key r) (st_retry_schedules s2)\<rparr>"
    by (auto simp: activate_retry_def record_event_def bind_r_eq_Ok retry_key_def)
  have "st_nodes s1 = st_nodes s" "st_retry_schedules s1 = st_retry_schedules s" using insert_event_Ok [OF s1] by auto
  with s2 show ?thesis
    by (cases "bm_get (st_nodes s) k") (auto simp: s' update_node_def get_update_row bmap_simps retry_key_def)
qed

lemma activate_retries_effect:
  assumes "fold_r (activate_retry en at_ms) rs s = Ok s'"
  shows "bm_get (st_retry_schedules s') k = (if k \<in> retry_key ` set rs then None else bm_get (st_retry_schedules s) k) \<and>
    map_option nr_status (bm_get (st_nodes s') k) =
      map_option (\<lambda>row. if k \<in> retry_key ` set rs \<and> nr_status row = NS_Retrying then NS_Ready else nr_status row) (bm_get (st_nodes s) k)"
  using assms
proof (induction rs arbitrary: s)
  case (Cons r rs)
  then obtain s1 where s1: "activate_retry en at_ms r s = Ok s1" "fold_r (activate_retry en at_ms) rs s1 = Ok s'"
    by (auto simp: bind_r_eq_Ok)
  from Cons.IH [OF s1(2)] activate_retry_effect [OF s1(1), of k] show ?case
    by (cases "bm_get (st_nodes s) k"; cases "bm_get (st_nodes s1) k") auto
qed (simp add: option.map_ident)

lemma set_due_retries:
  "set (due_retries only at_ms s) =
   {r. \<exists>k c. (k, r, c) \<in> set (st_retry_schedules s) \<and> rsch_next_attempt_at_ms r \<le> at_ms \<and> is_none_or only (\<lambda>run. rsch_run_id r = run)}"
  by (cases only) (force simp: due_retries_def Let_def)+

lemma sorted_key_fst: "sorted (map f xs) \<Longrightarrow> (\<And>x y. f x \<le> f y \<Longrightarrow> g x \<le> g y) \<Longrightarrow> sorted (map g xs)"
  for f :: "'a \<Rightarrow> 'b::linorder" and g :: "'a \<Rightarrow> 'c::linorder"
  by (induction xs) auto

lemma sorted_due_retries: "sorted (map rsch_next_attempt_at_ms (due_retries only at_ms s))"
proof -
  have "sorted (map rsch_next_attempt_at_ms (sort_key (\<lambda>r. (rsch_next_attempt_at_ms r, rsch_node_id r)) xs))" for xs :: "retry_schedule list"
    by (rule sorted_key_fst [OF sorted_sort_key]) (auto simp: less_eq_prod_def)
  moreover have "sorted (map rsch_next_attempt_at_ms (sort_key (\<lambda>r. (rsch_next_attempt_at_ms r, rsch_run_id r, rsch_node_id r)) xs))" for xs :: "retry_schedule list"
    by (rule sorted_key_fst [OF sorted_sort_key]) (auto simp: less_eq_prod_def)
  ultimately show ?thesis by (simp add: due_retries_def Let_def split: option.split)
qed

text \<open>
  C19. Activation takes up exactly the retries that are due: those of the run asked for, or of all runs,
  whose time has come are returned in the order of their times and leave the table, the others stay,
  and of the nodes exactly those of the returned retries that are waiting to be retried become ready.
\<close>

theorem due_retries_activated:
  assumes "activate_due_retries_matching en only at_ms s = (s', Ok rs)"
  shows "set rs = {r. \<exists>k c. (k, r, c) \<in> set (st_retry_schedules s) \<and> rsch_next_attempt_at_ms r \<le> at_ms \<and>
      is_none_or only (\<lambda>run. rsch_run_id r = run)} \<and>
    sorted (map rsch_next_attempt_at_ms rs) \<and>
    (\<forall>k. bm_get (st_retry_schedules s') k = (if k \<in> retry_key ` set rs then None else bm_get (st_retry_schedules s) k)) \<and>
    (\<forall>k. map_option nr_status (bm_get (st_nodes s') k) =
       map_option (\<lambda>row. if k \<in> retry_key ` set rs \<and> nr_status row = NS_Retrying then NS_Ready else nr_status row)
         (bm_get (st_nodes s) k))"
proof -
  from assms have rs: "rs = due_retries only at_ms s" and fold: "fold_r (activate_retry en at_ms) rs s = Ok s'"
    by (auto simp: activate_due_retries_matching_def transaction_def Let_def bind_r_eq_Ok split: sum.splits)
  show ?thesis
    using activate_retries_effect [OF fold] set_due_retries [of only at_ms s] sorted_due_retries [of only at_ms s]
    by (simp add: rs)
qed

definition test_schedule :: retry_schedule where
  "test_schedule =
     \<lparr>rsch_run_id = ''run'', rsch_node_id = ''a'', rsch_prior_attempt = 1, rsch_next_attempt = 2,
      rsch_classification = FC_RateLimited, rsch_chosen_delay_ms = 50, rsch_next_attempt_at_ms = 60,
      rsch_retry_after_ms = None, rsch_jitter_ms = 0, rsch_equivalent_failure_count = 1, rsch_no_progress_count = 1\<rparr>"

definition retrying_run :: "kept_text store" where
  "retrying_run = fst (schedule_retry plain_engine test_schedule 10 leased_run)"

lemma retrying_run_fields [simp]:
  "st_runs retrying_run = st_runs stored_run" "st_retry_schedules retrying_run = [((''run'', ''a''), test_schedule, 10)]"
  "map_option nr_status (bm_get (st_nodes retrying_run) (''run'', ''a'')) = Some NS_Retrying"
  unfolding retrying_run_def
  by (simp_all add: schedule_retry_def in_run_def ensure_run_def u64_column_def with_unit_def insert_history_def
      test_schedule_def leased_run_retries lease_eval end_lease_def)

theorem due_retries_activated_witness:
  "snd (activate_due_retries_matching plain_engine None 60 retrying_run) = Ok [test_schedule] \<and>
   map_option nr_status (bm_get (st_nodes (fst (activate_due_retries_matching plain_engine None 60 retrying_run))) (''run'', ''a'')) =
     Some NS_Ready"
proof -
  let ?r = "activate_due_retries_matching plain_engine None 60 retrying_run"
  have "snd ?r = Ok [test_schedule]"
    by (simp add: activate_due_retries_matching_def transaction_def due_retries_def activate_retry_def record_event_def
        insert_event_tx_def references_def constraint_def json_def bm_contains_def bm_get_def Let_def)
      (simp add: test_schedule_def)
  moreover from this have "?r = (fst ?r, Ok [test_schedule])" by (simp add: prod_eq_iff)
  from due_retries_activated [OF this, THEN conjunct2, THEN conjunct2, THEN conjunct2, THEN spec, of "(''run'', ''a'')"]
  have "map_option nr_status (bm_get (st_nodes (fst ?r)) (''run'', ''a'')) = Some NS_Ready"
    using retrying_run_fields(3) by (cases "bm_get (st_nodes retrying_run) (''run'', ''a'')") (simp_all add: retry_key_def test_schedule_def)
  ultimately show ?thesis by simp
qed


section \<open>Coordinators\<close>

text \<open>
  What may happen to the store while a coordinator holds the lease on \<open>scope\<close> until \<open>t\<close>: other scopes
  change hands, other owners try their luck before \<open>t\<close>, and any operation that leaves the leases alone.
\<close>

inductive rival_op :: "string \<Rightarrow> string \<Rightarrow> i64 \<Rightarrow> 'j store \<Rightarrow> 'j store \<Rightarrow> bool"
  for scope owner t where
  rival_acquire: "scope' \<noteq> scope \<or> owner' \<noteq> owner \<and> at_ms < t \<Longrightarrow>
    rival_op scope owner t s (fst (try_acquire_coordinator scope' owner' at_ms ttl_ms s))"
| rival_heartbeat: "scope' \<noteq> scope \<or> owner' \<noteq> owner \<Longrightarrow>
    rival_op scope owner t s (fst (heartbeat_coordinator scope' owner' at_ms ttl_ms s))"
| rival_other: "st_coordinators s' = st_coordinators s \<Longrightarrow> rival_op scope owner t s s'"

lemma rival_keeps_lease:
  assumes "rival_op scope owner t s s'" and "bm_get (st_coordinators s) scope = Some row"
    and "co_owner row = owner" "co_expires_at_ms row = t"
  shows "bm_get (st_coordinators s') scope = Some row"
  using assms
  by (induction rule: rival_op.induct)
    (auto simp: try_acquire_coordinator_def heartbeat_coordinator_def Let_def bmap_simps get_update_row)

text \<open>
  C16. Mutual exclusion of coordinators: after a coordinator has acquired a scope, and whatever other
  owners try before its lease runs out, it still holds the lease with its time of expiry, no other owner
  can acquire or renew it before that time, and the holder can renew it.
\<close>

theorem coordinator_exclusive:
  assumes "try_acquire_coordinator scope owner at_ms ttl_ms s = (s1, True)"
    and "(rival_op scope owner (i64_sat_add at_ms (max ttl_ms 1)))\<^sup>*\<^sup>* s1 s2"
    and "owner' \<noteq> owner" and "now < i64_sat_add at_ms (max ttl_ms 1)"
  shows "store_coordinator_lease s2 scope =
      Some \<lparr>cl_scope = scope, cl_owner = owner, cl_expires_at_ms = i64_sat_add at_ms (max ttl_ms 1), cl_heartbeat_at_ms = at_ms\<rparr> \<and>
    try_acquire_coordinator scope owner' now ttl_ms' s2 = (s2, False) \<and>
    heartbeat_coordinator scope owner' now ttl_ms' s2 = (s2, False) \<and>
    snd (heartbeat_coordinator scope owner now ttl_ms' s2)"
proof -
  let ?row = "\<lparr>co_owner = owner, co_expires_at_ms = i64_sat_add at_ms (max ttl_ms 1), co_heartbeat_at_ms = at_ms\<rparr>"
  have "bm_get (st_coordinators s1) scope = Some ?row"
    using assms(1) by (auto simp: try_acquire_coordinator_def Let_def bmap_simps split: if_splits)
  with assms(2) have "bm_get (st_coordinators s2) scope = Some ?row"
    by (induction rule: rtranclp_induct) (auto intro: rival_keeps_lease)
  then show ?thesis
    using assms(3,4)
    by (simp add: store_coordinator_lease_def try_acquire_coordinator_def heartbeat_coordinator_def Let_def update_row_def)
qed

theorem coordinator_exclusive_witness:
  "try_acquire_coordinator ''db'' ''other'' 9 5
     (fst (try_acquire_coordinator ''db'' ''me'' 0 10 (empty_store :: kept_text store))) =
   (fst (try_acquire_coordinator ''db'' ''me'' 0 10 empty_store), False)"
proof -
  have "try_acquire_coordinator ''db'' ''me'' 0 10 (empty_store :: kept_text store) =
      (fst (try_acquire_coordinator ''db'' ''me'' 0 10 empty_store), True)"
    by (simp add: try_acquire_coordinator_def empty_store_def bm_get_def)
  from coordinator_exclusive [OF this rtranclp.rtrancl_refl, of "''other''" 9 5] show ?thesis
    by (simp add: i64_sat_add_def i64_sat_def i64_max_def i64_min_def)
qed

section \<open>Where the store differs from what it means to do\<close>

text \<open>
  An output whose usage breaks a limit is refused, and the refusal rolls back: the usage is not charged,
  the stop is not recorded and the node stays leased.
\<close>

lemma over_budget_output_lost:
  assumes "bm_get (st_nodes s) (run_id, nid) = Some row" and "nr_attempt row = attempt"
    and "load_ledger en run_id s = Ok l" and "reconcile l (run_id, nid, attempt) usage = (l', Err e)"
  shows "accept_output_and_reconcile en run_id nid attempt out usage at_ms s = (s, Err (STE_Budget e))"
  using assms
  by (simp add: accept_output_and_reconcile_def accept_and_reconcile_tx_def transaction_def settle_reservation_def)

text \<open>A run stopped by its budget counts as one to be recovered.\<close>

lemma budget_stopped_is_recovered:
  "bm_get (st_runs s) run_id = Some row \<Longrightarrow> ru_status row = RS_BudgetStopped \<Longrightarrow>
   run_id \<in> rr_run_id ` set (nonterminal_runs s)"
  by (force simp: nonterminal_runs_def terminal_run_statuses_def bm_get_def dest!: map_of_SomeD)

text \<open>At the last attempt number \<open>lease_node\<close> starts again from zero.\<close>

lemma lease_node_wraps:
  assumes "bm_get (st_nodes s) (run_id, nid) = Some row" and "nr_attempt row = - 1" and "may_lease (nr_status row)"
    and "lease_node en run_id nid owner ttl_ms now s = (s', Ok (Some lease))"
  shows "nl_attempt lease = 0"
  using assms by (auto simp: lease_node_def Let_def transaction_def bind_r_eq_Ok split: sum.splits)

text \<open>The texts of the statuses are read back to the same status.\<close>

lemma run_status_text_inject: "run_status_text a = run_status_text b \<longleftrightarrow> a = b"
  by (cases a; cases b) simp_all

lemma node_status_text_inject: "node_status_text a = node_status_text b \<longleftrightarrow> a = b"
  by (cases a; cases b) simp_all

end
