(* ===== verification/Runtime.thy ===== *)
theory Runtime
  imports Store_Properties
begin

text \<open>
  Recovery, \<^verbatim>\<open>agent_graph/runtime.rs\<close>: a manager acquires the coordinator lease of the database and takes
  up every run that has not ended, stopping those past their wall-time limit and settling the leases of
  the others. An operation on the store returns the new store with its result, since what was committed
  before an error stays. The clock of the manager is the argument \<open>at_ms\<close>; the one the store reads in
  each of its operations is a function \<open>clock\<close> of the store it finds. The tasks that call these
  operations on a timer are not modelled.

  The lemmas show what a recovery leaves behind: no node of a run it has taken up is leased any more,
  and every reservation of an expired lease is settled.
\<close>

section \<open>Definitions\<close>

definition COORDINATOR_TTL_MS :: i64 where
  "COORDINATOR_TTL_MS = 15000"

record recovery_report =
  rep_acquired_coordinator :: bool
  rep_inspected_runs :: nat
  rep_stale_attempts :: nat
  rep_retries_scheduled :: nat
  rep_retries_activated :: nat
  rep_wall_time_stops :: nat
  rep_manual_interventions :: nat

definition default_recovery_report :: recovery_report where
  "default_recovery_report =
     \<lparr>rep_acquired_coordinator = False, rep_inspected_runs = 0, rep_stale_attempts = 0,
      rep_retries_scheduled = 0, rep_retries_activated = 0, rep_wall_time_stops = 0,
      rep_manual_interventions = 0\<rparr>"

text \<open>\<open>?\<close> after an operation on a state.\<close>

definition and_then ::
  "'s \<times> ('e, 'a) result \<Rightarrow> ('a \<Rightarrow> 's \<Rightarrow> 's \<times> ('e, 'b) result) \<Rightarrow> 's \<times> ('e, 'b) result" where
  "and_then m f = (case m of (s, Inl e) \<Rightarrow> (s, Err e) | (s, Inr v) \<Rightarrow> f v s)"

definition past_wall_time :: "graph_spec \<Rightarrow> recoverable_run \<Rightarrow> i64 \<Rightarrow> bool" where
  "past_wall_time spec run at_ms \<longleftrightarrow>
     is_some_and (gb_max_wall_time_seconds (sb_budgets (gs_spec spec))) (\<lambda>seconds.
       i64_sat_add (rr_created_at_ms run) (u64_as_i64 (sat_mul seconds 1000)) \<le> at_ms)"

definition safe_to_retry :: "graph_spec \<Rightarrow> node_spec \<Rightarrow> bool" where
  "safe_to_retry spec node \<longleftrightarrow>
     effective_capability node (sb_defaults (gs_spec spec)) = CM_ReadOnly \<or>
     ns_idempotency_policy node = IP_Idempotent"

text \<open>What becomes of the node of an expired lease.\<close>

definition ask_for_help ::
  "'j engine \<Rightarrow> ('j store \<Rightarrow> i64) \<Rightarrow> string \<Rightarrow> recovery_report \<Rightarrow> 'j store
   \<Rightarrow> 'j store \<times> (store_error, recovery_report) result" where
  "ask_for_help en clock run_id rep s =
     and_then (mark_run_status en run_id RS_ManualInterventionRequired (clock s) s) (\<lambda>_ s.
     (s, Ok (rep\<lparr>rep_manual_interventions := rep_manual_interventions rep + 1\<rparr>)))"

definition retry_stale_node ::
  "'j engine \<Rightarrow> ('j store \<Rightarrow> i64) \<Rightarrow> i64 \<Rightarrow> recoverable_run \<Rightarrow> node_spec \<Rightarrow> node_state_snapshot \<Rightarrow> recovery_report
   \<Rightarrow> 'j store \<Rightarrow> 'j store \<times> (store_error, recovery_report) result" where
  "retry_stale_node en clock at_ms run node state rep s =
     and_then (s, retry_history_totals s (rr_run_id run) (nss_node_id state)) (\<lambda>(delay, equivalent, no_progress) s.
     case decide_retry (rr_run_id run) node (nss_attempt state) FC_WorkerProcessFailed at_ms (rr_created_at_ms run)
            delay equivalent no_progress None of
       RD_Schedule schedule \<Rightarrow>
         and_then (schedule_retry en schedule (clock s) s) (\<lambda>_ s.
         (s, Ok (rep\<lparr>rep_retries_scheduled := rep_retries_scheduled rep + 1\<rparr>)))
     | RD_Stop _ \<Rightarrow>
         and_then (mark_run_status en (rr_run_id run) RS_PartiallyCompleted (clock s) s) (\<lambda>_ s. (s, Ok rep)))"

definition handle_stale_node ::
  "'j engine \<Rightarrow> ('j store \<Rightarrow> i64) \<Rightarrow> i64 \<Rightarrow> graph_spec \<Rightarrow> recoverable_run \<Rightarrow> node_state_snapshot \<Rightarrow> recovery_report
   \<Rightarrow> 'j store \<Rightarrow> 'j store \<times> (store_error, recovery_report) result" where
  "handle_stale_node en clock at_ms spec run state rep s =
     (case find (\<lambda>node. ns_id node = nss_node_id state) (sb_nodes (gs_spec spec)) of
        None \<Rightarrow> ask_for_help en clock (rr_run_id run) rep s
      | Some node \<Rightarrow>
          if safe_to_retry spec node then retry_stale_node en clock at_ms run node state rep s
          else ask_for_help en clock (rr_run_id run) rep s)"

definition recover_node ::
  "'j engine \<Rightarrow> ('j store \<Rightarrow> i64) \<Rightarrow> i64 \<Rightarrow> graph_spec \<Rightarrow> recoverable_run \<Rightarrow> node_state_snapshot \<Rightarrow> recovery_report
   \<Rightarrow> 'j store \<Rightarrow> 'j store \<times> (store_error, recovery_report) result" where
  "recover_node en clock at_ms spec run state rep s =
     and_then (append_event en (rr_run_id run) (GE_LeaseExpired (nss_node_id state) (nss_attempt state)) (clock s) s) (\<lambda>_ s.
     handle_stale_node en clock at_ms spec run state (rep\<lparr>rep_stale_attempts := rep_stale_attempts rep + 1\<rparr>) s)"

fun recover_nodes ::
  "'j engine \<Rightarrow> ('j store \<Rightarrow> i64) \<Rightarrow> i64 \<Rightarrow> graph_spec \<Rightarrow> recoverable_run \<Rightarrow> node_state_snapshot list \<Rightarrow> recovery_report
   \<Rightarrow> 'j store \<Rightarrow> 'j store \<times> (store_error, recovery_report) result" where
  "recover_nodes en clock at_ms spec run [] rep s = (s, Ok rep)"
| "recover_nodes en clock at_ms spec run (state # states) rep s =
     and_then (recover_node en clock at_ms spec run state rep s) (\<lambda>rep s.
     recover_nodes en clock at_ms spec run states rep s)"

definition take_up_run ::
  "'j engine \<Rightarrow> ('j store \<Rightarrow> i64) \<Rightarrow> string \<Rightarrow> i64 \<Rightarrow> graph_spec \<Rightarrow> recoverable_run \<Rightarrow> recovery_report \<Rightarrow> 'j store
   \<Rightarrow> 'j store \<times> (store_error, recovery_report) result" where
  "take_up_run en clock owner at_ms spec run rep s =
     and_then (s, replay_run en s (rr_run_id run)) (\<lambda>snapshot s.
     and_then (recover_nodes en clock at_ms spec run
       (filter (\<lambda>state. nss_status state = NS_Leased) (grs_node_states snapshot)) rep s) (\<lambda>rep s.
     and_then (activate_due_retries_for_run en (rr_run_id run) at_ms s) (\<lambda>retries s.
     and_then (append_event en (rr_run_id run) (GE_RunRecovered owner) (clock s) s) (\<lambda>_ s.
     (s, Ok (rep\<lparr>rep_retries_activated := rep_retries_activated rep + length retries\<rparr>))))))"

definition recover_run ::
  "'j engine \<Rightarrow> ('j store \<Rightarrow> i64) \<Rightarrow> string \<Rightarrow> i64 \<Rightarrow> recoverable_run \<Rightarrow> recovery_report \<Rightarrow> 'j store
   \<Rightarrow> 'j store \<times> (store_error, recovery_report) result" where
  "recover_run en clock owner at_ms run rep0 s =
     (let rep = rep0\<lparr>rep_inspected_runs := rep_inspected_runs rep0 + 1\<rparr>
      in and_then (s, graph_spec_for_run en s (rr_run_id run)) (\<lambda>spec s.
         if past_wall_time spec run at_ms
         then and_then (mark_run_status en (rr_run_id run) RS_BudgetStopped (clock s) s) (\<lambda>_ s.
                (s, Ok (rep\<lparr>rep_wall_time_stops := rep_wall_time_stops rep + 1\<rparr>)))
         else take_up_run en clock owner at_ms spec run rep s))"

fun recover_runs ::
  "'j engine \<Rightarrow> ('j store \<Rightarrow> i64) \<Rightarrow> string \<Rightarrow> i64 \<Rightarrow> recoverable_run list \<Rightarrow> recovery_report \<Rightarrow> 'j store
   \<Rightarrow> 'j store \<times> (store_error, recovery_report) result" where
  "recover_runs en clock owner at_ms [] rep s = (s, Ok rep)"
| "recover_runs en clock owner at_ms (run # runs) rep s =
     and_then (recover_run en clock owner at_ms run rep s) (\<lambda>rep s.
     recover_runs en clock owner at_ms runs rep s)"

definition open_store :: "'j store \<Rightarrow> 'j store \<times> (store_error, unit) result" where
  "open_store s = (case migrate s of Inl e \<Rightarrow> (s, Err e) | Inr s' \<Rightarrow> (s', Ok ()))"

definition recover_once ::
  "'j engine \<Rightarrow> ('j store \<Rightarrow> i64) \<Rightarrow> string \<Rightarrow> string \<Rightarrow> i64 \<Rightarrow> 'j store
   \<Rightarrow> 'j store \<times> (store_error, recovery_report) result" where
  "recover_once en clock scope owner at_ms s =
     and_then (open_store s) (\<lambda>_ s.
     case try_acquire_coordinator scope owner at_ms COORDINATOR_TTL_MS s of
       (s, False) \<Rightarrow> (s, Ok default_recovery_report)
     | (s, True) \<Rightarrow>
         recover_runs en clock owner at_ms (nonterminal_runs s)
           (default_recovery_report\<lparr>rep_acquired_coordinator := True\<rparr>) s)"

definition heartbeat ::
  "string \<Rightarrow> string \<Rightarrow> i64 \<Rightarrow> 'j store \<Rightarrow> 'j store \<times> (store_error, bool) result" where
  "heartbeat scope owner at_ms s =
     and_then (open_store s) (\<lambda>_ s.
     case heartbeat_coordinator scope owner at_ms COORDINATOR_TTL_MS s of (s, held) \<Rightarrow> (s, Ok held))"


section \<open>What recovery keeps\<close>

text \<open>Events that do not lease a node.\<close>

fun calm :: "graph_event \<Rightarrow> bool" where
  "calm (GE_NodeLeased nid a owner t) = False"
| "calm (GE_NodeStatusChanged nid status) = (status \<noteq> NS_Leased)"
| "calm (GE_NodeOutputAccepted nid a status) = (status \<noteq> NS_Leased)"
| "calm e = True"

text \<open>No node is leased that was not leased before at the same attempt, no reservation is added, and the
  graphs of the runs stay.\<close>

definition recovers :: "'j store \<Rightarrow> 'j store \<Rightarrow> bool" where
  "recovers s s' \<longleftrightarrow>
     (\<forall>k row'. bm_get (st_nodes s') k = Some row' \<longrightarrow> nr_status row' = NS_Leased \<longrightarrow>
        (\<exists>row. bm_get (st_nodes s) k = Some row \<and> nr_status row = NS_Leased \<and> nr_attempt row = nr_attempt row')) \<and>
     (\<forall>k. bm_contains (st_reservations s') k \<longrightarrow> bm_contains (st_reservations s) k) \<and>
     (\<forall>r. spec_json_for_run s' r = spec_json_for_run s r)"

lemma recovers_refl [simp]: "recovers s s"
  by (auto simp: recovers_def)

lemma recovers_trans: "recovers s t \<Longrightarrow> recovers t u \<Longrightarrow> recovers s u"
  unfolding recovers_def by metis

lemma recovers_same:
  "st_nodes s' = st_nodes s \<Longrightarrow> st_reservations s' = st_reservations s \<Longrightarrow> st_runs s' = st_runs s \<Longrightarrow>
   st_specs s' = st_specs s \<Longrightarrow> recovers s s'"
  by (auto simp: recovers_def spec_json_for_run_def split: option.split)

lemma recovers_node:
  assumes "\<And>row. bm_get (st_nodes s) (r, n) = Some row \<Longrightarrow> nr_status (f row) \<noteq> NS_Leased"
  shows "recovers s (update_node r n p f s)"
  using assms
  by (auto simp: recovers_def update_node_def get_update_row spec_json_for_run_def split: if_splits option.split)

lemma recovers_run:
  assumes "\<And>row. ru_spec_hash (f row) = ru_spec_hash row"
  shows "recovers s (update_run r f s)"
  using assms
  by (auto simp: recovers_def update_run_def get_update_row spec_json_for_run_def split: option.split)

lemma recovers_leases: "recovers s t \<Longrightarrow> recovers s (t\<lparr>st_leases := ls\<rparr>)"
  by (erule recovers_trans) (rule recovers_same; simp)

lemma settle_recovers:
  assumes "settle_reservation en k actual at_ms s = Ok s'"
  shows "recovers s s' \<and> st_nodes s' = st_nodes s \<and> \<not> bm_contains (st_reservations s') k"
  using assms
  by (rule settle_OkE)
    (auto simp: save_ledger_def insert_usage_def bind_r_eq_Ok recovers_def spec_json_for_run_def bmap_simps split: option.split)

lemma apply_event_recovers:
  assumes "apply_event_tx en run_id event now s = Ok s'" and "calm event"
  shows "recovers s s'"
proof -
  have status: "recovers s (set_run_status run_id status now s)" for status
    unfolding set_run_status_def by (rule recovers_run) simp
  have node: "recovers s (update_node run_id n p (end_lease status now) s)" if "status \<noteq> NS_Leased" for n p status
    using that by (intro recovers_node) (simp add: end_lease_def)
  from assms show ?thesis
  proof (cases event)
    case (GE_LeaseExpired nid a)
    let ?s1 = "update_node run_id nid (\<lambda>r. nr_attempt r = a) (end_lease NS_Stale now) s"
    let ?s2 = "?s1\<lparr>st_leases := delete_row (run_id, nid) (\<lambda>l. lr_attempt l = a) (st_leases ?s1)\<rparr>"
    have "recovers s ?s2" by (intro recovers_leases node) simp
    moreover have "recovers ?s2 s'"
      using assms(1) GE_LeaseExpired
      by (auto simp: Let_def reconcile_budget_tx_def dest: settle_recovers split: if_splits)
    ultimately show ?thesis by (rule recovers_trans)
  qed (auto simp: Let_def end_lease_def intro!: status recovers_leases recovers_node recovers_run)
qed

lemma insert_event_recovers: "insert_event_tx en run_id event now s = Ok s' \<Longrightarrow> recovers s s'"
  by (drule insert_event_Ok) (auto intro: recovers_same)

lemma record_event_recovers:
  assumes "record_event en run_id event now s = Ok s'" and "calm event"
  shows "recovers s s'"
proof -
  from assms(1) obtain s1 where "insert_event_tx en run_id event now s = Ok s1" "apply_event_tx en run_id event now s1 = Ok s'"
    by (auto simp: record_event_def bind_r_eq_Ok)
  then show ?thesis
    using recovers_trans [OF insert_event_recovers apply_event_recovers [OF _ assms(2)]] by blast
qed

lemma transaction_recovers:
  assumes "\<And>s' v. body s = Ok (s', v) \<Longrightarrow> recovers s s'"
  shows "recovers s (fst (transaction body s))"
  using assms by (auto simp: transaction_def split: sum.split prod.split)

lemma in_run_recovers: "recovers s (fst (f s)) \<Longrightarrow> recovers s (fst (in_run run_id f s))"
  by (simp add: in_run_def split: sum.split)

lemma append_event_recovers: "calm event \<Longrightarrow> recovers s (fst (append_event en run_id event now s))"
  unfolding append_event_def
  by (intro in_run_recovers transaction_recovers) (auto intro: record_event_recovers)

lemma schedule_retry_recovers: "recovers s (fst (schedule_retry en schedule now s))"
proof -
  have "recovers s s'"
    if "record_event en run_id (GE_RetryScheduled schedule) now (insert_history k row (s\<lparr>st_retry_schedules := rs\<rparr>)) = Ok s'"
    for s' run_id k row rs
  proof -
    have "recovers s (insert_history k row (s\<lparr>st_retry_schedules := rs\<rparr>))"
      by (rule recovers_same) (simp_all add: insert_history_def)
    then show ?thesis by (rule recovers_trans) (rule record_event_recovers [OF that], simp)
  qed
  then show ?thesis
    unfolding schedule_retry_def Let_def
    by (intro in_run_recovers transaction_recovers) (auto simp: bind_r_eq_Ok)
qed

lemma activate_recovers:
  "fold_r (activate_retry en at_ms) rs s = Ok s' \<Longrightarrow> recovers s s'"
proof (induction rs arbitrary: s)
  case (Cons r rs)
  then obtain s1 where s1: "activate_retry en at_ms r s = Ok s1" "fold_r (activate_retry en at_ms) rs s1 = Ok s'"
    by (auto simp: bind_r_eq_Ok)
  from s1(1) obtain s0 where
      s0: "record_event en (rsch_run_id r) (GE_RetryReady (rsch_node_id r) (rsch_next_attempt r)) at_ms s = Ok s0"
    and eq: "s1 = s0\<lparr>st_retry_schedules := bm_remove (rsch_run_id r, rsch_node_id r) (st_retry_schedules s0)\<rparr>"
    by (auto simp: activate_retry_def bind_r_eq_Ok)
  have "recovers s s0" by (rule record_event_recovers [OF s0]) simp
  moreover have "recovers s0 s1" by (rule recovers_same) (simp_all add: eq)
  ultimately show ?case using Cons.IH [OF s1(2)] by (blast intro: recovers_trans)
qed simp

lemma activate_due_recovers: "recovers s (fst (activate_due_retries_matching en only at_ms s))"
  unfolding activate_due_retries_matching_def Let_def
  by (intro transaction_recovers) (auto simp: bind_r_eq_Ok intro: activate_recovers)


text \<open>The chain of operations of a recovery: errors leave the store of the last step.\<close>

lemma and_then_recovers:
  assumes "recovers s (fst m)" and "\<And>v s1. m = (s1, Ok v) \<Longrightarrow> recovers s1 (fst (f v s1))"
  shows "recovers s (fst (and_then m f))"
proof (cases m)
  case (Pair s1 res)
  then show ?thesis
    using assms recovers_trans [of s s1] by (cases res) (auto simp: and_then_def)
qed

lemma and_then_Ok:
  "and_then m f = (s', Ok v) \<longleftrightarrow> (\<exists>s1 w. m = (s1, Ok w) \<and> f w s1 = (s', Ok v))"
  by (cases m; cases "snd m") (auto simp: and_then_def)

lemma ask_for_help_recovers: "recovers s (fst (ask_for_help en clock run_id rep s))"
  unfolding ask_for_help_def mark_run_status_def
  by (intro and_then_recovers append_event_recovers) simp_all

lemma retry_stale_recovers: "recovers s (fst (retry_stale_node en clock at_ms run node state rep s))"
  unfolding retry_stale_node_def mark_run_status_def
  by (intro and_then_recovers)
    (auto split: retry_decision.split intro!: and_then_recovers append_event_recovers schedule_retry_recovers)

lemma handle_stale_recovers: "recovers s (fst (handle_stale_node en clock at_ms spec run state rep s))"
  by (auto simp: handle_stale_node_def ask_for_help_recovers retry_stale_recovers split: option.split)

lemma recover_node_recovers: "recovers s (fst (recover_node en clock at_ms spec run state rep s))"
  unfolding recover_node_def
  by (intro and_then_recovers append_event_recovers handle_stale_recovers) simp

lemma recover_nodes_recovers: "recovers s (fst (recover_nodes en clock at_ms spec run states rep s))"
  by (induction states arbitrary: rep s) (auto intro!: and_then_recovers recover_node_recovers)

lemma take_up_run_recovers: "recovers s (fst (take_up_run en clock owner at_ms spec run rep s))"
  unfolding take_up_run_def activate_due_retries_for_run_def
  by (intro and_then_recovers recover_nodes_recovers activate_due_recovers append_event_recovers) simp_all

lemma recover_run_recovers: "recovers s (fst (recover_run en clock owner at_ms run rep s))"
  unfolding recover_run_def Let_def mark_run_status_def
  by (intro and_then_recovers) (auto intro!: and_then_recovers append_event_recovers take_up_run_recovers)

lemma recover_runs_recovers: "recovers s (fst (recover_runs en clock owner at_ms runs rep s))"
  by (induction runs arbitrary: rep s) (auto intro!: and_then_recovers recover_run_recovers)

section \<open>Leases after recovery\<close>

text \<open>A node without a lease at an attempt whose reservation is settled.\<close>

definition settled :: "string \<Rightarrow> node_id \<Rightarrow> u32 \<Rightarrow> 'j store \<Rightarrow> bool" where
  "settled r n a s \<longleftrightarrow>
     (\<forall>row. bm_get (st_nodes s) (r, n) = Some row \<longrightarrow> nr_attempt row = a \<longrightarrow> nr_status row \<noteq> NS_Leased) \<and>
     \<not> bm_contains (st_reservations s) (r, n, a)"

lemma settled_kept: "settled r n a s \<Longrightarrow> recovers s s' \<Longrightarrow> settled r n a s'"
  unfolding settled_def recovers_def by metis

lemma expired_settled:
  assumes "append_event en r (GE_LeaseExpired n a) now s = (s', Ok u)"
  shows "settled r n a s'"
proof -
  from assms obtain s1 where s1: "apply_event_tx en r (GE_LeaseExpired n a) now s1 = Ok s'"
    by (auto simp: append_event_def in_run_def ensure_run_def transaction_def record_event_def bind_r_eq_Ok
        split: if_splits sum.splits)
  let ?s2 = "(update_node r n (\<lambda>row. nr_attempt row = a) (end_lease NS_Stale now) s1)
      \<lparr>st_leases := delete_row (r, n) (\<lambda>l. lr_attempt l = a) (st_leases s1)\<rparr>"
  have stale: "\<forall>row. bm_get (st_nodes ?s2) (r, n) = Some row \<longrightarrow> nr_attempt row = a \<longrightarrow> nr_status row \<noteq> NS_Leased"
    by (cases "bm_get (st_nodes s1) (r, n)") (simp_all add: update_node_def get_update_row end_lease_def)
  show ?thesis
  proof (cases "bm_contains (st_reservations ?s2) (r, n, a)")
    case True
    then have "settle_reservation en (r, n, a) None now ?s2 = Ok s'"
      using s1 by (simp add: Let_def reconcile_budget_tx_def)
    from settle_recovers [OF this] stale show ?thesis by (auto simp: settled_def)
  next
    case False
    then have "s' = ?s2" using s1 by (simp add: Let_def reconcile_budget_tx_def)
    with stale False show ?thesis by (simp add: settled_def)
  qed
qed

lemma recover_node_settles:
  assumes "recover_node en clock at_ms spec run state rep s = (s', Ok rep')"
  shows "settled (rr_run_id run) (nss_node_id state) (nss_attempt state) s'"
proof -
  from assms obtain s1 u rep1 where
      s1: "append_event en (rr_run_id run) (GE_LeaseExpired (nss_node_id state) (nss_attempt state)) (clock s) s = (s1, Ok u)"
    and "handle_stale_node en clock at_ms spec run state rep1 s1 = (s', Ok rep')"
    by (auto simp: recover_node_def and_then_Ok)
  then have "recovers s1 s'" using handle_stale_recovers by (metis fst_conv)
  with expired_settled [OF s1] show ?thesis by (rule settled_kept)
qed

lemma recover_nodes_settle:
  assumes "recover_nodes en clock at_ms spec run states rep s = (s', Ok rep')" and "state \<in> set states"
  shows "settled (rr_run_id run) (nss_node_id state) (nss_attempt state) s'"
  using assms
proof (induction states arbitrary: rep s)
  case (Cons st sts)
  then obtain s1 rep1 where s1: "recover_node en clock at_ms spec run st rep s = (s1, Ok rep1)"
      "recover_nodes en clock at_ms spec run sts rep1 s1 = (s', Ok rep')"
    by (auto simp: and_then_Ok)
  show ?case
  proof (cases "state = st")
    case True
    have "recovers s1 s'" using recover_nodes_recovers [of s1 en clock at_ms spec run sts rep1] s1(2) by simp
    with recover_node_settles [OF s1(1)] True show ?thesis by (auto intro: settled_kept)
  next
    case False
    with Cons.prems(2) Cons.IH [OF s1(2)] show ?thesis by simp
  qed
qed simp


lemma related_member: "list_all2 P xs ys \<Longrightarrow> x \<in> set xs \<Longrightarrow> \<exists>y \<in> set ys. P x y"
  by (induction rule: list_all2_induct) auto

lemma snapshot_covers:
  assumes "replay_run en s run_id = Ok view" and "bm_get (st_nodes s) (run_id, n) = Some row"
  obtains state where "state \<in> set (grs_node_states view)" "nss_node_id state = n"
    "nss_status state = nr_status row" "nss_attempt state = nr_attempt row"
proof -
  from assms(1) obtain states where states: "grs_node_states view = states"
      "list_all2 (\<lambda>x y. node_snapshot en (snd (fst x)) (snd x) = Ok y)
         (filter (\<lambda>((r, _), _). r = run_id) (st_nodes s)) states"
    by (auto simp: replay_run_def bind_r_eq_Ok map_r_Ok split_beta)
  have "((run_id, n), row) \<in> set (filter (\<lambda>((r, _), _). r = run_id) (st_nodes s))"
    using assms(2) by (simp add: bm_get_def map_of_SomeD)
  then obtain state where "state \<in> set states" "node_snapshot en n row = Ok state"
    using related_member [OF states(2)] by fastforce
  then show thesis using that states(1) by (auto simp: node_snapshot_def bind_r_eq_Ok)
qed

lemma take_up_run_settles:
  assumes "take_up_run en clock owner at_ms spec run rep s = (s', Ok rep')"
    and row: "bm_get (st_nodes s) (rr_run_id run, n) = Some row" "nr_status row = NS_Leased"
  shows "settled (rr_run_id run) n (nr_attempt row) s'"
proof -
  from assms(1) obtain view s1 rep1 s2 rs u where snap: "replay_run en s (rr_run_id run) = Ok view"
    and s1: "recover_nodes en clock at_ms spec run (filter (\<lambda>state. nss_status state = NS_Leased) (grs_node_states view)) rep s
      = (s1, Ok rep1)"
    and s2: "activate_due_retries_for_run en (rr_run_id run) at_ms s1 = (s2, Ok rs)"
    and s': "append_event en (rr_run_id run) (GE_RunRecovered owner) (clock s2) s2 = (s', Ok u)"
    by (auto simp: take_up_run_def and_then_Ok)
  from snapshot_covers [OF snap row(1)] obtain state where "state \<in> set (grs_node_states view)"
    "nss_node_id state = n" "nss_status state = nr_status row" "nss_attempt state = nr_attempt row" .
  with recover_nodes_settle [OF s1, of state] row(2) have "settled (rr_run_id run) n (nr_attempt row) s1" by simp
  moreover have "recovers s1 s2"
    using activate_due_recovers [of s1 en "Some (rr_run_id run)" at_ms] s2 by (simp add: activate_due_retries_for_run_def)
  moreover have "recovers s2 s'" using append_event_recovers [of "GE_RunRecovered owner" s2] s' by (metis calm.simps(10) fst_conv)
  ultimately show ?thesis by (blast intro: settled_kept)
qed

lemma recover_run_settles:
  assumes "recover_run en clock owner at_ms run rep s = (s', Ok rep')" and "graph_spec_for_run en s (rr_run_id run) = Ok spec"
    and "\<not> past_wall_time spec run at_ms"
    and "bm_get (st_nodes s) (rr_run_id run, n) = Some row" "nr_status row = NS_Leased"
  shows "settled (rr_run_id run) n (nr_attempt row) s'"
  using assms by (auto simp: recover_run_def Let_def and_then_def intro: take_up_run_settles)

text \<open>Whatever the runs before and after it, a run that is taken up has no lease left.\<close>

lemma recover_runs_no_lease:
  assumes "recover_runs en clock owner at_ms runs rep s = (s', Ok rep')" and "run \<in> set runs"
    and "graph_spec_for_run en s (rr_run_id run) = Ok spec" and "\<not> past_wall_time spec run at_ms"
    and "bm_get (st_nodes s') (rr_run_id run, n) = Some row"
  shows "nr_status row \<noteq> NS_Leased"
  using assms
proof (induction runs arbitrary: rep s)
  case (Cons r rs)
  then obtain s1 rep1 where s1: "recover_run en clock owner at_ms r rep s = (s1, Ok rep1)"
      "recover_runs en clock owner at_ms rs rep1 s1 = (s', Ok rep')"
    by (auto simp: and_then_Ok)
  have rec: "recovers s s1" "recovers s1 s'"
    using recover_run_recovers [of s en clock owner at_ms r rep] recover_runs_recovers [of s1 en clock owner at_ms rs rep1] s1
    by simp_all
  have spec: "graph_spec_for_run en s1 (rr_run_id run) = Ok spec"
    using Cons.prems(3) rec(1) by (simp add: graph_spec_for_run_def recovers_def)
  show ?case
  proof (cases "run \<in> set rs")
    case True
    show ?thesis by (rule Cons.IH [OF s1(2) True spec Cons.prems(4,5)])
  next
    case False
    with Cons.prems(2) have r: "r = run" by simp
    show ?thesis
    proof
      assume leased: "nr_status row = NS_Leased"
      with rec(2) Cons.prems(5) obtain row1 where row1: "bm_get (st_nodes s1) (rr_run_id run, n) = Some row1"
        "nr_status row1 = NS_Leased" "nr_attempt row1 = nr_attempt row"
        unfolding recovers_def by metis
      with rec(1) obtain row0 where row0: "bm_get (st_nodes s) (rr_run_id run, n) = Some row0"
        "nr_status row0 = NS_Leased" "nr_attempt row0 = nr_attempt row"
        unfolding recovers_def by metis
      have "settled (rr_run_id run) n (nr_attempt row0) s1"
        by (rule recover_run_settles [OF _ Cons.prems(3,4) row0(1,2)]) (use s1(1) r in simp)
      with row1 row0(3) show False by (simp add: settled_def)
    qed
  qed
qed simp

text \<open>
  C17. After a recovery that held the coordinator lease, no node of a run that had not ended and was within
  its wall time is leased: every lease it had has been expired, whether or not its time had run out.
\<close>

theorem recovery_clears_leases:
  assumes "recover_once en clock scope owner at_ms s = (s', Ok rep)" and "rep_acquired_coordinator rep"
    and "run \<in> set (nonterminal_runs s)" and "graph_spec_for_run en s (rr_run_id run) = Ok spec"
    and "\<not> past_wall_time spec run at_ms" and "bm_get (st_nodes s') (rr_run_id run, n) = Some row"
  shows "nr_status row \<noteq> NS_Leased"
proof -
  from assms(1,2) obtain s0 s1 where s0: "migrate s = Ok s0" "try_acquire_coordinator scope owner at_ms COORDINATOR_TTL_MS s0 = (s1, True)"
    and r: "recover_runs en clock owner at_ms (nonterminal_runs s1) (default_recovery_report\<lparr>rep_acquired_coordinator := True\<rparr>) s1 = (s', Ok rep)"
    by (auto simp: recover_once_def open_store_def and_then_def default_recovery_report_def split: sum.splits prod.splits bool.splits)
  have same: "st_runs s1 = st_runs s" "st_specs s1 = st_specs s"
    using s0 by (auto simp: migrate_def try_acquire_coordinator_def Let_def split: if_splits)
  have "run \<in> set (nonterminal_runs s1)" using assms(3) same by (simp add: nonterminal_runs_def)
  moreover have "graph_spec_for_run en s1 (rr_run_id run) = Ok spec"
    using assms(4) spec_json_cong [OF same] by (simp add: graph_spec_for_run_def)
  ultimately show ?thesis by (rule recover_runs_no_lease [OF r _ _ assms(5,6)])
qed


text \<open>A recovery at time 5 of a run whose only node is leased until time 10.\<close>

definition taken_up :: "kept_text store \<times> (store_error, recovery_report) result" where
  "taken_up = recover_once plain_engine (\<lambda>_. 5) ''db'' ''me'' 5 leased_run"

lemmas recovery_eval = recover_once_def open_store_def and_then_def migrate_def try_acquire_coordinator_def
  nonterminal_runs_def terminal_run_statuses_def recover_run_def graph_spec_for_run_def spec_json_for_run_def ok_or_def
  past_wall_time_def take_up_run_def replay_run_def node_snapshot_def events_for_run_def column_def
  recover_node_def handle_stale_node_def retry_stale_node_def ask_for_help_def safe_to_retry_def append_event_def in_run_def
  ensure_run_def with_unit_def mark_run_status_def set_run_status_def update_run_def activate_due_retries_for_run_def
  activate_due_retries_matching_def due_retries_def retry_history_totals_def decide_retry_def retryable_def
  reconcile_budget_tx_def settle_reservation_def load_ledger_def query_row_def delete_row_def end_lease_def insert_usage_def
  default_recovery_report_def

definition test_report :: recovery_report where
  "test_report =
     \<lparr>rep_acquired_coordinator = True, rep_inspected_runs = 1, rep_stale_attempts = 1, rep_retries_scheduled = 0,
      rep_retries_activated = 0, rep_wall_time_stops = 0, rep_manual_interventions = 0\<rparr>"

lemma taken_up_report: "recover_once plain_engine (\<lambda>_. 5) ''db'' ''me'' 5 leased_run = (fst taken_up, Ok test_report)"
proof -
  have "snd taken_up = Ok test_report"
    by (simp add: taken_up_def test_report_def recovery_eval leased_run_rest leased_run_retries stored_run_rest lease_eval
        from_persistent_state_def bm_of_list_def minimal_node_def default_retry_policy_def reconcile_def check_limits_def
        u64_limits_def default_graph_budgets_def check_estimated_cost_def check_provider_cost_def)
  then show ?thesis by (simp add: taken_up_def prod_eq_iff)
qed

theorem recovery_clears_leases_witness:
  "map_option nr_lease_expires_at_ms (bm_get (st_nodes leased_run) (''run'', ''a'')) = Some (Some 10) \<and>
   map_option nr_status (bm_get (st_nodes (fst taken_up)) (''run'', ''a'')) \<noteq> Some NS_Leased"
proof -
  let ?run = "\<lparr>rr_run_id = ''run'', rr_status = RS_AwaitingApproval, rr_session_id = None, rr_repo_root = ''/repo'',
      rr_created_at_ms = 0, rr_updated_at_ms = 0\<rparr>"
  have "?run \<in> set (nonterminal_runs leased_run)" by (simp add: nonterminal_runs_def terminal_run_statuses_def)
  moreover have "graph_spec_for_run plain_engine leased_run (rr_run_id ?run) = Ok stored_graph"
    by (simp add: graph_spec_for_run_def spec_json_for_run_def bm_get_def ok_or_def json_def)
  moreover have "\<not> past_wall_time stored_graph ?run 5" by (simp add: past_wall_time_def default_graph_budgets_def)
  moreover have "rep_acquired_coordinator test_report" by (simp add: test_report_def)
  ultimately have "nr_status row \<noteq> NS_Leased" if "bm_get (st_nodes (fst taken_up)) (''run'', ''a'') = Some row" for row
    using recovery_clears_leases [OF taken_up_report, of ?run stored_graph "''a''" row] that by simp
  then show ?thesis by (auto simp: bm_get_def)
qed

end
