(* ===== verification/Model_Selector.thy ===== *)
theory Model_Selector
  imports Graph_Types Rust_Strings
begin

text \<open>
  Model selection: \<^verbatim>\<open>model_selector.rs\<close>.

  A node names a selector; the selector lists candidate models in order of preference and what a
  model has to offer. Resolution walks through the candidates and takes the first one that the live
  catalog has and that meets every requirement; each candidate that is passed over leaves a reason.
  Of an entry of the catalog the model has the fields the selector reads.
\<close>

section \<open>Catalog and selectors\<close>

datatype api_backend = AB_ChatCompletions | AB_Responses | AB_Messages

datatype provider_effort = PE_None | PE_Minimal | PE_Low | PE_Medium | PE_High | PE_Xhigh | PE_Max

record reasoning_effort_option =
  eo_id :: string
  eo_value :: provider_effort
  eo_label :: string
  eo_description :: "string option"
  eo_default :: bool

record model_info =
  mi_id :: "string option"
  mi_model :: string
  mi_base_url :: string
  mi_api_backend :: api_backend
  mi_tools :: bool
  mi_image_input :: bool
  mi_priority :: bool
  mi_hidden :: bool
  mi_supports_reasoning_effort :: bool
  mi_reasoning_efforts :: "reasoning_effort_option list"

record model_candidate =
  mc_model_slug :: string
  mc_provider :: "string option"

record model_selector_spec =
  ms_name :: string
  ms_candidates :: "model_candidate list"
  ms_required_api_backend :: "api_backend option"
  ms_require_image_input :: bool
  ms_require_structured_output :: bool
  ms_require_tools :: bool
  ms_required_service_tier :: service_tier_preference
  ms_required_reasoning_effort :: "reasoning_effort option"
  ms_allow_hidden :: bool
  ms_allow_inherit :: bool

datatype model_resolution_source = MRS_LiveCatalog | MRS_Inherited

record model_resolution =
  mr_requested_selector :: string
  mr_selected_model :: string
  mr_provider :: string
  mr_reasoning_effort :: reasoning_effort
  mr_service_tier :: service_tier_preference
  mr_source :: model_resolution_source

datatype model_resolution_error =
    MRE_UnknownSelector string
  | MRE_NoCandidate (mre_selector: string) (mre_reasons: "string list")

section \<open>Operations\<close>

definition selector_defaults :: model_selector_spec where
  "selector_defaults =
     \<lparr>ms_name = [], ms_candidates = [], ms_required_api_backend = None, ms_require_image_input = False,
      ms_require_structured_output = False, ms_require_tools = False, ms_required_service_tier = ST_Inherit,
      ms_required_reasoning_effort = None, ms_allow_hidden = False, ms_allow_inherit = False\<rparr>"

definition any_provider :: "string \<Rightarrow> model_candidate" where
  "any_provider model_slug = \<lparr>mc_model_slug = model_slug, mc_provider = None\<rparr>"

definition builtin_selector :: "string \<Rightarrow> model_selector_spec option" where
  "builtin_selector name =
     (if name \<in> {''worker-light'', ''luna''} then
        Some (selector_defaults\<lparr>ms_name := name, ms_candidates := [any_provider ''gpt-5.6-luna''],
          ms_required_reasoning_effort := Some RE_Low\<rparr>)
      else if name \<in> {''reducer-balanced'', ''terra''} then
        Some (selector_defaults\<lparr>ms_name := name, ms_candidates := [any_provider ''gpt-5.6-terra'']\<rparr>)
      else if name \<in> {''critical-verifier'', ''sol''} then
        Some (selector_defaults\<lparr>ms_name := name,
          ms_candidates := [any_provider ''gpt-5.6-sol'', any_provider ''gpt-5.6'']\<rparr>)
      else if name = ''inherit'' then
        Some (selector_defaults\<lparr>ms_name := name, ms_candidates := [], ms_allow_inherit := True\<rparr>)
      else if starts_with name ''gpt-'' then
        Some (selector_defaults\<lparr>ms_name := name, ms_candidates := [any_provider name]\<rparr>)
      else None)"

fun provider_effort_of :: "reasoning_effort \<Rightarrow> provider_effort" where
  "provider_effort_of RE_None = PE_None"
| "provider_effort_of RE_Minimal = PE_Minimal"
| "provider_effort_of RE_Low = PE_Low"
| "provider_effort_of RE_Medium = PE_Medium"
| "provider_effort_of RE_High = PE_High"
| "provider_effort_of RE_Xhigh = PE_Xhigh"
| "provider_effort_of RE_Max = PE_Max"

definition supports_effort :: "model_info \<Rightarrow> reasoning_effort \<Rightarrow> bool" where
  "supports_effort model effort =
     (if effort = RE_None then True
      else if \<not> mi_supports_reasoning_effort model \<and> mi_reasoning_efforts model = [] then False
      else mi_reasoning_efforts model = [] \<or>
        list_ex (\<lambda>opt. eo_value opt = provider_effort_of effort) (mi_reasoning_efforts model))"

definition safe_provider_id :: "string \<Rightarrow> string" where
  "safe_provider_id base_url =
     (let rest = (case split_once ''://'' base_url of None \<Rightarrow> base_url | Some (_, rest) \<Rightarrow> rest);
          authority = hd (split_char (CHR ''/'') rest)
      in case rsplit_once (CHR ''@'') authority of None \<Rightarrow> authority | Some (_, host) \<Rightarrow> host)"

text \<open>The \<^verbatim>\<open>Debug\<close> form of an effort, the name of the variant.\<close>

fun effort_debug :: "reasoning_effort \<Rightarrow> string" where
  "effort_debug RE_None = ''None''"
| "effort_debug RE_Minimal = ''Minimal''"
| "effort_debug RE_Low = ''Low''"
| "effort_debug RE_Medium = ''Medium''"
| "effort_debug RE_High = ''High''"
| "effort_debug RE_Xhigh = ''Xhigh''"
| "effort_debug RE_Max = ''Max''"

definition names_model :: "model_candidate \<Rightarrow> model_info \<Rightarrow> bool" where
  "names_model candidate model \<longleftrightarrow>
     mi_model model = mc_model_slug candidate \<or> mi_id model = Some (mc_model_slug candidate)"

text \<open>One turn of the loop over the candidates: the reason to pass the candidate over, or the resolution.\<close>

definition consider_candidate ::
  "model_info list \<Rightarrow> model_selector_spec \<Rightarrow> reasoning_effort \<Rightarrow> service_tier_preference \<Rightarrow> model_candidate
   \<Rightarrow> (string, model_resolution) result" where
  "consider_candidate catalog selector requested_effort requested_tier candidate =
     (case find (names_model candidate) catalog of
        None \<Rightarrow> Err (mc_model_slug candidate @ '' is absent from the live catalog'')
      | Some model \<Rightarrow>
          let slug = mc_model_slug candidate;
              provider = safe_provider_id (mi_base_url model);
              effort = unwrap_or (ms_required_reasoning_effort selector) requested_effort
          in if mi_hidden model \<and> \<not> ms_allow_hidden selector then Err (slug @ '' is hidden'')
             else if is_some_and (mc_provider candidate) (\<lambda>wanted. wanted \<noteq> provider) then
               Err (slug @ '' is on provider '' @ provider)
             else if is_some_and (ms_required_api_backend selector) (\<lambda>backend. backend \<noteq> mi_api_backend model) then
               Err (slug @ '' uses a different API backend'')
             else if ms_require_image_input selector \<and> \<not> mi_image_input model then
               Err (slug @ '' lacks image input'')
             else if ms_require_tools selector \<and> \<not> mi_tools model then
               Err (slug @ '' lacks tool support'')
             else if ms_require_structured_output selector \<and> mi_api_backend model \<noteq> AB_Responses then
               Err (slug @ '' lacks required structured output'')
             else if ms_required_service_tier selector = ST_Fast \<and> \<not> mi_priority model then
               Err (slug @ '' lacks priority service tier'')
             else if \<not> supports_effort model effort then
               Err (slug @ '' does not support '' @ effort_debug effort @ '' effort'')
             else
               Ok \<lparr>mr_requested_selector = ms_name selector, mr_selected_model = mi_model model,
                   mr_provider = provider, mr_reasoning_effort = effort, mr_service_tier = requested_tier,
                   mr_source = MRS_LiveCatalog\<rparr>)"

fun try_candidates ::
  "(model_candidate \<Rightarrow> (string, model_resolution) result) \<Rightarrow> string \<Rightarrow> string list \<Rightarrow> model_candidate list
   \<Rightarrow> (model_resolution_error, model_resolution) result" where
  "try_candidates consider_one name reasons [] = Err (MRE_NoCandidate name reasons)"
| "try_candidates consider_one name reasons (c # cs) =
     (case consider_one c of
        Inl reason \<Rightarrow> try_candidates consider_one name (reasons @ [reason]) cs
      | Inr resolution \<Rightarrow> Ok resolution)"

definition resolve_selector ::
  "model_info list \<Rightarrow> model_selector_spec \<Rightarrow> reasoning_effort \<Rightarrow> service_tier_preference
   \<Rightarrow> (model_resolution_error, model_resolution) result" where
  "resolve_selector catalog selector requested_effort requested_tier =
     (if ms_allow_inherit selector \<and> ms_candidates selector = [] then
        Ok \<lparr>mr_requested_selector = ms_name selector, mr_selected_model = ''inherit'', mr_provider = ''inherit'',
            mr_reasoning_effort = requested_effort, mr_service_tier = requested_tier, mr_source = MRS_Inherited\<rparr>
      else
        try_candidates (consider_candidate catalog selector requested_effort requested_tier) (ms_name selector) []
          (ms_candidates selector))"

text \<open>The catalog of the models manager in the order of its entries.\<close>

definition resolve_live_selector ::
  "model_info list \<Rightarrow> model_selector_spec \<Rightarrow> reasoning_effort \<Rightarrow> service_tier_preference
   \<Rightarrow> (model_resolution_error, model_resolution) result" where
  "resolve_live_selector agent_graph_catalog = resolve_selector agent_graph_catalog"

section \<open>What a resolution promises\<close>

text \<open>What a selector asks of a model, without the order in which the code checks it.\<close>

definition meets ::
  "model_selector_spec \<Rightarrow> reasoning_effort \<Rightarrow> model_candidate \<Rightarrow> model_info \<Rightarrow> bool" where
  "meets selector effort candidate model \<longleftrightarrow>
     (mi_hidden model \<longrightarrow> ms_allow_hidden selector) \<and>
     mc_provider candidate \<in> {None, Some (safe_provider_id (mi_base_url model))} \<and>
     ms_required_api_backend selector \<in> {None, Some (mi_api_backend model)} \<and>
     (ms_require_image_input selector \<longrightarrow> mi_image_input model) \<and>
     (ms_require_tools selector \<longrightarrow> mi_tools model) \<and>
     (ms_require_structured_output selector \<longrightarrow> mi_api_backend model = AB_Responses) \<and>
     (ms_required_service_tier selector = ST_Fast \<longrightarrow> mi_priority model) \<and>
     (effort \<noteq> RE_None \<longrightarrow>
        (if mi_reasoning_efforts model = [] then mi_supports_reasoning_effort model
         else provider_effort_of effort \<in> eo_value ` set (mi_reasoning_efforts model)))"

text \<open>The model a candidate stands for: the first entry with its slug as name or identifier.\<close>

definition offered ::
  "model_info list \<Rightarrow> model_selector_spec \<Rightarrow> reasoning_effort \<Rightarrow> model_candidate \<Rightarrow> model_info option" where
  "offered catalog selector effort candidate =
     (case find (names_model candidate) catalog of
        None \<Rightarrow> None
      | Some model \<Rightarrow> if meets selector effort candidate model then Some model else None)"

lemma supports_effort_iff:
  "supports_effort model effort \<longleftrightarrow>
   effort = RE_None \<or> (if mi_reasoning_efforts model = [] then mi_supports_reasoning_effort model
     else provider_effort_of effort \<in> eo_value ` set (mi_reasoning_efforts model))"
  by (simp add: supports_effort_def list_ex_iff image_iff eq_commute)

lemma is_some_and_other: "is_some_and x (\<lambda>wanted. wanted \<noteq> v) \<longleftrightarrow> x \<notin> {None, Some v}"
  by (cases x) auto

lemma consider_candidate_offered:
  fixes selector effort
  defines "e \<equiv> unwrap_or (ms_required_reasoning_effort selector) effort"
  shows "case consider_candidate catalog selector effort tier candidate of
      Inl _ \<Rightarrow> offered catalog selector e candidate = None
    | Inr r \<Rightarrow> (case offered catalog selector e candidate of
        None \<Rightarrow> False
      | Some model \<Rightarrow> r = \<lparr>mr_requested_selector = ms_name selector, mr_selected_model = mi_model model,
          mr_provider = safe_provider_id (mi_base_url model), mr_reasoning_effort = e, mr_service_tier = tier,
          mr_source = MRS_LiveCatalog\<rparr>)"
  unfolding e_def
  by (cases "find (names_model candidate) catalog")
    (auto simp: consider_candidate_def offered_def meets_def Let_def is_some_and_other supports_effort_iff)

lemma try_candidates_cases:
  "case try_candidates consider_one name reasons cs of
     Inl err \<Rightarrow> (\<exists>more. err = MRE_NoCandidate name (reasons @ more) \<and> list_all2 (\<lambda>c why. consider_one c = Err why) cs more)
   | Inr r \<Rightarrow> (\<exists>pre c post. cs = pre @ c # post \<and> list_all (\<lambda>c'. \<exists>why. consider_one c' = Err why) pre \<and> consider_one c = Ok r)"
proof (induction cs arbitrary: reasons)
  case (Cons c cs)
  show ?case
  proof (cases "consider_one c")
    case (Inl why)
    show ?thesis
    proof (cases "try_candidates consider_one name (reasons @ [why]) cs")
      case (Inl err)
      with Cons.IH [of "reasons @ [why]"] obtain more where
        "err = MRE_NoCandidate name (reasons @ why # more)" "list_all2 (\<lambda>c why. consider_one c = Err why) cs more" by auto
      with Inl \<open>consider_one c = Inl why\<close> show ?thesis by (auto intro!: exI [of _ "why # more"])
    next
      case (Inr r)
      with Cons.IH [of "reasons @ [why]"] obtain pre d post where
        "cs = pre @ d # post" "list_all (\<lambda>c'. \<exists>why. consider_one c' = Err why) pre" "consider_one d = Ok r" by auto
      with Inr \<open>consider_one c = Inl why\<close> show ?thesis by (auto intro!: exI [of _ "c # pre"])
    qed
  next
    case (Inr r)
    then show ?thesis by (auto intro!: exI [of _ "[]"])
  qed
qed simp

text \<open>
  C38. A selector resolves to its first candidate that the catalog offers and that meets every requirement
  of the selector (visibility, provider, backend, image input, tools, structured output, priority tier,
  reasoning effort); it fails exactly when it has no such candidate and does not inherit, with one
  reason for each candidate.
\<close>

theorem resolve_selector_first_offered:
  fixes selector effort
  defines "e \<equiv> unwrap_or (ms_required_reasoning_effort selector) effort"
  shows "case resolve_selector catalog selector effort tier of
      Inl err \<Rightarrow> \<not> (ms_allow_inherit selector \<and> ms_candidates selector = []) \<and>
        list_all (\<lambda>c. offered catalog selector e c = None) (ms_candidates selector) \<and>
        mre_selector err = ms_name selector \<and> length (mre_reasons err) = length (ms_candidates selector)
    | Inr r \<Rightarrow> if ms_allow_inherit selector \<and> ms_candidates selector = [] then mr_source r = MRS_Inherited
        else \<exists>pre c post model. ms_candidates selector = pre @ c # post \<and>
          list_all (\<lambda>c'. offered catalog selector e c' = None) pre \<and> offered catalog selector e c = Some model \<and>
          r = \<lparr>mr_requested_selector = ms_name selector, mr_selected_model = mi_model model,
            mr_provider = safe_provider_id (mi_base_url model), mr_reasoning_effort = e, mr_service_tier = tier,
            mr_source = MRS_LiveCatalog\<rparr>"
proof -
  let ?one = "consider_candidate catalog selector effort tier"
  have none: "?one c = Err why \<Longrightarrow> offered catalog selector e c = None" for c why
    using consider_candidate_offered [where catalog = catalog and selector = selector and effort = effort and tier = tier and candidate = c] by (simp add: e_def)
  have some: "?one c = Ok r \<Longrightarrow> \<exists>model. offered catalog selector e c = Some model \<and>
      r = \<lparr>mr_requested_selector = ms_name selector, mr_selected_model = mi_model model,
            mr_provider = safe_provider_id (mi_base_url model), mr_reasoning_effort = e, mr_service_tier = tier,
            mr_source = MRS_LiveCatalog\<rparr>" for c r
    using consider_candidate_offered [where catalog = catalog and selector = selector and effort = effort and tier = tier and candidate = c] by (simp add: e_def split: option.splits)
  show ?thesis
  proof (cases "ms_allow_inherit selector \<and> ms_candidates selector = []")
    case False
    then show ?thesis
      using try_candidates_cases [where consider_one = ?one and name = "ms_name selector" and reasons = "[]" and cs = "ms_candidates selector"] none some
      by (cases "try_candidates ?one (ms_name selector) [] (ms_candidates selector)")
        (auto simp: resolve_selector_def list_all_iff list_all2_conv_all_nth in_set_conv_nth, metis+)
  qed (simp add: resolve_selector_def)
qed

section \<open>Providers\<close>

lemma rsplit_once_host: "rsplit_once c s = Some (user, host) \<Longrightarrow> c \<notin> set host"
  by (auto simp: rsplit_once_def dest: set_takeWhileD split: if_splits)

text \<open>The provider that is reported carries no user name or password and no path.\<close>

lemma safe_provider_id_clean: "CHR ''@'' \<notin> set (safe_provider_id url)" "CHR ''/'' \<notin> set (safe_provider_id url)"
proof -
  have "CHR ''/'' \<notin> set (hd (split_char CHR ''/'' s))" for s
    using split_acc_sep_free [of "CHR ''/''" "[]" _ s] split_acc_nonempty [of "CHR ''/''" "[]" s]
    by (auto simp: split_char_def)
  then show "CHR ''@'' \<notin> set (safe_provider_id url)" "CHR ''/'' \<notin> set (safe_provider_id url)"
    by (auto simp: safe_provider_id_def Let_def rsplit_once_def dest!: set_takeWhileD split: option.splits if_splits)
qed

text \<open>
  A selector that requires the fast tier checks that the model has it, and hands on the tier that was
  requested.
\<close>

lemma required_tier_not_handed_on:
  "\<exists>selector model r. ms_required_service_tier selector = ST_Fast \<and>
     resolve_selector [model] selector RE_None ST_Standard = Ok r \<and> mr_service_tier r = ST_Standard"
proof (intro exI conjI)
  let ?selector = "selector_defaults\<lparr>ms_name := ''fast'', ms_candidates := [any_provider ''m''], ms_required_service_tier := ST_Fast\<rparr>"
  let ?model = "\<lparr>mi_id = None, mi_model = ''m'', mi_base_url = ''https://h/v1'', mi_api_backend = AB_Responses, mi_tools = True,
      mi_image_input = True, mi_priority = True, mi_hidden = False, mi_supports_reasoning_effort = False, mi_reasoning_efforts = []\<rparr>"
  show "ms_required_service_tier ?selector = ST_Fast" by simp
  show "resolve_selector [?model] ?selector RE_None ST_Standard =
      Ok \<lparr>mr_requested_selector = ''fast'', mr_selected_model = ''m'', mr_provider = safe_provider_id ''https://h/v1'',
        mr_reasoning_effort = RE_None, mr_service_tier = ST_Standard, mr_source = MRS_LiveCatalog\<rparr>"
    by (simp add: resolve_selector_def consider_candidate_def names_model_def selector_defaults_def any_provider_def Let_def
        supports_effort_def)
qed simp

end
