(* ===== verification/Output_Verification.thy ===== *)
theory Output_Verification
  imports Validation Resources
begin

text \<open>
  Deterministic verification of node outputs: \<^verbatim>\<open>verification.rs\<close>.

  The output of a node is checked without a model: its shape, its status, its confidence, that every
  path it mentions lies below the repository root, and that it changed only what its node declared.
  The part of \<^verbatim>\<open>std::path\<close> that the checks use is modelled on Unix paths.
\<close>

section \<open>Paths\<close>

datatype path_component = Root_Dir | Cur_Dir | Parent_Dir | Normal_Dir string

definition is_absolute :: "string \<Rightarrow> bool" where
  "is_absolute path \<longleftrightarrow> starts_with path ''/''"

text \<open>Empty segments and dots are dropped; only a leading dot of a relative path is a component.\<close>

definition component_of :: "string \<Rightarrow> path_component" where
  "component_of segment = (if segment = ''..'' then Parent_Dir else Normal_Dir segment)"

definition dropped :: "string \<Rightarrow> bool" where
  "dropped segment \<longleftrightarrow> segment = [] \<or> segment = ''.''"

definition path_components :: "string \<Rightarrow> path_component list" where
  "path_components path =
     (let segments = split_char (CHR ''/'') path
      in (if is_absolute path then [Root_Dir] else if hd segments = ''.'' then [Cur_Dir] else [])
         @ map component_of (filter (\<lambda>segment. \<not> dropped segment) segments))"

definition path_join :: "string \<Rightarrow> string \<Rightarrow> string" where
  "path_join base path =
     (if is_absolute path then path
      else if base = [] \<or> ends_with base ''/'' then base @ path
      else base @ ''/'' @ path)"

definition path_starts_with :: "string \<Rightarrow> string \<Rightarrow> bool" where
  "path_starts_with path base \<longleftrightarrow> take (length (path_components base)) (path_components path) = path_components base"

section \<open>Reports\<close>

datatype claim_state = CS_Verified | CS_Refuted | CS_Unverified

text \<open>An error keeps the value whose text the code stores.\<close>

datatype verification_error =
    VFE_Schema validation_error
  | VFE_NonTerminalStatus node_status
  | VFE_InvalidConfidence f64
  | VFE_PathOutsideRoot string
  | VFE_ChangedPathOutsideWriteSet string

record output_verification_report =
  ovr_errors :: "verification_error list"
  ovr_claim_states :: "(string, claim_state) bmap"

definition verified_report_is_valid :: "output_verification_report \<Rightarrow> bool" where
  "verified_report_is_valid report \<longleftrightarrow> ovr_errors report = []"

definition claim_state_of :: "node_finding \<Rightarrow> claim_state" where
  "claim_state_of finding =
     (if nf_severity finding \<in> {FS_High, FS_Critical} then CS_Refuted
      else if nf_evidence finding = [] then CS_Unverified
      else CS_Verified)"

definition classify_claims :: "node_output \<Rightarrow> (string, claim_state) bmap" where
  "classify_claims out =
     foldl (\<lambda>states finding. bm_insert (nf_claim finding) (claim_state_of finding) states) [] (no_findings out)"

definition is_repo_relative_path :: "string \<Rightarrow> bool" where
  "is_repo_relative_path path \<longleftrightarrow>
     \<not> is_absolute path \<and> list_all (\<lambda>c. c \<noteq> Parent_Dir \<and> c \<noteq> Root_Dir) (path_components path)"

definition output_paths :: "node_output \<Rightarrow> string list" where
  "output_paths out =
     no_files_read out @ no_files_changed out @ map ar_path (no_artifacts out)
     @ concat (map (\<lambda>finding. map ev_path (nf_evidence finding)) (no_findings out))"

definition verify_node_output :: "node_output \<Rightarrow> string \<Rightarrow> string list \<Rightarrow> output_verification_report" where
  "verify_node_output out repo_root declared_write_set =
     \<lparr>ovr_errors =
        map VFE_Schema (validate_node_output out)
        @ push_if (\<not> node_status_is_terminal (no_status out)) (VFE_NonTerminalStatus (no_status out))
        @ push_if (\<not> (f64_le (Fin 0) (no_confidence out) \<and> f64_le (no_confidence out) (Fin 1)) \<or> no_confidence out = NaN)
            (VFE_InvalidConfidence (no_confidence out))
        @ concat (map (\<lambda>path. push_if
              (\<not> is_repo_relative_path path \<or> \<not> path_starts_with (path_join repo_root path) repo_root)
              (VFE_PathOutsideRoot path)) (output_paths out))
        @ (if declared_write_set \<noteq> []
           then concat (map (\<lambda>path. push_if
                  (\<not> list_ex (\<lambda>pattern. path_patterns_overlap pattern path) declared_write_set)
                  (VFE_ChangedPathOutsideWriteSet path)) (no_files_changed out))
           else []),
      ovr_claim_states = classify_claims out\<rparr>"

section \<open>Joining paths\<close>

lemma starts_with_slash: "starts_with s ''/'' \<longleftrightarrow> (\<exists>t. s = CHR ''/'' # t)"
  by (cases s) (auto simp: starts_with_def)

lemma split_char_append:
  "split_char c (s @ c # t) = split_char c s @ split_char c t"
proof -
  have "split_acc c acc (s @ c # t) = split_acc c acc s @ split_acc c [] t" for acc
    by (induction s arbitrary: acc) auto
  then show ?thesis by (simp add: split_char_def)
qed

lemma ends_with_slash: "ends_with s ''/'' \<longleftrightarrow> (\<exists>t. s = t @ [CHR ''/''])"
  by (cases s rule: rev_cases) (auto simp: ends_with_def starts_with_def)

lemma split_char_nonempty [simp]: "split_char c s \<noteq> []"
  by (simp add: split_char_def split_acc_nonempty)

lemma hd_split_append: "hd (split_char c (s @ c # t)) = hd (split_char c s)"
  by (simp add: split_char_append)

lemma split_trailing: "filter (\<lambda>x. \<not> dropped x) (split_char c (s @ [c])) = filter (\<lambda>x. \<not> dropped x) (split_char c s)"
  using split_char_append [of c s "[]"] by (simp add: split_char_def dropped_def)

text \<open>A relative path joined to a directory has the components of the directory, then its own names.\<close>

lemma components_join:
  assumes "dir \<noteq> []" and "\<not> is_absolute path"
  shows "path_components (path_join dir path) =
    path_components dir @ map component_of (filter (\<lambda>s. \<not> dropped s) (split_char CHR ''/'' path))"
proof (cases "ends_with dir ''/''")
  case True
  then obtain base where base: "dir = base @ [CHR ''/'']" by (auto simp: ends_with_slash)
  have "is_absolute (dir @ path) = is_absolute dir"
    using assms(1) by (cases dir) (auto simp: is_absolute_def starts_with_slash)
  moreover have "hd (split_char CHR ''/'' (dir @ path)) = hd (split_char CHR ''/'' dir)"
    using hd_split_append [of _ base path] hd_split_append [of _ base "[]"] by (simp add: base)
  ultimately show ?thesis
    using True assms(2) split_trailing [of "CHR ''/''" base]
    by (simp add: path_join_def path_components_def Let_def base split_char_append)
next
  case False
  have "is_absolute (dir @ CHR ''/'' # path) = is_absolute dir"
    using assms(1) by (cases dir) (auto simp: is_absolute_def starts_with_slash)
  with False show ?thesis
    using assms
    by (simp add: path_join_def path_components_def Let_def split_char_append)
qed

text \<open>The second test of the code never fails when the first one passes.\<close>

lemma relative_path_below_root:
  assumes "\<not> is_absolute path"
  shows "path_starts_with (path_join dir path) dir"
proof (cases "dir = []")
  case True
  then show ?thesis by (simp add: path_starts_with_def path_components_def is_absolute_def starts_with_def split_char_def dropped_def)
next
  case False
  then show ?thesis using components_join [OF False assms] by (simp add: path_starts_with_def)
qed

lemma repo_relative_names:
  assumes "is_repo_relative_path path"
  shows "\<exists>names. map component_of (filter (\<lambda>s. \<not> dropped s) (split_char CHR ''/'' path)) = map Normal_Dir names \<and>
    ''..'' \<notin> set names"
proof -
  let ?segs = "filter (\<lambda>s. \<not> dropped s) (split_char CHR ''/'' path)"
  have up: "''..'' \<notin> set ?segs"
    using assms by (auto simp: is_repo_relative_path_def path_components_def Let_def list_all_iff component_of_def)
  then have "map component_of ?segs = map Normal_Dir ?segs" by (auto simp: component_of_def)
  with up show ?thesis by blast
qed

lemma push_all_Nil: "concat (map (\<lambda>x. push_if (P x) (f x)) xs) = [] \<longleftrightarrow> list_all (\<lambda>x. \<not> P x) xs"
  by (induction xs) auto

text \<open>The errors of a report in one condition.\<close>

lemma verified_iff:
  "verified_report_is_valid (verify_node_output out repo_root declared) \<longleftrightarrow>
     validate_node_output out = [] \<and> node_status_is_terminal (no_status out) \<and>
     f64_le (Fin 0) (no_confidence out) \<and> f64_le (no_confidence out) (Fin 1) \<and>
     list_all is_repo_relative_path (output_paths out) \<and>
     (declared = [] \<or> list_all (\<lambda>path. list_ex (\<lambda>pattern. path_patterns_overlap pattern path) declared) (no_files_changed out))"
proof -
  have "path_starts_with (path_join repo_root path) repo_root" if "is_repo_relative_path path" for path
    using that relative_path_below_root by (simp add: is_repo_relative_path_def)
  then have inside: "(\<not> is_repo_relative_path path \<or> \<not> path_starts_with (path_join repo_root path) repo_root) \<longleftrightarrow> \<not> is_repo_relative_path path" for path
    by blast
  have number: "(\<not> (f64_le (Fin 0) c \<and> f64_le c (Fin 1)) \<or> c = NaN) \<longleftrightarrow> \<not> (f64_le (Fin 0) c \<and> f64_le c (Fin 1))" for c
    by (auto simp: f64_le_def f64_eq_def)
  show ?thesis
    unfolding verified_report_is_valid_def verify_node_output_def inside number
    by (simp add: push_all_Nil list_all_iff del: node_status_is_terminal.simps)
qed

text \<open>
  C22. An output that passes verification mentions no path outside the repository: every file it read or
  changed, every artifact and every piece of evidence, joined to the root, is the root followed by plain
  names, so no link upwards leads out of it. It has ended, and its confidence is a number between 0 and 1.
  Changed files are compared with the declared write set only when it is not empty: then each of them
  overlaps one of its patterns. With an empty write set any file below the root may have changed.
\<close>

theorem verified_output_contained:
  assumes "verified_report_is_valid (verify_node_output out repo_root declared)" and "repo_root \<noteq> []"
  shows "node_status_is_terminal (no_status out) \<and> (\<exists>q. no_confidence out = Fin q \<and> 0 \<le> q \<and> q \<le> 1) \<and>
    (\<forall>path \<in> set (no_files_read out) \<union> set (no_files_changed out) \<union> ar_path ` set (no_artifacts out) \<union>
        (\<Union>finding \<in> set (no_findings out). ev_path ` set (nf_evidence finding)).
      \<exists>names. path_components (path_join repo_root path) = path_components repo_root @ map Normal_Dir names \<and> ''..'' \<notin> set names) \<and>
    (declared \<noteq> [] \<longrightarrow> (\<forall>path \<in> set (no_files_changed out). \<exists>pattern \<in> set declared. path_patterns_overlap pattern path))"
proof -
  note ok = assms(1) [unfolded verified_iff]
  have "\<exists>q. no_confidence out = Fin q \<and> 0 \<le> q \<and> q \<le> 1"
    using ok by (cases "no_confidence out") (simp_all add: f64_le_def f64_eq_def le_less)
  moreover have "\<exists>names. path_components (path_join repo_root path) = path_components repo_root @ map Normal_Dir names \<and> ''..'' \<notin> set names"
    if "path \<in> set (output_paths out)" for path
  proof -
    from ok that have "is_repo_relative_path path" by (simp add: list_all_iff)
    with components_join [OF assms(2)] repo_relative_names [OF this] show ?thesis by (auto simp: is_repo_relative_path_def)
  qed
  ultimately show ?thesis using ok by (auto simp: output_paths_def list_all_iff list_ex_iff)
qed

definition checked_output :: node_output where
  "checked_output =
     \<lparr>no_schema_version = 1, no_graph_run_id = ''run'', no_node_instance_id = ''a'', no_attempt_id = ''run'',
      no_status = NS_Succeeded, no_summary = [], no_findings = [], no_files_read = [], no_files_changed = [''src''],
      no_commands_run = [], no_tests_run = [], no_artifacts = [], no_assumptions = [], no_blockers = [],
      no_confidence = Fin 1\<rparr>"

lemma src_relative: "is_repo_relative_path ''src''"
  by (simp add: is_repo_relative_path_def is_absolute_def path_components_def split_char_def component_of_def dropped_def)

lemma checked_output_valid:
  "validate_node_output (checked_output\<lparr>no_attempt_id := i\<rparr>) = validate_id ''attemptId'' i" "validate_node_output checked_output = []"
proof -
  have path: "check_path ''a'' [] ''src'' = []"
    by (simp add: check_path_def validate_path_pattern_def trim_printable printable_def replace_char_def split_char_def)
  have ids: "validate_id ''graphRunId'' ''run'' = []" "validate_id ''nodeInstanceId'' ''a'' = []" "validate_id ''attemptId'' ''run'' = []"
    by code_simp+
  show "validate_node_output (checked_output\<lparr>no_attempt_id := i\<rparr>) = validate_id ''attemptId'' i" "validate_node_output checked_output = []"
    by (simp_all add: validate_node_output_def checked_output_def AGENTGRAPH_SCHEMA_VERSION_def path ids push_if_def)
qed

lemma checked_output_verified:
  "verified_report_is_valid (verify_node_output checked_output ''/repo'' declared) \<longleftrightarrow>
   declared = [] \<or> list_ex (\<lambda>pattern. path_patterns_overlap pattern ''src'') declared"
  using checked_output_valid(2) src_relative
  by (simp add: verified_iff) (simp add: checked_output_def output_paths_def f64_le_def f64_eq_def)

theorem verified_output_contained_witness:
  "\<exists>names. path_components (path_join ''/repo'' ''src'') = path_components ''/repo'' @ map Normal_Dir names \<and> ''..'' \<notin> set names"
proof -
  have "path_patterns_overlap ''src'' ''src''" by (simp add: path_patterns_overlap_def normalize_src)
  then have "verified_report_is_valid (verify_node_output checked_output ''/repo'' [''src''])"
    by (simp add: checked_output_verified)
  from verified_output_contained [OF this] show ?thesis by (simp add: checked_output_def)
qed

text \<open>A node that declares no writes may change files: its empty write set is not compared.\<close>

lemma empty_write_set_unchecked:
  "verified_report_is_valid (verify_node_output checked_output ''/repo'' []) \<and> no_files_changed checked_output = [''src'']"
  by (simp add: checked_output_verified) (simp add: checked_output_def)

section \<open>Claims\<close>

lemma foldl_insert_get:
  "bm_get (foldl (\<lambda>m x. bm_insert (k x) (v x) m) m xs) key =
   (case find (\<lambda>x. k x = key) (rev xs) of Some x \<Rightarrow> Some (v x) | None \<Rightarrow> bm_get m key)"
  by (induction xs rule: rev_induct) (auto simp: bmap_simps)

text \<open>A claim made by several findings has the state of the last one.\<close>

lemma classify_claims_last:
  "bm_get (classify_claims out) claim =
   map_option claim_state_of (find (\<lambda>finding. nf_claim finding = claim) (rev (no_findings out)))"
  by (simp add: classify_claims_def foldl_insert_get bm_get_empty split: option.split)

text \<open>
  A node that declares the whole tree as its write set has every changed file refused: patterns are
  compared as literal prefixes.
\<close>

lemma whole_tree_write_set_refused:
  "VFE_ChangedPathOutsideWriteSet ''src'' \<in> set (ovr_errors (verify_node_output checked_output ''/repo'' [''**'']))"
  using whole_tree_writer_unprotected(3) by (simp add: verify_node_output_def checked_output_def push_if_def)

end
