(* ===== verification/Subagent_Worker.thy ===== *)
theory Subagent_Worker
  imports Worker Model_Selector Output_Verification
begin

text \<open>
  Workers that are subagents: \<^verbatim>\<open>SubagentWorkerBackend\<close> of \<^verbatim>\<open>worker.rs\<close>.

  A node of a graph is handed to a subagent: its authority is checked, its model is resolved, a
  request with a prompt is built and spawned, and the answer is parsed and verified before it counts
  as an output of the node. The service that runs subagents is the trait \<^verbatim>\<open>SubagentBackend\<close>, here the
  record of its operations over a state. JSON and JSON schemas, and the text of values of other
  libraries, are arguments (record \<open>worker_texts\<close>). The observations of provider headers are those of
  \<open>Rate_Limit\<close>.
\<close>

section \<open>The subagent service\<close>

datatype subagent_capability = SC_ReadOnly | SC_ReadWrite | SC_Execute | SC_All

datatype subagent_isolation = SI_None | SI_Worktree

datatype model_override_provenance = MP_Harness | MP_Tool

datatype subagent_owner = SO_Task | SO_Workflow string

record subagent_runtime_overrides =
  so_model :: "string option"
  so_model_override_provenance :: model_override_provenance
  so_reasoning_effort :: "string option"
  so_persona :: "string option"
  so_capability_mode :: "subagent_capability option"
  so_isolation :: "subagent_isolation option"
  so_service_tier :: "service_tier_preference option"
  so_hosted_multi_agent :: "bool option"
  so_harness_agent_type :: "string option"
  so_completion_output_cap :: "u64 option"
  so_spawn_depth :: "u32 option"
  so_output_token_budget :: "u64 option"
  so_output_schema :: "json option"
  so_loop_task_id :: "string option"

text \<open>The cancellation token and the channel for the answer are left out: \<open>ss_spawn\<close> returns the answer.\<close>

record subagent_request =
  sq_id :: string
  sq_prompt :: string
  sq_description :: string
  sq_subagent_type :: string
  sq_parent_session_id :: string
  sq_parent_prompt_id :: "string option"
  sq_resume_from :: "string option"
  sq_cwd :: "string option"
  sq_runtime_overrides :: subagent_runtime_overrides
  sq_run_in_background :: bool
  sq_surface_completion :: bool
  sq_await_to_completion :: bool
  sq_fork_context :: bool
  sq_owner :: subagent_owner

record subagent_result =
  sr_success :: bool
  sr_output :: string
  sr_error :: "string option"
  sr_cancelled :: bool
  sr_subagent_id :: string
  sr_child_session_id :: string
  sr_tool_calls :: u32
  sr_turns :: u32
  sr_duration_ms :: u64
  sr_tokens_used :: u64
  sr_output_tokens_used :: u64
  sr_total_tokens_used :: u64
  sr_output_usage_incomplete :: bool
  sr_worktree_path :: "string option"
  sr_backgrounded :: bool

datatype subagent_snapshot_status =
    SSS_Initializing
  | SSS_Running
  | SSS_Completed string u32 u32 "string option"
  | SSS_Failed string
  | SSS_Cancelled "string option"

record subagent_snapshot =
  sn_subagent_id :: string
  sn_status :: subagent_snapshot_status
  sn_duration_ms :: u64

datatype subagent_validate_type_outcome =
    VT_Ok
  | VT_Unknown "string list"
  | VT_Disabled
  | VT_NotAllowed "string list"
  | VT_ValidationUnavailable

datatype subagent_cancel_outcome = SCO_Cancelled | SCO_AlreadyFinished string | SCO_NotFound

record 's subagent_service =
  ss_spawn :: "subagent_request \<Rightarrow> 's \<Rightarrow> 's \<times> (string, subagent_result) result"
  ss_query :: "string \<Rightarrow> bool \<Rightarrow> u64 option \<Rightarrow> 's \<Rightarrow> 's \<times> subagent_snapshot option"
  ss_cancel :: "string \<Rightarrow> 's \<Rightarrow> 's \<times> subagent_cancel_outcome"
  ss_validate_type :: "string \<Rightarrow> string \<Rightarrow> 's \<Rightarrow> 's \<times> subagent_validate_type_outcome"

section \<open>The backend and its surroundings\<close>

text \<open>The models manager is its catalog.\<close>

record subagent_worker_backend =
  sw_parent_session_id :: string
  sw_parent_prompt_id :: "string option"
  sw_cwd :: string
  sw_models_manager :: "model_info list option"

definition new_subagent_backend :: "string \<Rightarrow> string \<Rightarrow> subagent_worker_backend" where
  "new_subagent_backend parent_session_id cwd =
     \<lparr>sw_parent_session_id = parent_session_id, sw_parent_prompt_id = None, sw_cwd = cwd, sw_models_manager = None\<rparr>"

record worker_texts =
  wt_parse_output :: "string \<Rightarrow> (string, node_output) result"
  wt_output_value :: "node_output \<Rightarrow> (string, json) result"
  wt_schema_validator :: "json \<Rightarrow> (string, json \<Rightarrow> (string, unit) result) result"
  wt_inputs_pretty :: "(string, input_binding) bmap \<Rightarrow> string option"
  wt_f64_display :: "f64 \<Rightarrow> string"
  wt_debug_strings :: "string list \<Rightarrow> string"
  wt_debug_resolution_error :: "model_resolution_error \<Rightarrow> string"

section \<open>Texts\<close>

fun capability_debug :: "capability_mode \<Rightarrow> string" where
  "capability_debug CM_ReadOnly = ''ReadOnly''"
| "capability_debug CM_WorktreeWrite = ''WorktreeWrite''"
| "capability_debug CM_UnisolatedWrite = ''UnisolatedWrite''"
| "capability_debug CM_ExternalEffect = ''ExternalEffect''"

fun node_kind_debug :: "node_kind \<Rightarrow> string" where
  "node_kind_debug NK_Deterministic = ''Deterministic''"
| "node_kind_debug NK_Agent = ''Agent''"
| "node_kind_debug NK_MapAgent = ''MapAgent''"
| "node_kind_debug NK_ReduceAgent = ''ReduceAgent''"
| "node_kind_debug NK_Verifier = ''Verifier''"
| "node_kind_debug NK_Router = ''Router''"
| "node_kind_debug NK_Barrier = ''Barrier''"
| "node_kind_debug NK_Approval = ''Approval''"
| "node_kind_debug NK_Compensation = ''Compensation''"
| "node_kind_debug NK_Loop = ''Loop''"

fun node_status_debug :: "node_status \<Rightarrow> string" where
  "node_status_debug NS_Pending = ''Pending''"
| "node_status_debug NS_Blocked = ''Blocked''"
| "node_status_debug NS_Ready = ''Ready''"
| "node_status_debug NS_Leased = ''Leased''"
| "node_status_debug NS_Starting = ''Starting''"
| "node_status_debug NS_Running = ''Running''"
| "node_status_debug NS_WaitingForApproval = ''WaitingForApproval''"
| "node_status_debug NS_Succeeded = ''Succeeded''"
| "node_status_debug NS_Failed = ''Failed''"
| "node_status_debug NS_TimedOut = ''TimedOut''"
| "node_status_debug NS_Cancelled = ''Cancelled''"
| "node_status_debug NS_Skipped = ''Skipped''"
| "node_status_debug NS_Stale = ''Stale''"
| "node_status_debug NS_Retrying = ''Retrying''"
| "node_status_debug NS_Compensating = ''Compensating''"

fun reasoning_effort_name :: "reasoning_effort \<Rightarrow> string" where
  "reasoning_effort_name RE_None = ''none''"
| "reasoning_effort_name RE_Minimal = ''minimal''"
| "reasoning_effort_name RE_Low = ''low''"
| "reasoning_effort_name RE_Medium = ''medium''"
| "reasoning_effort_name RE_High = ''high''"
| "reasoning_effort_name RE_Xhigh = ''xhigh''"
| "reasoning_effort_name RE_Max = ''max''"

definition dec32 :: "u32 \<Rightarrow> string" where
  "dec32 n = dec (unat n)"

fun validation_error_display :: "worker_texts \<Rightarrow> validation_error \<Rightarrow> string" where
  "validation_error_display wt (VE_UnsupportedApiVersion found) = ''unsupported apiVersion `'' @ found @ ''`''"
| "validation_error_display wt (VE_UnsupportedKind found) = ''unsupported kind `'' @ found @ ''`''"
| "validation_error_display wt (VE_UnsupportedSchemaVersion found) =
     ''unsupported graph schema version `'' @ dec32 found @ ''`''"
| "validation_error_display wt (VE_InvalidId fld i reason) = ''invalid id `'' @ i @ ''` for '' @ fld @ '': '' @ reason"
| "validation_error_display wt (VE_DuplicateNode nid) = ''duplicate node id `'' @ nid @ ''`''"
| "validation_error_display wt (VE_DuplicateEdge eid) = ''duplicate edge id `'' @ eid @ ''`''"
| "validation_error_display wt (VE_MissingNodeReference nid ref) =
     ''node `'' @ nid @ ''` references missing node `'' @ ref @ ''`''"
| "validation_error_display wt (VE_MissingEdgeNodeReference eid ref) =
     ''edge `'' @ eid @ ''` references missing node `'' @ ref @ ''`''"
| "validation_error_display wt (VE_MissingInputProducer nid input producer) =
     ''node `'' @ nid @ ''` input `'' @ input @ ''` has no producer `'' @ producer @ ''`''"
| "validation_error_display wt (VE_MissingSchemaReference nid ref) =
     ''node `'' @ nid @ ''` references missing schema `'' @ ref @ ''`''"
| "validation_error_display wt (VE_MissingTemplateReference nid ref) =
     ''node `'' @ nid @ ''` references missing template `'' @ ref @ ''`''"
| "validation_error_display wt (VE_MissingModelSelector nid sel) =
     ''node `'' @ nid @ ''` references missing model selector `'' @ sel @ ''`''"
| "validation_error_display wt (VE_MissingCredentialReference nid ref) =
     ''node `'' @ nid @ ''` references missing credential `'' @ ref @ ''`''"
| "validation_error_display wt (VE_MissingResourceReference nid res) =
     ''node `'' @ nid @ ''` references missing resource `'' @ res @ ''`''"
| "validation_error_display wt (VE_DataEdgeWithoutBinding eid) = ''data edge `'' @ eid @ ''` has no data binding''"
| "validation_error_display wt (VE_Cycle nodes) =
     ''graph contains a general cycle involving '' @ wt_debug_strings wt nodes"
| "validation_error_display wt (VE_InvalidPredicate nid reason) =
     ''node `'' @ nid @ ''` has an invalid predicate: '' @ reason"
| "validation_error_display wt (VE_InvalidJsonPath nid path reason) =
     ''node `'' @ nid @ ''` has an invalid json path `'' @ path @ ''`: '' @ reason"
| "validation_error_display wt (VE_UnboundedLoop nid bound) =
     ''loop node `'' @ nid @ ''` is missing bound `'' @ bound @ ''`''"
| "validation_error_display wt (VE_UnboundedMap nid) =
     ''map node `'' @ nid @ ''` is missing a dynamic expansion bound''"
| "validation_error_display wt (VE_NonDeterministicMapIds nid) =
     ''map node `'' @ nid @ ''` does not declare deterministic instance ids''"
| "validation_error_display wt (VE_InvalidJoin eid reason) = ''join on edge `'' @ eid @ ''` is invalid: '' @ reason"
| "validation_error_display wt (VE_UnboundedRetry nid) = ''retry policy on node `'' @ nid @ ''` is not bounded''"
| "validation_error_display wt (VE_NonIdempotentRetryNeedsCompensation nid) =
     ''non-idempotent retry on node `'' @ nid @ ''` requires compensation''"
| "validation_error_display wt (VE_CapabilityWidening nid capability ceil) =
     ''node `'' @ nid @ ''` capability `'' @ capability_debug capability @ ''` exceeds parent ceiling `''
     @ capability_debug ceil @ ''`''"
| "validation_error_display wt (VE_PlanModeWriter nid) = ''plan mode rejects write-capable node `'' @ nid @ ''`''"
| "validation_error_display wt (VE_UnavailableTool nid tool) =
     ''node `'' @ nid @ ''` tool `'' @ tool @ ''` is unavailable''"
| "validation_error_display wt (VE_ToolWidening nid tool) =
     ''node `'' @ nid @ ''` tool `'' @ tool @ ''` widens parent authority''"
| "validation_error_display wt (VE_NestedOrchestrationTool nid tool) =
     ''worker node `'' @ nid @ ''` cannot receive nested orchestration tool `'' @ tool @ ''`''"
| "validation_error_display wt (VE_WorkerIsolationDisabled flag) =
     ''worker isolation flag `'' @ flag @ ''` must be true''"
| "validation_error_display wt (VE_InvalidPath nid path reason) =
     ''node `'' @ nid @ ''` path `'' @ path @ ''` is invalid: '' @ reason"
| "validation_error_display wt (VE_WriteSetConflict l r path) =
     ''write set conflict between `'' @ l @ ''` and `'' @ r @ ''` on `'' @ path @ ''`''"
| "validation_error_display wt (VE_ResourceLimitExceeded nid res amount limit) =
     ''node `'' @ nid @ ''` resource `'' @ res @ ''` claim `'' @ dec32 amount @ ''` exceeds limit `'' @ dec32 limit @ ''`''"
| "validation_error_display wt (VE_InvalidBudget fld) = ''budget `'' @ fld @ ''` must be greater than zero''"
| "validation_error_display wt (VE_DynamicExpansionTooLarge actual limit) =
     ''graph dynamic expansion `'' @ dec32 actual @ ''` exceeds maximum `'' @ dec32 limit @ ''`''"
| "validation_error_display wt (VE_GraphTooLarge actual limit) =
     ''graph node count `'' @ dec32 actual @ ''` exceeds maximum `'' @ dec32 limit @ ''`''"
| "validation_error_display wt (VE_ExactReadyMismatch required actual) =
     ''exact-ready benchmark expected `'' @ dec32 required @ ''` ready agents but graph has `'' @ dec32 actual @ ''`''"
| "validation_error_display wt (VE_NormalizationFailed reason) = ''normalization failed: '' @ reason"

fun verification_error_display :: "worker_texts \<Rightarrow> verification_error \<Rightarrow> string" where
  "verification_error_display wt (VFE_Schema err) =
     ''node output failed schema validation: '' @ validation_error_display wt err"
| "verification_error_display wt (VFE_NonTerminalStatus status) =
     ''node output status `'' @ node_status_debug status @ ''` is not terminal''"
| "verification_error_display wt (VFE_InvalidConfidence confidence) =
     ''node output confidence `'' @ wt_f64_display wt confidence @ ''` is outside 0.0..=1.0''"
| "verification_error_display wt (VFE_PathOutsideRoot path) =
     ''path `'' @ path @ ''` is outside the repository root''"
| "verification_error_display wt (VFE_ChangedPathOutsideWriteSet path) =
     ''changed path `'' @ path @ ''` is outside declared write scope''"

section \<open>Authority and models\<close>

definition rejected :: "node_spec \<Rightarrow> string \<Rightarrow> (worker_error, 'a) result" where
  "rejected node reason = Err (WE_Rejected (ns_id node) reason)"

definition selector_name :: "node_spec \<Rightarrow> node_defaults \<Rightarrow> string option" where
  "selector_name node defaults = opt_or (ns_model_selector node) (nd_model_selector defaults)"

definition validate_node_authority :: "node_spec \<Rightarrow> node_defaults \<Rightarrow> (worker_error, unit) result" where
  "validate_node_authority node defaults =
     (if \<not> is_model_worker node then rejected node ''only model worker nodes can be dispatched to subagents''
      else case find is_nested_orchestration_tool (ns_tool_allowlist node) of
        Some tool \<Rightarrow> rejected node (''nested orchestration tool `'' @ tool @ ''` is not allowed'')
      | None \<Rightarrow>
          let capability = effective_capability node defaults
          in if capability \<in> {CM_UnisolatedWrite, CM_ExternalEffect} then
               rejected node
                 (''local AgentGraph workers require read-only or isolated-worktree authority; node requested ''
                  @ capability_debug capability)
             else case selector_name node defaults of
                 None \<Rightarrow> Ok ()
               | Some selector \<Rightarrow>
                   if selector \<noteq> ''inherit'' \<and> builtin_selector selector = None then
                     rejected node (''model selector `'' @ selector @ ''` has no supported candidate'')
                   else Ok ())"

definition validate_subagent_type ::
  "'s subagent_service \<Rightarrow> subagent_worker_backend \<Rightarrow> node_spec \<Rightarrow> string \<Rightarrow> 's \<Rightarrow> 's \<times> (worker_error, unit) result" where
  "validate_subagent_type svc b node subagent_type s =
     (case ss_validate_type svc subagent_type (sw_parent_session_id b) s of
        (s', outcome) \<Rightarrow> (s', case outcome of
            VT_Ok \<Rightarrow> Ok ()
          | VT_Unknown available \<Rightarrow>
              rejected node
                (if available = [] then ''unknown subagent type `'' @ subagent_type @ ''`''
                 else ''unknown subagent type `'' @ subagent_type @ ''`; available types: '' @ join_with '', '' available)
          | VT_Disabled \<Rightarrow> rejected node (''subagent type `'' @ subagent_type @ ''` is disabled'')
          | VT_NotAllowed allowed \<Rightarrow>
              rejected node (''subagent type `'' @ subagent_type @ ''` is not allowed; allowed types: '' @ join_with '', '' allowed)
          | VT_ValidationUnavailable \<Rightarrow> rejected node (''cannot validate subagent type `'' @ subagent_type @ ''`'')))"

definition resolve_model ::
  "worker_texts \<Rightarrow> subagent_worker_backend \<Rightarrow> node_spec \<Rightarrow> node_defaults \<Rightarrow> (worker_error, string option) result" where
  "resolve_model wt b node defaults =
     (case selector_name node defaults of
        None \<Rightarrow> Ok None
      | Some name \<Rightarrow>
          (case builtin_selector name of
             None \<Rightarrow> rejected node (''unknown model selector `'' @ name @ ''`'')
           | Some selector \<Rightarrow>
               if ms_allow_inherit selector then Ok None
               else case sw_models_manager b of
                   Some catalog \<Rightarrow>
                     (case resolve_live_selector catalog selector
                             (unwrap_or (ns_reasoning_effort node) (nd_reasoning_effort defaults))
                             (node_service_tier node defaults) of
                        Inr resolution \<Rightarrow> Ok (Some (mr_selected_model resolution))
                      | Inl err \<Rightarrow>
                          rejected node (''model selector `'' @ name @ ''` did not resolve: ''
                            @ wt_debug_resolution_error wt err))
                 | None \<Rightarrow>
                     Ok (case ms_candidates selector of [] \<Rightarrow> None | c # _ \<Rightarrow> Some (mc_model_slug c))))"

definition provider_route_for_node ::
  "worker_texts \<Rightarrow> subagent_worker_backend \<Rightarrow> node_spec \<Rightarrow> node_defaults
   \<Rightarrow> (worker_error, provider_route_key option) result" where
  "provider_route_for_node wt b node defaults =
     (case sw_models_manager b of
        None \<Rightarrow> Ok None
      | Some catalog \<Rightarrow>
          bind_r (resolve_model wt b node defaults) (\<lambda>resolved.
          case resolved of
            None \<Rightarrow> Ok None
          | Some model_id \<Rightarrow>
              (case find (\<lambda>model. mi_model model = model_id \<or> mi_id model = Some model_id) catalog of
                 None \<Rightarrow> rejected node (''resolved model `'' @ model_id @ ''` disappeared from the live catalog'')
               | Some model \<Rightarrow> Ok (Some (route_for_base_url (mi_base_url model))))))"

section \<open>Requests\<close>

fun subagent_type_of_tags :: "string list \<Rightarrow> string" where
  "subagent_type_of_tags [] = ''general-purpose''"
| "subagent_type_of_tags (tag # tags) =
     (case opt_or (strip_prefix ''subagent-type:'' tag) (strip_prefix ''subagent:'' tag) of
        None \<Rightarrow> subagent_type_of_tags tags
      | Some value \<Rightarrow> if trim value \<noteq> [] then trim value else subagent_type_of_tags tags)"

definition subagent_type_for_node :: "node_spec \<Rightarrow> string" where
  "subagent_type_for_node node = subagent_type_of_tags (ns_tags node)"

definition graph_worker_description :: "node_spec \<Rightarrow> string" where
  "graph_worker_description node =
     (let objective = trim (ns_objective node)
      in if objective = [] then ''AgentGraph node '' @ ns_id node
         else ''AgentGraph node '' @ ns_id node @ '': '' @ objective)"

definition newline :: string where
  "newline = [CHR 0x0A]"

definition bullets :: "string \<Rightarrow> string list \<Rightarrow> string" where
  "bullets none items = (if items = [] then none else join_with newline (map (\<lambda>item. ''- '' @ item) items))"

definition graph_worker_prompt ::
  "worker_texts \<Rightarrow> string \<Rightarrow> node_spec \<Rightarrow> node_defaults \<Rightarrow> u32 \<Rightarrow> string" where
  "graph_worker_prompt wt graph_run_id node defaults attempt =
     join_with newline
       [''You are executing one AgentGraph worker node.'',
        ''Graph run: '' @ graph_run_id,
        ''Node id: '' @ ns_id node,
        ''Attempt: '' @ dec32 attempt,
        ''Node kind: '' @ node_kind_debug (ns_kind node),
        ''Capability: '' @ capability_debug (effective_capability node defaults),
        ''Objective:'', ns_objective node, [],
        ''Definition of done:'',
        bullets ''- No explicit definition of done was provided.'' (ns_definition_of_done node), [],
        ''Inputs:'', unwrap_or (wt_inputs_pretty wt (ns_inputs node)) ''<inputs unavailable>'', [],
        ''Read set:'', bullets ''- No explicit read set was provided.'' (ns_read_set node), [],
        ''Write set:'', bullets ''- No writes are allowed.'' (ns_write_set node), [],
        ''Restrictions:'',
        ''- Do not spawn child agents.'',
        ''- Do not use /graph, /swarm, provider-hosted multi-agent features, or nested orchestration tools.'',
        ''- Stay within the declared capability, read set, write set, network policy, and tool policy.'',
        ''- Return only a single JSON object matching the AgentGraph NodeOutput schema.'',
        ''- Set graphRunId to '' @ graph_run_id @ '', nodeInstanceId to '' @ ns_id node
          @ '', and attemptId to attempt-'' @ dec32 attempt @ ''.'',
        ''- Do not wrap the JSON in Markdown or prose.'']"

definition subagent_capability_of :: "capability_mode \<Rightarrow> subagent_capability" where
  "subagent_capability_of capability = (if capability = CM_WorktreeWrite then SC_ReadWrite else SC_ReadOnly)"

definition subagent_isolation_of :: "capability_mode \<Rightarrow> subagent_isolation" where
  "subagent_isolation_of capability = (if capability = CM_WorktreeWrite then SI_Worktree else SI_None)"

definition make_subagent_request ::
  "worker_texts \<Rightarrow> subagent_worker_backend \<Rightarrow> string \<Rightarrow> node_spec \<Rightarrow> node_defaults \<Rightarrow> u32 \<Rightarrow> string \<Rightarrow> string
   \<Rightarrow> (worker_error, subagent_request) result" where
  "make_subagent_request wt b graph_run_id node defaults attempt worker_id subagent_type =
     bind_r (resolve_model wt b node defaults) (\<lambda>model.
     Ok \<lparr>sq_id = worker_id, sq_prompt = graph_worker_prompt wt graph_run_id node defaults attempt,
         sq_description = graph_worker_description node, sq_subagent_type = subagent_type,
         sq_parent_session_id = sw_parent_session_id b, sq_parent_prompt_id = sw_parent_prompt_id b,
         sq_resume_from = None, sq_cwd = Some (sw_cwd b),
         sq_runtime_overrides =
           \<lparr>so_model = model, so_model_override_provenance = MP_Harness,
            so_reasoning_effort =
              Some (reasoning_effort_name (unwrap_or (ns_reasoning_effort node) (nd_reasoning_effort defaults))),
            so_persona = None,
            so_capability_mode = Some (subagent_capability_of (effective_capability node defaults)),
            so_isolation = Some (subagent_isolation_of (effective_capability node defaults)),
            so_service_tier = Some (node_service_tier node defaults), so_hosted_multi_agent = Some False,
            so_harness_agent_type = None, so_completion_output_cap = None, so_spawn_depth = None,
            so_output_token_budget = None, so_output_schema = None, so_loop_task_id = None\<rparr>,
         sq_run_in_background = False, sq_surface_completion = False, sq_await_to_completion = False,
         sq_fork_context = False, sq_owner = SO_Task\<rparr>)"

section \<open>Completions\<close>

definition terminal_text_completion ::
  "string \<Rightarrow> node_id \<Rightarrow> u32 \<Rightarrow> node_status \<Rightarrow> string \<Rightarrow> worker_completion" where
  "terminal_text_completion graph_run_id nid attempt status summary =
     \<lparr>wc_graph_run_id = graph_run_id, wc_node_id = nid, wc_attempt = attempt,
      wc_output =
        \<lparr>no_schema_version = AGENTGRAPH_SCHEMA_VERSION, no_graph_run_id = graph_run_id, no_node_instance_id = nid,
         no_attempt_id = ''attempt-'' @ dec32 attempt, no_status = status, no_summary = summary, no_findings = [],
         no_files_read = [], no_files_changed = [], no_commands_run = [], no_tests_run = [], no_artifacts = [],
         no_assumptions = [], no_blockers = (if status = NS_Succeeded then [] else [summary]),
         no_confidence = (if status = NS_Succeeded then Fin 1 else Fin 0)\<rparr>,
      wc_usage = default_usage\<lparr>ua_model_calls := 1, ua_node_attempts := 1,
        ua_failures := (if status \<noteq> NS_Succeeded then 1 else 0)\<rparr>,
      wc_provider_capacity = None\<rparr>"

definition timed_out_completion :: "string \<Rightarrow> node_id \<Rightarrow> u32 \<Rightarrow> string \<Rightarrow> worker_completion" where
  "timed_out_completion graph_run_id nid attempt = terminal_text_completion graph_run_id nid attempt NS_TimedOut"

definition node_output_schema :: "node_spec \<Rightarrow> (schema_id, json) bmap \<Rightarrow> json option" where
  "node_output_schema node schemas =
     opt_or (ns_output_schema node)
       (case ns_output_schema_ref node of None \<Rightarrow> None | Some i \<Rightarrow> bm_get schemas i)"

definition evidence_satisfied :: "node_output \<Rightarrow> string \<Rightarrow> bool" where
  "evidence_satisfied out kind =
     (if kind = ''node-output'' then trim (no_summary out) \<noteq> []
      else if kind \<in> {''finding'', ''findings''} then no_findings out \<noteq> []
      else if kind = ''finding-evidence'' then list_ex (\<lambda>finding. nf_evidence finding \<noteq> []) (no_findings out)
      else if kind \<in> {''artifact'', ''artifacts''} then no_artifacts out \<noteq> []
      else False)"

definition required_evidence_errors :: "node_spec \<Rightarrow> node_output \<Rightarrow> string list" where
  "required_evidence_errors node out =
     concat (map (\<lambda>requirement.
         let kind = trim (er_kind requirement)
         in push_if (\<not> evidence_satisfied out kind) (''required evidence `'' @ kind @ ''` was not satisfied''))
       (filter er_required (ns_evidence_requirements node)))"

definition schema_blockers :: "worker_texts \<Rightarrow> json option \<Rightarrow> node_output \<Rightarrow> string list" where
  "schema_blockers wt schema out =
     (case schema of
        None \<Rightarrow> []
      | Some sch \<Rightarrow>
          (case wt_schema_validator wt sch of
             Inl err \<Rightarrow> [''declared output schema is invalid: '' @ err]
           | Inr validate \<Rightarrow>
               (case wt_output_value wt out of
                  Inl err \<Rightarrow> [''failed to serialize NodeOutput: '' @ err]
                | Inr value \<Rightarrow>
                    (case validate value of
                       Inl err \<Rightarrow> [''node output does not match declared schema: '' @ err]
                     | Inr _ \<Rightarrow> []))))"

definition validate_structured_node_output ::
  "worker_texts \<Rightarrow> string \<Rightarrow> node_spec \<Rightarrow> (schema_id, json) bmap \<Rightarrow> string \<Rightarrow> u32 \<Rightarrow> node_output \<Rightarrow> string list" where
  "validate_structured_node_output wt graph_run_id node schemas repo_root attempt out =
     push_if (no_graph_run_id out \<noteq> graph_run_id)
       (''NodeOutput graphRunId `'' @ no_graph_run_id out @ ''` did not match run `'' @ graph_run_id @ ''`'')
     @ push_if (no_node_instance_id out \<noteq> ns_id node)
         (''NodeOutput nodeInstanceId `'' @ no_node_instance_id out @ ''` did not match node `'' @ ns_id node @ ''`'')
     @ (let expected_attempt = ''attempt-'' @ dec32 attempt
        in push_if (no_attempt_id out \<noteq> expected_attempt)
             (''NodeOutput attemptId `'' @ no_attempt_id out @ ''` did not match `'' @ expected_attempt @ ''`''))
     @ (let verification = verify_node_output out repo_root (ns_write_set node)
        in map (\<lambda>err. ''node output verification failed: '' @ verification_error_display wt err) (ovr_errors verification)
           @ concat (map (\<lambda>(claim, state). push_if (state = CS_Unverified) (''claim `'' @ claim @ ''` is unverified''))
               (ovr_claim_states verification)))
     @ schema_blockers wt (node_output_schema node schemas) out
     @ required_evidence_errors node out"

definition completion_from_subagent_result ::
  "worker_texts \<Rightarrow> string \<Rightarrow> node_spec \<Rightarrow> (schema_id, json) bmap \<Rightarrow> string \<Rightarrow> u32 \<Rightarrow> subagent_result \<Rightarrow> worker_completion" where
  "completion_from_subagent_result wt graph_run_id node schemas repo_root attempt res =
     (let usage = default_usage\<lparr>ua_input_tokens := sr_tokens_used res, ua_model_calls := 1,
            ua_tool_calls := ucast (sr_tool_calls res), ua_node_attempts := 1\<rparr>
      in if sr_cancelled res then
           terminal_text_completion graph_run_id (ns_id node) attempt NS_Cancelled
             (unwrap_or (sr_error res) ''subagent was cancelled before producing output'')
         else if \<not> sr_success res then
           terminal_text_completion graph_run_id (ns_id node) attempt NS_Failed
             (unwrap_or (sr_error res) ''subagent failed before producing output'')
         else case wt_parse_output wt (trim (sr_output res)) of
             Inl err \<Rightarrow>
               terminal_text_completion graph_run_id (ns_id node) attempt NS_Failed
                 (''subagent success output was not valid NodeOutput JSON: '' @ err)
           | Inr out \<Rightarrow>
               let blockers = validate_structured_node_output wt graph_run_id node schemas repo_root attempt out;
                   out1 = (if blockers \<noteq> [] \<and> no_status out = NS_Succeeded
                           then out\<lparr>no_status := NS_Failed, no_confidence := Fin 0\<rparr> else out)
               in \<lparr>wc_graph_run_id = graph_run_id, wc_node_id = ns_id node, wc_attempt = attempt,
                   wc_output = out1\<lparr>no_blockers := no_blockers out1 @ blockers\<rparr>, wc_usage = usage,
                   wc_provider_capacity = None\<rparr>)"

section \<open>Running a node\<close>

definition worker_timeout_ms :: "node_spec \<Rightarrow> node_defaults \<Rightarrow> u64" where
  "worker_timeout_ms node defaults =
     sat_mul (unwrap_or (opt_or (ns_timeout_seconds node) (nd_timeout_seconds defaults)) 600) 1000"

definition ended_result :: "subagent_snapshot \<Rightarrow> string \<Rightarrow> subagent_result" where
  "ended_result snap worker_id =
     \<lparr>sr_success = False, sr_output = [], sr_error = None, sr_cancelled = False,
      sr_subagent_id = sn_subagent_id snap, sr_child_session_id = worker_id, sr_tool_calls = 0, sr_turns = 0,
      sr_duration_ms = sn_duration_ms snap, sr_tokens_used = 0, sr_output_tokens_used = 0, sr_total_tokens_used = 0,
      sr_output_usage_incomplete = False, sr_worktree_path = None, sr_backgrounded = False\<rparr>"

definition resolve_backgrounded_result ::
  "'s subagent_service \<Rightarrow> string \<Rightarrow> node_spec \<Rightarrow> node_defaults \<Rightarrow> 's \<Rightarrow> 's \<times> subagent_result option" where
  "resolve_backgrounded_result svc worker_id node defaults s =
     (case ss_query svc worker_id True (Some (worker_timeout_ms node defaults)) s of
        (s1, None) \<Rightarrow> (fst (ss_cancel svc worker_id s1), None)
      | (s1, Some snap) \<Rightarrow>
          (case sn_status snap of
             SSS_Completed out tool_calls turns worktree_path \<Rightarrow>
               (s1, Some ((ended_result snap worker_id)\<lparr>sr_success := True, sr_output := out,
                  sr_tool_calls := tool_calls, sr_turns := turns, sr_worktree_path := worktree_path\<rparr>))
           | SSS_Failed err \<Rightarrow> (s1, Some ((ended_result snap worker_id)\<lparr>sr_error := Some err\<rparr>))
           | SSS_Cancelled reason \<Rightarrow>
               (s1, Some ((ended_result snap worker_id)\<lparr>sr_error := reason, sr_cancelled := True\<rparr>))
           | _ \<Rightarrow> (fst (ss_cancel svc worker_id s1), None)))"

text \<open>The observations are what the sessions of workers have recorded by the time the answer is read.\<close>

definition finish_run ::
  "worker_texts \<Rightarrow> subagent_worker_backend \<Rightarrow> ('s \<Rightarrow> session_observations) \<Rightarrow> string \<Rightarrow> node_spec
   \<Rightarrow> (schema_id, json) bmap \<Rightarrow> u32 \<Rightarrow> subagent_result \<Rightarrow> 's \<Rightarrow> worker_completion" where
  "finish_run wt b observations graph_run_id node schemas attempt res s =
     (completion_from_subagent_result wt graph_run_id node schemas (sw_cwd b) attempt res)
       \<lparr>wc_provider_capacity := take_session_observation (sr_child_session_id res) (observations s)\<rparr>"

definition spawn_worker ::
  "worker_texts \<Rightarrow> 's subagent_service \<Rightarrow> ('s \<Rightarrow> session_observations) \<Rightarrow> subagent_worker_backend \<Rightarrow> string
   \<Rightarrow> node_spec \<Rightarrow> node_defaults \<Rightarrow> (schema_id, json) bmap \<Rightarrow> u32 \<Rightarrow> string \<Rightarrow> subagent_request \<Rightarrow> 's
   \<Rightarrow> 's \<times> (worker_error, worker_completion) result" where
  "spawn_worker wt svc observations b graph_run_id node defaults schemas attempt worker_id request s =
     (case ss_spawn svc request s of
        (s1, Inl err) \<Rightarrow> (s1, rejected node (''subagent transport failed: '' @ err))
      | (s1, Inr res) \<Rightarrow>
          if sr_backgrounded res then
            (case resolve_backgrounded_result svc worker_id node defaults s1 of
               (s2, None) \<Rightarrow> (s2, Ok (timed_out_completion graph_run_id (ns_id node) attempt
                 ''subagent exceeded the node timeout before returning terminal output''))
             | (s2, Some res') \<Rightarrow> (s2, Ok (finish_run wt b observations graph_run_id node schemas attempt res' s2)))
          else (s1, Ok (finish_run wt b observations graph_run_id node schemas attempt res s1)))"

definition run_node ::
  "worker_texts \<Rightarrow> 's subagent_service \<Rightarrow> ('s \<Rightarrow> session_observations) \<Rightarrow> subagent_worker_backend \<Rightarrow> string
   \<Rightarrow> node_spec \<Rightarrow> node_defaults \<Rightarrow> (schema_id, json) bmap \<Rightarrow> u32 \<Rightarrow> string \<Rightarrow> 's
   \<Rightarrow> 's \<times> (worker_error, worker_completion) result" where
  "run_node wt svc observations b graph_run_id node defaults schemas attempt worker_id s =
     (case validate_node_authority node defaults of
        Inl e \<Rightarrow> (s, Err e)
      | Inr _ \<Rightarrow>
     (let subagent_type = subagent_type_for_node node
      in case validate_subagent_type svc b node subagent_type s of
        (s1, Inl e) \<Rightarrow> (s1, Err e)
      | (s1, Inr _) \<Rightarrow>
     (case make_subagent_request wt b graph_run_id node defaults attempt worker_id subagent_type of
        Inl e \<Rightarrow> (s1, Err e)
      | Inr request \<Rightarrow>
     spawn_worker wt svc observations b graph_run_id node defaults schemas attempt worker_id request s1)))"

definition cancel_worker :: "'s subagent_service \<Rightarrow> string \<Rightarrow> 's \<Rightarrow> 's \<times> (worker_error, unit) result" where
  "cancel_worker svc worker_id s =
     (case ss_cancel svc worker_id s of
        (s', SCO_NotFound) \<Rightarrow> (s', Err (WE_NotFound worker_id))
      | (s', _) \<Rightarrow> (s', Ok ()))"

definition graph_worker_id :: "string \<Rightarrow> string \<Rightarrow> node_id \<Rightarrow> u32 \<Rightarrow> string" where
  "graph_worker_id uuid run_id nid attempt =
     ''agentgraph-'' @ run_id @ ''-'' @ nid @ ''-'' @ dec32 attempt @ ''-'' @ uuid"

section \<open>Authority of spawned workers\<close>

text \<open>The same service with a record of the requests that were spawned.\<close>

definition recorded :: "'s subagent_service \<Rightarrow> ('s \<times> subagent_request list) subagent_service" where
  "recorded svc =
     \<lparr>ss_spawn = (\<lambda>request (s, past). case ss_spawn svc request s of (s', r) \<Rightarrow> ((s', past @ [request]), r)),
      ss_query = (\<lambda>i block timeout (s, past). case ss_query svc i block timeout s of (s', r) \<Rightarrow> ((s', past), r)),
      ss_cancel = (\<lambda>i (s, past). case ss_cancel svc i s of (s', r) \<Rightarrow> ((s', past), r)),
      ss_validate_type = (\<lambda>ty sid (s, past). case ss_validate_type svc ty sid s of (s', r) \<Rightarrow> ((s', past), r))\<rparr>"

lemma recorded_sel [simp]:
  "ss_spawn (recorded svc) request (s, past) = ((fst (ss_spawn svc request s), past @ [request]), snd (ss_spawn svc request s))"
  "ss_query (recorded svc) i block timeout (s, past) = ((fst (ss_query svc i block timeout s), past), snd (ss_query svc i block timeout s))"
  "ss_cancel (recorded svc) i (s, past) = ((fst (ss_cancel svc i s), past), snd (ss_cancel svc i s))"
  "ss_validate_type (recorded svc) ty sid (s, past) = ((fst (ss_validate_type svc ty sid s), past), snd (ss_validate_type svc ty sid s))"
  by (simp_all add: recorded_def split_def)

lemma recorded_validate_type:
  "validate_subagent_type (recorded svc) b node ty (s, past) =
   ((fst (validate_subagent_type svc b node ty s), past), snd (validate_subagent_type svc b node ty s))"
  by (simp add: validate_subagent_type_def split_def)

lemma recorded_background:
  "resolve_backgrounded_result (recorded svc) wid node defaults (s, past) =
   ((fst (resolve_backgrounded_result svc wid node defaults s), past), snd (resolve_backgrounded_result svc wid node defaults s))"
  by (simp add: resolve_backgrounded_result_def split_def split: option.split subagent_snapshot_status.split)

lemma recorded_spawn:
  "spawn_worker wt (recorded svc) obs b run node defaults schemas attempt wid request (s, past) =
   ((fst (spawn_worker wt svc (\<lambda>s. obs (s, past @ [request])) b run node defaults schemas attempt wid request s), past @ [request]),
    snd (spawn_worker wt svc (\<lambda>s. obs (s, past @ [request])) b run node defaults schemas attempt wid request s))"
  by (simp add: prod_eq_iff spawn_worker_def split_def recorded_background finish_run_def split: sum.split option.split)

text \<open>
  What a recorded run does: the state and the result are those of the run that is not recorded, and the
  record grows by the one request that passed every check, or not at all.
\<close>

lemma recorded_run:
  fixes svc node
  defines "ty \<equiv> subagent_type_for_node node"
  shows "run_node wt (recorded svc) (\<lambda>x. obs (fst x)) b run node defaults schemas attempt wid (s, past) =
   ((fst (run_node wt svc obs b run node defaults schemas attempt wid s),
     past @ (case (validate_node_authority node defaults, snd (validate_subagent_type svc b node ty s),
                  make_subagent_request wt b run node defaults attempt wid ty) of
       (Inr _, Inr _, Inr request) \<Rightarrow> [request] | _ \<Rightarrow> [])),
    snd (run_node wt svc obs b run node defaults schemas attempt wid s))"
  unfolding run_node_def ty_def
  by (simp add: Let_def split_def recorded_validate_type recorded_spawn split: sum.split)

lemma find_None_all: "find P xs = None \<longleftrightarrow> list_all (\<lambda>x. \<not> P x) xs"
  by (auto simp: find_None_iff list_all_iff)

lemma authority_Ok:
  assumes "validate_node_authority node defaults = Ok ()"
  shows "is_model_worker node" and "effective_capability node defaults \<in> {CM_ReadOnly, CM_WorktreeWrite}"
    and "list_all (\<lambda>tool. \<not> is_nested_orchestration_tool tool) (ns_tool_allowlist node)"
  using assms
  by (auto simp: validate_node_authority_def rejected_def find_None_all Let_def split: if_splits option.splits)
    (cases "effective_capability node defaults"; simp)+

lemma request_fields:
  assumes "make_subagent_request wt b run node defaults attempt wid ty = Ok request"
  shows "sq_id request = wid" "sq_cwd request = Some (sw_cwd b)" "sq_parent_session_id request = sw_parent_session_id b"
    and "so_capability_mode (sq_runtime_overrides request) = Some (subagent_capability_of (effective_capability node defaults))"
    and "so_isolation (sq_runtime_overrides request) = Some (subagent_isolation_of (effective_capability node defaults))"
    and "so_hosted_multi_agent (sq_runtime_overrides request) = Some False"
  using assms by (auto simp: make_subagent_request_def bind_r_eq_Ok)

text \<open>
  C20. Authority of workers: running a node spawns at most one subagent. It is spawned only for a model
  worker that asks for no orchestration tool and for no more than an isolated worktree; it works in the
  directory of the backend, without provider-hosted agents, and it may write exactly when it has a
  worktree of its own.
\<close>

theorem spawned_worker_confined:
  assumes "run_node wt (recorded svc) obs b run node defaults schemas attempt wid (s, []) = ((s', requests), r)"
  shows "length requests \<le> 1 \<and>
    (\<forall>request \<in> set requests.
       is_model_worker node \<and> list_all (\<lambda>tool. \<not> is_nested_orchestration_tool tool) (ns_tool_allowlist node) \<and>
       effective_capability node defaults \<in> {CM_ReadOnly, CM_WorktreeWrite} \<and>
       sq_id request = wid \<and> sq_cwd request = Some (sw_cwd b) \<and>
       so_hosted_multi_agent (sq_runtime_overrides request) = Some False \<and>
       (so_capability_mode (sq_runtime_overrides request), so_isolation (sq_runtime_overrides request)) =
         (if effective_capability node defaults = CM_WorktreeWrite then (Some SC_ReadWrite, Some SI_Worktree)
          else (Some SC_ReadOnly, Some SI_None)))"
proof -
  let ?ty = "subagent_type_for_node node"
  have "requests = (case (validate_node_authority node defaults, snd (validate_subagent_type svc b node ?ty s),
                  make_subagent_request wt b run node defaults attempt wid ?ty) of
       (Inr _, Inr _, Inr request) \<Rightarrow> [request] | _ \<Rightarrow> [])"
    using assms by (auto simp: run_node_def Let_def split_def recorded_validate_type recorded_spawn split: sum.splits)
  then consider "requests = []" | request where "requests = [request]" "validate_node_authority node defaults = Ok ()"
      "make_subagent_request wt b run node defaults attempt wid ?ty = Ok request"
    by (auto split: sum.splits)
  then show ?thesis
  proof cases
    case 2
    with authority_Ok [OF 2(2)] request_fields [OF 2(3)] show ?thesis
      by (auto simp: subagent_capability_of_def subagent_isolation_of_def)
  qed simp
qed

text \<open>A service with one subagent that succeeds at once, and texts that stand for JSON.\<close>

definition plain_result :: subagent_result where
  "plain_result =
     \<lparr>sr_success = True, sr_output = [], sr_error = None, sr_cancelled = False, sr_subagent_id = ''w'',
      sr_child_session_id = ''w'', sr_tool_calls = 0, sr_turns = 1, sr_duration_ms = 5, sr_tokens_used = 7,
      sr_output_tokens_used = 2, sr_total_tokens_used = 9, sr_output_usage_incomplete = False, sr_worktree_path = None,
      sr_backgrounded = False\<rparr>"

definition plain_service :: "subagent_result \<Rightarrow> unit subagent_service" where
  "plain_service res =
     \<lparr>ss_spawn = (\<lambda>_ s. (s, Ok res)), ss_query = (\<lambda>_ _ _ s. (s, None)), ss_cancel = (\<lambda>_ s. (s, SCO_NotFound)),
      ss_validate_type = (\<lambda>_ _ s. (s, VT_Ok))\<rparr>"

definition worker_output :: node_output where
  "worker_output = checked_output\<lparr>no_attempt_id := ''attempt-1''\<rparr>"

definition plain_texts :: "node_output \<Rightarrow> worker_texts" where
  "plain_texts out =
     \<lparr>wt_parse_output = (\<lambda>_. Ok out), wt_output_value = (\<lambda>_. Err []), wt_schema_validator = (\<lambda>_. Err []),
      wt_inputs_pretty = (\<lambda>_. None), wt_f64_display = (\<lambda>_. []), wt_debug_strings = (\<lambda>_. []),
      wt_debug_resolution_error = (\<lambda>_. [])\<rparr>"

definition plain_node :: node_spec where
  "plain_node = minimal_node ''a'' NK_Agent ''do it''"

lemma plain_authority: "validate_node_authority plain_node default_node_defaults = Ok ()"
  by (simp add: validate_node_authority_def plain_node_def minimal_node_def default_node_defaults_def is_model_worker_def
      is_model_worker_kind_def effective_capability_def selector_name_def)

lemma plain_request:
  "\<exists>request. make_subagent_request wt b run plain_node default_node_defaults attempt wid ty = Ok request"
  by (simp add: make_subagent_request_def resolve_model_def selector_name_def plain_node_def minimal_node_def
      default_node_defaults_def)

lemma plain_valid_type: "validate_subagent_type (plain_service res) b node ty s = (s, Ok ())"
  by (simp add: validate_subagent_type_def plain_service_def)

definition plain_run :: "(unit \<times> subagent_request list) \<times> (worker_error, worker_completion) result" where
  "plain_run =
     run_node (plain_texts worker_output) (recorded (plain_service plain_result)) (\<lambda>_. []) (new_subagent_backend ''session'' ''/repo'')
       ''run'' plain_node default_node_defaults [] 1 ''w'' ((), [])"

theorem spawned_worker_confined_witness:
  "map (\<lambda>request. so_isolation (sq_runtime_overrides request)) (snd (fst plain_run)) = [Some SI_None]"
proof -
  let ?b = "new_subagent_backend ''session'' ''/repo''"
  obtain request where "make_subagent_request (plain_texts worker_output) ?b ''run'' plain_node default_node_defaults 1 ''w''
      (subagent_type_for_node plain_node) = Ok request"
    using plain_request by blast
  then have one: "snd (fst plain_run) = [request]"
    unfolding plain_run_def by (simp add: recorded_run [where obs = "\<lambda>_. []"] plain_authority plain_valid_type)
  have "run_node (plain_texts worker_output) (recorded (plain_service plain_result)) (\<lambda>_. []) ?b ''run'' plain_node
      default_node_defaults [] 1 ''w'' ((), []) = ((fst (fst plain_run), [request]), snd plain_run)"
    unfolding one [symmetric] by (simp add: plain_run_def prod_eq_iff)
  from spawned_worker_confined [OF this] one show ?thesis
    by (simp add: plain_node_def minimal_node_def default_node_defaults_def effective_capability_def)
qed

section \<open>Outputs that count\<close>

lemma push_concat_Nil: "concat (map (\<lambda>x. push_if (P x) (f x)) xs) = [] \<longleftrightarrow> (\<forall>x \<in> set xs. \<not> P x)"
  by (simp add: push_all_Nil list_all_iff)

lemma push_pairs_Nil:
  "concat (map (\<lambda>(a, b). push_if (P a b) (f a b)) xs) = [] \<longleftrightarrow> (\<forall>(a, b) \<in> set xs. \<not> P a b)"
  by (induction xs) auto

lemma required_evidence_Nil:
  "required_evidence_errors node out = [] \<longleftrightarrow>
   (\<forall>requirement \<in> set (ns_evidence_requirements node). er_required requirement \<longrightarrow> evidence_satisfied out (trim (er_kind requirement)))"
  by (auto simp: required_evidence_errors_def Let_def push_concat_Nil)

definition matches_schema :: "worker_texts \<Rightarrow> json \<Rightarrow> node_output \<Rightarrow> bool" where
  "matches_schema wt schema out \<longleftrightarrow>
     (\<exists>validate value. wt_schema_validator wt schema = Ok validate \<and> wt_output_value wt out = Ok value \<and> validate value = Ok ())"

lemma schema_blockers_Nil:
  "schema_blockers wt schema out = [] \<longleftrightarrow> (case schema of None \<Rightarrow> True | Some sch \<Rightarrow> matches_schema wt sch out)"
  by (auto simp: schema_blockers_def matches_schema_def split: option.splits sum.splits)

lemma structured_output_Nil:
  "validate_structured_node_output wt run node schemas root_dir attempt out = [] \<longleftrightarrow>
   no_graph_run_id out = run \<and> no_node_instance_id out = ns_id node \<and> no_attempt_id out = ''attempt-'' @ dec32 attempt \<and>
   verified_report_is_valid (verify_node_output out root_dir (ns_write_set node)) \<and>
   (\<forall>(claim, state) \<in> set (classify_claims out). state \<noteq> CS_Unverified) \<and>
   (case node_output_schema node schemas of None \<Rightarrow> True | Some sch \<Rightarrow> matches_schema wt sch out) \<and>
   (\<forall>requirement \<in> set (ns_evidence_requirements node). er_required requirement \<longrightarrow> evidence_satisfied out (trim (er_kind requirement)))"
proof -
  have "ovr_claim_states (verify_node_output out root_dir declared) = classify_claims out" for declared
    by (simp add: verify_node_output_def)
  then show ?thesis
    unfolding validate_structured_node_output_def Let_def append_is_Nil_conv map_is_Nil_conv push_if_Nil push_pairs_Nil
      schema_blockers_Nil required_evidence_Nil verified_report_is_valid_def
    by simp
qed

lemma spawn_worker_Ok:
  assumes "spawn_worker wt svc obs b run node defaults schemas attempt wid request s = (s', Ok c)"
  shows "c = timed_out_completion run (ns_id node) attempt
      ''subagent exceeded the node timeout before returning terminal output'' \<or>
    (\<exists>res. c = finish_run wt b obs run node schemas attempt res s')"
  using assms by (auto simp: spawn_worker_def rejected_def split: sum.splits prod.splits option.splits if_splits)

lemma run_node_Ok:
  assumes "run_node wt svc obs b run node defaults schemas attempt wid s = (s', Ok c)"
  obtains request s1 where "spawn_worker wt svc obs b run node defaults schemas attempt wid request s1 = (s', Ok c)"
  using assms by (auto simp: run_node_def Let_def split: sum.splits prod.splits)

lemma completion_ids:
  "wc_graph_run_id (completion_from_subagent_result wt run node schemas dir attempt res) = run"
  "wc_node_id (completion_from_subagent_result wt run node schemas dir attempt res) = ns_id node"
  "wc_attempt (completion_from_subagent_result wt run node schemas dir attempt res) = attempt"
  by (simp_all add: completion_from_subagent_result_def Let_def terminal_text_completion_def split: sum.split)

lemma completion_succeeded:
  assumes "no_status (wc_output (completion_from_subagent_result wt run node schemas dir attempt res)) = NS_Succeeded"
  shows "validate_structured_node_output wt run node schemas dir attempt
    (wc_output (completion_from_subagent_result wt run node schemas dir attempt res)) = []"
  using assms
  by (auto simp: completion_from_subagent_result_def Let_def terminal_text_completion_def split: sum.splits if_splits)

text \<open>
  C21. An answer counts as a success of its node only after verification: it names the run, the node and
  the attempt it was asked for, passes the deterministic checks against the directory of the backend and
  the write set of the node, leaves no claim unverified, matches the declared schema, and provides the
  required evidence.
\<close>

theorem succeeded_worker_verified:
  assumes "run_node wt svc obs b run node defaults schemas attempt wid s = (s', Ok c)"
    and "no_status (wc_output c) = NS_Succeeded"
  shows "wc_graph_run_id c = run \<and> wc_node_id c = ns_id node \<and> wc_attempt c = attempt \<and>
    no_graph_run_id (wc_output c) = run \<and> no_node_instance_id (wc_output c) = ns_id node \<and>
    no_attempt_id (wc_output c) = ''attempt-'' @ dec32 attempt \<and>
    verified_report_is_valid (verify_node_output (wc_output c) (sw_cwd b) (ns_write_set node)) \<and>
    (\<forall>(claim, state) \<in> set (classify_claims (wc_output c)). state \<noteq> CS_Unverified) \<and>
    (case node_output_schema node schemas of None \<Rightarrow> True | Some sch \<Rightarrow> matches_schema wt sch (wc_output c)) \<and>
    (\<forall>requirement \<in> set (ns_evidence_requirements node).
       er_required requirement \<longrightarrow> evidence_satisfied (wc_output c) (trim (er_kind requirement)))"
proof -
  from assms(1) obtain request s1 where "spawn_worker wt svc obs b run node defaults schemas attempt wid request s1 = (s', Ok c)"
    by (rule run_node_Ok)
  from spawn_worker_Ok [OF this] assms(2) obtain res where c: "c = finish_run wt b obs run node schemas attempt res s'"
    by (auto simp: timed_out_completion_def terminal_text_completion_def)
  then have "validate_structured_node_output wt run node schemas (sw_cwd b) attempt (wc_output c) = []"
    using assms(2) completion_succeeded by (simp add: finish_run_def)
  moreover have "wc_graph_run_id c = run" "wc_node_id c = ns_id node" "wc_attempt c = attempt"
    using c by (simp_all add: finish_run_def completion_ids)
  ultimately show ?thesis unfolding structured_output_Nil by blast
qed

lemma plain_checked:
  "validate_structured_node_output wt ''run'' plain_node schemas ''/repo'' 1 worker_output = []"
proof -
  have "validate_id ''attemptId'' ''attempt-1'' = []" by code_simp
  then have "validate_node_output worker_output = []" by (simp add: worker_output_def checked_output_valid(1))
  moreover note src_relative
  moreover have "dec32 1 = ''1''" by code_simp
  ultimately show ?thesis
    unfolding structured_output_Nil verified_iff
    by (simp add: worker_output_def checked_output_def output_paths_def f64_le_def f64_eq_def classify_claims_def
        plain_node_def minimal_node_def node_output_schema_def)
qed

theorem succeeded_worker_verified_witness:
  "verified_report_is_valid (verify_node_output worker_output ''/repo'' []) \<and> no_attempt_id worker_output = ''attempt-'' @ dec32 1"
proof -
  let ?b = "new_subagent_backend ''session'' ''/repo''"
  obtain request where "make_subagent_request (plain_texts worker_output) ?b ''run'' plain_node default_node_defaults 1 ''w''
      (subagent_type_for_node plain_node) = Ok request"
    using plain_request by blast
  then obtain c where run: "run_node (plain_texts worker_output) (plain_service plain_result) (\<lambda>_. []) ?b ''run'' plain_node
      default_node_defaults [] 1 ''w'' () = ((), Ok c)" and c: "c = finish_run (plain_texts worker_output) ?b (\<lambda>_. []) ''run'' plain_node [] 1 plain_result ()"
    by (simp add: run_node_def plain_authority plain_valid_type spawn_worker_def) (simp add: plain_service_def plain_result_def)
  then have out: "wc_output c = worker_output"
    using plain_checked [of "plain_texts worker_output" "[]"]
    by (simp add: finish_run_def completion_from_subagent_result_def plain_result_def new_subagent_backend_def)
      (simp add: plain_texts_def)
  then have "no_status (wc_output c) = NS_Succeeded" by (simp add: worker_output_def checked_output_def)
  from succeeded_worker_verified [OF run this]
  have "verified_report_is_valid (verify_node_output (wc_output c) (sw_cwd ?b) (ns_write_set plain_node))"
    "no_attempt_id (wc_output c) = ''attempt-'' @ dec32 1" by blast+
  then show ?thesis unfolding out by (simp add: new_subagent_backend_def plain_node_def minimal_node_def)
qed

section \<open>Where the worker differs from what it means to do\<close>

text \<open>
  An answer with a status that is not final fails verification, and is handed on with that status: only a
  success is turned into a failure.
\<close>

lemma unfinished_status_kept:
  assumes "sr_success res" "\<not> sr_cancelled res" and "wt_parse_output wt (trim (sr_output res)) = Ok out" and "no_status out = NS_Running"
  shows "no_status (wc_output (completion_from_subagent_result wt run node schemas dir attempt res)) = NS_Running \<and>
    validate_structured_node_output wt run node schemas dir attempt out \<noteq> []"
proof -
  have "\<not> verified_report_is_valid (verify_node_output out dir declared)" for declared
    using assms(4) by (simp add: verified_iff)
  with assms show ?thesis by (simp add: completion_from_subagent_result_def Let_def structured_output_Nil)
qed

text \<open>A worker that failed or was cancelled reports no tokens, whatever it used; output tokens are never reported.\<close>

lemma tokens_not_reported:
  "sr_cancelled res \<or> \<not> sr_success res \<Longrightarrow> ua_input_tokens (wc_usage (completion_from_subagent_result wt run node schemas dir attempt res)) = 0"
  "ua_output_tokens (wc_usage (completion_from_subagent_result wt run node schemas dir attempt res)) = 0"
  by (auto simp: completion_from_subagent_result_def Let_def terminal_text_completion_def default_usage_def split: sum.split)

end
