(* ===== verification/Durable_Run.thy ===== *)
theory Durable_Run
  imports Scheduler Subagent_Worker Runtime
begin

text \<open>
  Durable runs: the part of \<^verbatim>\<open>scheduler.rs\<close> that drives a run over subagent workers and the database
  (\<^verbatim>\<open>run_to_completion_with_subagents\<close>, \<^verbatim>\<open>step_with_subagents\<close> and what they call).

  The state is the scheduler in memory, the database, and everything outside (the subagent service and
  the clock). Other tasks and processes write to the database while this one waits: at every await the
  argument \<open>su_await\<close> changes it, and \<open>su_host\<close> the admission controller that the runs of the process
  share. The workers of a step run at the same time; their calls are made one
  after the other here, which loses nothing, since an answer of the service is any function of its state.
  Waiting for a paused run may go on for ever: \<open>wait_for_runnable_status\<close> has the value \<open>None\<close> then.
\<close>

section \<open>State and effects\<close>

record ('j, 'w) world =
  wo_sched :: scheduler
  wo_store :: "'j store"
  wo_outside :: 'w

record ('j, 'w) surroundings =
  su_engine :: "'j engine"
  su_texts :: worker_texts
  su_loop_env :: loop_env
  su_loop_json_error :: string
  su_service :: "'w subagent_service"
  su_observations :: "'w \<Rightarrow> session_observations"
  su_backend :: subagent_worker_backend
  su_new_v4 :: "controller \<Rightarrow> string"
  su_uuid :: "'w \<Rightarrow> string"
  su_now :: "'w \<Rightarrow> i64"
  su_tick :: "'w \<Rightarrow> 'w"
  su_await :: "'j store \<Rightarrow> 'w \<Rightarrow> 'j store \<times> 'w"
  su_host :: "controller \<Rightarrow> 'w \<Rightarrow> controller"

text \<open>A failed operation returned an error of the scheduler, or one of its \<^verbatim>\<open>expect\<close>s failed.\<close>

datatype run_failure = RF_Error scheduler_error | RF_Panic

type_synonym ('j, 'w, 'a) outcome = "('j, 'w) world \<times> (run_failure, 'a) result"

definition read_clock :: "('j, 'w) surroundings \<Rightarrow> ('j, 'w) world \<Rightarrow> i64 \<times> ('j, 'w) world" where
  "read_clock su w = (su_now su (wo_outside w), w\<lparr>wo_outside := su_tick su (wo_outside w)\<rparr>)"

text \<open>An operation of the store at the time it reads from the clock.\<close>

definition with_store ::
  "('j, 'w) surroundings \<Rightarrow> (i64 \<Rightarrow> 'j store \<Rightarrow> 'j store \<times> (store_error, 'a) result) \<Rightarrow> ('j, 'w) world \<Rightarrow> ('j, 'w, 'a) outcome" where
  "with_store su f w =
     (case read_clock su w of (now, w1) \<Rightarrow>
       (case f now (wo_store w1) of
          (s, Inl e) \<Rightarrow> (w1\<lparr>wo_store := s\<rparr>, Err (RF_Error (SE_Store e)))
        | (s, Inr v) \<Rightarrow> (w1\<lparr>wo_store := s\<rparr>, Ok v)))"

definition ask_store :: "('j store \<Rightarrow> (store_error, 'a) result) \<Rightarrow> ('j, 'w) world \<Rightarrow> ('j, 'w, 'a) outcome" where
  "ask_store f w =
     (case f (wo_store w) of Inl e \<Rightarrow> (w, Err (RF_Error (SE_Store e))) | Inr v \<Rightarrow> (w, Ok v))"

definition await_others :: "('j, 'w) surroundings \<Rightarrow> ('j, 'w) world \<Rightarrow> ('j, 'w) world" where
  "await_others su w =
     (case su_await su (wo_store w) (wo_outside w) of (s, others) \<Rightarrow>
        w\<lparr>wo_sched := (wo_sched w)\<lparr>sc_host := su_host su (sc_host (wo_sched w)) others\<rparr>, wo_store := s, wo_outside := others\<rparr>)"

definition upd :: "(scheduler \<Rightarrow> scheduler) \<Rightarrow> ('j, 'w) world \<Rightarrow> ('j, 'w) world" where
  "upd f w = w\<lparr>wo_sched := f (wo_sched w)\<rparr>"

definition set_status :: "node_id \<Rightarrow> node_status \<Rightarrow> scheduler \<Rightarrow> scheduler" where
  "set_status nid status s = s\<lparr>sc_statuses := bm_insert nid status (sc_statuses s)\<rparr>"

section \<open>Starting nodes\<close>

definition default_lease_ttl_ms :: i64 where
  "default_lease_ttl_ms = 24 * 60 * 60 * 1000"

datatype dispatch =
    DP_Continue
  | DP_Break
  | DP_Selected node_id node_spec u32 string

definition drop_ticket :: "node_id \<Rightarrow> scheduler \<Rightarrow> scheduler" where
  "drop_ticket nid s =
     (case bm_get (sc_active_tickets s) nid of
        None \<Rightarrow> s
      | Some ticket \<Rightarrow>
          s\<lparr>sc_active_tickets := bm_remove nid (sc_active_tickets s), sc_resources := release_resources (sc_resources s) ticket\<rparr>)"

definition drop_admissions :: "(controller \<Rightarrow> string) \<Rightarrow> node_id \<Rightarrow> scheduler \<Rightarrow> scheduler" where
  "drop_admissions new_v4 nid s = release_host_admission new_v4 nid (fst (release_provider_admission nid None s))"

definition mark_compensating ::
  "('j, 'w) surroundings \<Rightarrow> string \<Rightarrow> node_spec \<Rightarrow> u32 \<Rightarrow> ('j, 'w) world \<Rightarrow> ('j, 'w, unit) outcome" where
  "mark_compensating su run_id node attempt w =
     (case (ns_kind node = NK_Compensation, sc_compensation_plan (wo_sched w)) of
        (True, Some plan) \<Rightarrow>
          (let plan' = mark_running attempt plan
           in and_then (with_store su (\<lambda>now. save_compensation_plan (su_engine su) run_id plan' now)
                  (upd (\<lambda>s. s\<lparr>sc_compensation_plan := Some plan'\<rparr>) w)) (\<lambda>_ w.
              (upd (set_status (ns_id node) NS_Compensating) w, Ok ())))
      | _ \<Rightarrow> (w, Ok ()))"

definition take_lease ::
  "('j, 'w) surroundings \<Rightarrow> string \<Rightarrow> node_spec \<Rightarrow> usage_accounting \<Rightarrow> node_lease \<Rightarrow> ('j, 'w) world \<Rightarrow> ('j, 'w, dispatch) outcome" where
  "take_lease su run_id node estimate lease w =
     (let nid = ns_id node; rid = (run_id, nid, nl_attempt lease)
      in case reserve (sc_budget (wo_sched w)) rid estimate of
           (l, Inl e) \<Rightarrow> (upd (\<lambda>s. s\<lparr>sc_budget := l\<rparr>) w, Err (RF_Error (SE_Budget e)))
         | (l, Inr _) \<Rightarrow>
             and_then (mark_compensating su run_id node (nl_attempt lease)
               (upd (\<lambda>s. s\<lparr>sc_budget := l, sc_budget_reservations := bm_insert nid rid (sc_budget_reservations s),
                           sc_attempts := bm_insert nid (nl_attempt lease) (sc_attempts s)\<rparr>) w)) (\<lambda>_ w.
             (w, Ok (DP_Selected nid node (nl_attempt lease) (nl_owner lease)))))"

definition lease_worker ::
  "('j, 'w) surroundings \<Rightarrow> string \<Rightarrow> node_spec \<Rightarrow> u32 \<Rightarrow> usage_accounting \<Rightarrow> ('j, 'w) world \<Rightarrow> ('j, 'w, dispatch) outcome" where
  "lease_worker su run_id node next_attempt estimate w =
     (let nid = ns_id node;
          worker_id = graph_worker_id (su_uuid su (wo_outside w)) run_id nid next_attempt
      in and_then (with_store su (\<lambda>now. reserve_and_lease_node (su_engine su) run_id nid worker_id
             default_lease_ttl_ms estimate now) w) (\<lambda>granted w.
         case granted of
           LRO_Leased lease \<Rightarrow> take_lease su run_id node estimate lease w
         | LRO_NotRunnable \<Rightarrow>
             (upd (\<lambda>s. set_status nid NS_Pending (queue_worker nid (drop_admissions (su_new_v4 su) nid (drop_ticket nid s)))) w,
              Ok DP_Continue)
         | LRO_BudgetStopped _ \<Rightarrow>
             (upd (\<lambda>s. let s1 = drop_admissions (su_new_v4 su) nid (drop_ticket nid s)
                       in s1\<lparr>sc_budget := stop_ledger (sc_budget s1) ''hard durable run budget reached'',
                             sc_run_status := RS_BudgetStopped\<rparr>) w,
              Ok DP_Break)))"

definition start_node ::
  "('j, 'w) surroundings \<Rightarrow> string \<Rightarrow> node_spec \<Rightarrow> u32 \<Rightarrow> usage_accounting \<Rightarrow> ('j, 'w) world \<Rightarrow> ('j, 'w, dispatch) outcome" where
  "start_node su run_id node next_attempt estimate w =
     (if is_model_worker node then lease_worker su run_id node next_attempt estimate w
      else and_then (with_store su (\<lambda>now. mark_node_status (su_engine su) run_id (ns_id node) NS_Succeeded now) w) (\<lambda>_ w.
           (upd (complete_node (su_new_v4 su) (ns_id node) NS_Succeeded) w, Ok DP_Continue)))"

definition claim_resources ::
  "('j, 'w) surroundings \<Rightarrow> string \<Rightarrow> node_spec \<Rightarrow> u32 \<Rightarrow> usage_accounting \<Rightarrow> ('j, 'w) world \<Rightarrow> ('j, 'w, dispatch) outcome" where
  "claim_resources su run_id node next_attempt estimate w =
     (let nid = ns_id node; s = wo_sched w
      in case try_acquire (sc_resources s) node (sb_defaults (gs_spec (sc_spec s))) (cf_plan_mode (sc_config s)) of
           Inl source \<Rightarrow>
             if is_contention source
             then (upd (\<lambda>s. queue_worker nid (drop_admissions (su_new_v4 su) nid s)) w, Ok DP_Continue)
             else (upd (drop_admissions (su_new_v4 su) nid) w, Err (RF_Error (SE_Resource nid source)))
         | Inr (m, ticket) \<Rightarrow>
             (let w1 = upd (\<lambda>s. s\<lparr>sc_resources := m, sc_active_tickets := bm_insert nid ticket (sc_active_tickets s)\<rparr>) w
              in if \<not> bm_contains (sc_statuses s) nid then (w1, Err RF_Panic)
                 else start_node su run_id node next_attempt estimate (upd (set_status nid NS_Running) w1)))"

definition claim_provider ::
  "('j, 'w) surroundings \<Rightarrow> node_spec \<Rightarrow> usage_accounting \<Rightarrow> ('j, 'w) world \<Rightarrow> ('j, 'w, bool) outcome" where
  "claim_provider su node estimate w =
     (if \<not> is_model_worker node then (w, Ok True)
      else case read_clock su w of (now, w1) \<Rightarrow>
        (let s = wo_sched w1
         in case acquire_provider_admission (provider_route_for_node (su_texts su) (su_backend su) node
                   (sb_defaults (gs_spec (sc_spec s)))) now node estimate s of
              (s1, Inl e) \<Rightarrow> (w1\<lparr>wo_sched := s1\<rparr>, Err (RF_Error e))
            | (s1, Inr ok) \<Rightarrow> (w1\<lparr>wo_sched := s1\<rparr>, Ok ok)))"

definition claim_host ::
  "('j, 'w) surroundings \<Rightarrow> string \<Rightarrow> node_spec \<Rightarrow> u32 \<Rightarrow> ('j, 'w) world \<Rightarrow> ('j, 'w, bool) outcome" where
  "claim_host su run_id node next_attempt w =
     (case acquire_host_admission (su_new_v4 su) run_id node next_attempt (wo_sched w) of
        (s1, Inl e) \<Rightarrow> (w\<lparr>wo_sched := s1\<rparr>, Err (RF_Error e))
      | (s1, Inr ok) \<Rightarrow> (w\<lparr>wo_sched := s1\<rparr>, Ok ok))"

definition dispatch_node ::
  "('j, 'w) surroundings \<Rightarrow> string \<Rightarrow> nat \<Rightarrow> nat \<Rightarrow> node_id \<Rightarrow> ('j, 'w) world \<Rightarrow> ('j, 'w, dispatch) outcome" where
  "dispatch_node su run_id model_limit selected nid w =
     (case bm_get (sc_nodes (wo_sched w)) nid of
        None \<Rightarrow> (w, Err RF_Panic)
      | Some node \<Rightarrow>
          if is_model_worker node \<and> model_limit \<le> selected then (upd (queue_worker nid) w, Ok DP_Continue)
          else
            let next_attempt = unwrap_or (bm_get (sc_attempts (wo_sched w)) nid) 0 + 1;
                estimate = estimate_node node (sb_defaults (gs_spec (sc_spec (wo_sched w))))
            in and_then (claim_host su run_id node next_attempt w) (\<lambda>admitted w.
               if \<not> admitted then (upd (queue_worker nid) w, Ok DP_Continue)
               else and_then (claim_provider su node estimate w) (\<lambda>admitted w.
               if \<not> admitted
               then (upd (\<lambda>s. queue_worker nid (release_host_admission (su_new_v4 su) nid s)) w, Ok DP_Continue)
               else claim_resources su run_id node next_attempt estimate w)))"

type_synonym selected_worker = "node_id \<times> node_spec \<times> u32 \<times> string"

fun dispatch_nodes ::
  "('j, 'w) surroundings \<Rightarrow> string \<Rightarrow> nat \<Rightarrow> selected_worker list \<Rightarrow> node_id list \<Rightarrow> ('j, 'w) world
   \<Rightarrow> ('j, 'w, selected_worker list) outcome" where
  "dispatch_nodes su run_id model_limit pending [] w = (w, Ok pending)"
| "dispatch_nodes su run_id model_limit pending (nid # ids) w =
     (case dispatch_node su run_id model_limit (length pending) nid w of
        (w1, Inl e) \<Rightarrow> (w1, Err e)
      | (w1, Inr DP_Continue) \<Rightarrow> dispatch_nodes su run_id model_limit pending ids w1
      | (w1, Inr DP_Break) \<Rightarrow> (w1, Ok pending)
      | (w1, Inr (DP_Selected n node attempt owner)) \<Rightarrow>
          dispatch_nodes su run_id model_limit (pending @ [(n, node, attempt, owner)]) ids w1)"

section \<open>Running the workers of a step\<close>

definition loop_error_display :: "('j, 'w) surroundings \<Rightarrow> loop_error \<Rightarrow> string" where
  "loop_error_display su err =
     (case err of
        Missing_Policy \<Rightarrow> ''loop policy is missing''
      | Loop_Predicate e \<Rightarrow> ''loop predicate failed: '' @ predicate_error_display e
      | Loop_Json \<Rightarrow> ''loop output could not be serialized: '' @ su_loop_json_error su)"

definition worker_error_completion :: "string \<Rightarrow> node_id \<Rightarrow> u32 \<Rightarrow> worker_error \<Rightarrow> worker_completion" where
  "worker_error_completion graph_run_id nid attempt err =
     \<lparr>wc_graph_run_id = graph_run_id, wc_node_id = nid, wc_attempt = attempt,
      wc_output =
        \<lparr>no_schema_version = AGENTGRAPH_SCHEMA_VERSION, no_graph_run_id = graph_run_id, no_node_instance_id = nid,
         no_attempt_id = ''attempt-'' @ dec32 attempt, no_status = NS_Failed,
         no_summary = ''worker failed before producing output: '' @ worker_error_display err, no_findings = [],
         no_files_read = [], no_files_changed = [], no_commands_run = [], no_tests_run = [], no_artifacts = [],
         no_assumptions = [], no_blockers = [worker_error_display err], no_confidence = Fin 0\<rparr>,
      wc_usage = default_usage\<lparr>ua_model_calls := 1, ua_node_attempts := 1, ua_failures := 1\<rparr>,
      wc_provider_capacity = None\<rparr>"

fun run_workers ::
  "('j, 'w) surroundings \<Rightarrow> string \<Rightarrow> node_defaults \<Rightarrow> (schema_id, json) bmap \<Rightarrow> selected_worker list \<Rightarrow> 'w
   \<Rightarrow> 'w \<times> (node_id \<times> u32 \<times> (worker_error, worker_completion) result) list" where
  "run_workers su run_id defaults schemas [] others = (others, [])"
| "run_workers su run_id defaults schemas ((nid, node, attempt, worker_id) # ps) others =
     (case run_node (su_texts su) (su_service su) (su_observations su) (su_backend su) run_id node defaults schemas
             attempt worker_id others of
        (others1, r) \<Rightarrow>
          case run_workers su run_id defaults schemas ps others1 of
            (others2, rs) \<Rightarrow> (others2, (nid, attempt, r) # rs))"

text \<open>\<open>split_whitespace\<close>, and the delay a worker passes on in its blockers.\<close>

function split_words :: "string \<Rightarrow> string \<Rightarrow> string list" where
  "split_words word [] = (if word = [] then [] else [rev word])"
| "split_words word (c # s) =
     (case strip_one ws_seqs (c # s) of
        Some r \<Rightarrow> (if word = [] then [] else [rev word])
                  @ (if length r < length (c # s) then split_words [] r else [])
      | None \<Rightarrow> split_words (c # word) s)"
  by pat_completeness auto
termination
  by (relation "measure (\<lambda>(word, s). length s)") auto

definition parse_u64 :: "string \<Rightarrow> u64 option" where
  "parse_u64 s =
     map_option of_nat (parse_digits 64 (case s of c # rest \<Rightarrow> if c = CHR ''+'' then rest else s | [] \<Rightarrow> []))"

definition retry_after_ms :: "node_output \<Rightarrow> u64 option" where
  "retry_after_ms out =
     (case List.map_filter (\<lambda>part. Option.bind (strip_prefix ''retry-after-ms='' part) parse_u64)
             (concat (map (split_words []) (no_blockers out))) of
        [] \<Rightarrow> None
      | delay # _ \<Rightarrow> Some delay)"

definition observe_capacity ::
  "('j, 'w) surroundings \<Rightarrow> provider_route_key option \<Rightarrow> worker_completion \<Rightarrow> ('j, 'w) world
   \<Rightarrow> ('j, 'w) world \<times> provider_route_key option" where
  "observe_capacity su released completion w =
     (case wc_provider_capacity completion of
        None \<Rightarrow> (w, released)
      | Some observation \<Rightarrow>
          case read_clock su w of (now, w1) \<Rightarrow>
            (upd (\<lambda>s. let routes = sc_provider_capacity s;
                          routes1 = (if \<not> contains_route routes (po_route observation)
                                     then configure_route (po_route observation) default_capacity_config routes else routes)
                      in s\<lparr>sc_provider_capacity := observe_headers (po_route observation) (po_rate_limits observation) now routes1\<rparr>) w1,
             Some (po_route observation)))"

definition observe_failure ::
  "('j, 'w) surroundings \<Rightarrow> provider_route_key option \<Rightarrow> failure_classification \<Rightarrow> worker_completion
   \<Rightarrow> ('j, 'w) world \<Rightarrow> ('j, 'w) world" where
  "observe_failure su observed classification completion w =
     (case observed of
        None \<Rightarrow> w
      | Some route \<Rightarrow>
          if classification = FC_RateLimited then
            (case read_clock su w of (now, w1) \<Rightarrow>
               upd (\<lambda>s. s\<lparr>sc_provider_capacity := observe_rate_limited route
                 (Option.bind (wc_provider_capacity completion) (\<lambda>observation. rm_retry_after_ms (po_rate_limits observation)))
                 now (sc_provider_capacity s)\<rparr>) w1)
          else if classification \<in> {FC_Unauthorized, FC_Forbidden} then
            upd (\<lambda>s. s\<lparr>sc_provider_capacity := observe_auth_failure route (sc_provider_capacity s)\<rparr>) w
          else w)"

definition observe_completion ::
  "('j, 'w) surroundings \<Rightarrow> node_id \<Rightarrow> failure_classification \<Rightarrow> worker_completion \<Rightarrow> ('j, 'w) world \<Rightarrow> ('j, 'w) world" where
  "observe_completion su nid classification completion w =
     (let actual_tokens = sat_add (ua_input_tokens (wc_usage completion)) (ua_output_tokens (wc_usage completion))
      in case release_provider_admission nid (Some actual_tokens) (wo_sched w) of
           (s1, released) \<Rightarrow>
             case observe_capacity su released completion (w\<lparr>wo_sched := s1\<rparr>) of
               (w1, observed) \<Rightarrow> observe_failure su observed classification completion w1)"

section \<open>Loops, retries and compensation\<close>

definition advance_loop_node ::
  "('j, 'w) surroundings \<Rightarrow> string \<Rightarrow> worker_completion \<Rightarrow> ('j, 'w) world \<Rightarrow> ('j, 'w, unit) outcome" where
  "advance_loop_node su run_id completion w =
     (let nid = wc_node_id completion; en = su_engine su
      in case bm_get (sc_nodes (wo_sched w)) nid of
           None \<Rightarrow> (w, Err RF_Panic)
         | Some node \<Rightarrow>
             and_then (ask_store (\<lambda>s. store_loop_state en s run_id nid) w) (\<lambda>stored w.
             and_then (ask_store (\<lambda>s. run_created_at_ms s run_id) w) (\<lambda>created w.
             case read_clock su w of (now, w) \<Rightarrow>
               (case advance_loop (su_loop_env su) (ns_loop_policy node) (unwrap_or stored (new_loop created))
                       (wc_output completion) (wc_usage completion) (sc_statuses (wo_sched w)) now of
                  (_, Inl err) \<Rightarrow> (w, Err (RF_Error (SE_Worker (WE_Rejected nid (loop_error_display su err)))))
                | (state, Inr decision) \<Rightarrow>
                    and_then (with_store su (\<lambda>now. save_loop_state en run_id nid state now) w) (\<lambda>_ w.
                    case decision of
                      LD_Continue \<Rightarrow>
                        and_then (with_store su (\<lambda>now. mark_node_status en run_id nid NS_Ready now) w) (\<lambda>_ w.
                        (upd (set_status nid NS_Ready) w, Ok ()))
                    | LD_Complete \<Rightarrow> (w, Ok ())
                    | LD_Partial \<Rightarrow>
                        with_store su (\<lambda>now. mark_run_status en run_id RS_PartiallyCompleted now)
                          (upd (\<lambda>s. s\<lparr>sc_partial_completion := True\<rparr>) w))))))"

definition schedule_retry_for_completion ::
  "('j, 'w) surroundings \<Rightarrow> string \<Rightarrow> worker_completion \<Rightarrow> ('j, 'w) world \<Rightarrow> ('j, 'w, bool) outcome" where
  "schedule_retry_for_completion su run_id completion w =
     (let nid = wc_node_id completion; en = su_engine su
      in case bm_get (sc_nodes (wo_sched w)) nid of
           None \<Rightarrow> (w, Ok False)
         | Some node \<Rightarrow>
             and_then (ask_store (\<lambda>s. retry_history_totals s run_id nid) w) (\<lambda>(accumulated_delay, equivalent_failures, no_progress) w.
             case read_clock su w of (now, w) \<Rightarrow>
             and_then (ask_store (\<lambda>s. run_created_at_ms s run_id) w) (\<lambda>created w.
             case decide_retry run_id node (wc_attempt completion) (classify_node_output (wc_output completion)) now created
                    accumulated_delay equivalent_failures no_progress (retry_after_ms (wc_output completion)) of
               RD_Schedule planned \<Rightarrow>
                 and_then (with_store su (\<lambda>now. schedule_retry en planned now) w) (\<lambda>_ w. (w, Ok True))
             | RD_Stop _ \<Rightarrow> (w, Ok False))))"

definition finish_compensation_step ::
  "('j, 'w) surroundings \<Rightarrow> string \<Rightarrow> worker_completion \<Rightarrow> ('j, 'w) world \<Rightarrow> ('j, 'w, unit) outcome" where
  "finish_compensation_step su run_id completion w =
     (case sc_compensation_plan (wo_sched w) of
        None \<Rightarrow> (w, Ok ())
      | Some plan0 \<Rightarrow>
          (let plan = (if no_status (wc_output completion) = NS_Succeeded then mark_completed plan0 else mark_failed plan0)
           in and_then (with_store su (\<lambda>now. save_compensation_plan (su_engine su) run_id plan now)
                  (upd (\<lambda>s. s\<lparr>sc_compensation_plan := Some plan\<rparr>) w)) (\<lambda>_ w.
              (upd (\<lambda>s. s\<lparr>sc_run_status := run_status_of_plan (cpl_status plan)\<rparr>) w, Ok ()))))"

fun block_steps ::
  "('j, 'w) surroundings \<Rightarrow> string \<Rightarrow> compensation_step list \<Rightarrow> ('j, 'w) world \<Rightarrow> ('j, 'w, unit) outcome" where
  "block_steps su run_id [] w = (w, Ok ())"
| "block_steps su run_id (step # steps) w =
     and_then (with_store su (\<lambda>now. mark_node_status (su_engine su) run_id (cst_compensation_node_id step) NS_Blocked now)
         (upd (set_status (cst_compensation_node_id step) NS_Blocked) w)) (\<lambda>_ w.
     block_steps su run_id steps w)"

definition requires_compensation :: "scheduler \<Rightarrow> bool" where
  "requires_compensation s \<longleftrightarrow>
     list_ex (\<lambda>(nid, status). status \<in> {NS_Failed, NS_TimedOut} \<and>
       is_some_and (bm_get (sc_nodes s) nid) (\<lambda>node. ns_failure_policy node = FP_Compensate)) (sc_statuses s)"

definition maybe_start_compensation ::
  "('j, 'w) surroundings \<Rightarrow> string \<Rightarrow> ('j, 'w) world \<Rightarrow> ('j, 'w, unit) outcome" where
  "maybe_start_compensation su run_id w =
     (if \<not> requires_compensation (wo_sched w) then (w, Ok ())
      else
        let plan = build_compensation_plan (sc_spec (wo_sched w)) (sc_completion_order (wo_sched w))
        in if cpl_steps plan = [] then (w, Ok ())
           else and_then (block_steps su run_id (cpl_steps plan) w) (\<lambda>_ w.
                and_then (with_store su (\<lambda>now. save_compensation_plan (su_engine su) run_id plan now) w) (\<lambda>_ w.
                (upd (\<lambda>s. s\<lparr>sc_compensation_plan := Some plan, sc_run_status := RS_Compensating\<rparr>) w, Ok ()))))"

section \<open>Completions\<close>

definition note_completion :: "bool \<Rightarrow> worker_completion \<Rightarrow> scheduler \<Rightarrow> scheduler" where
  "note_completion is_compensation completion s =
     (if no_status (wc_output completion) = NS_Succeeded \<and> \<not> is_compensation
         \<and> wc_node_id completion \<notin> set (sc_completion_order s)
      then s\<lparr>sc_completion_order := sc_completion_order s @ [wc_node_id completion]\<rparr> else s)"

definition node_has_kind :: "node_id \<Rightarrow> node_kind \<Rightarrow> scheduler \<Rightarrow> bool" where
  "node_has_kind nid kind s \<longleftrightarrow> is_some_and (bm_get (sc_nodes s) nid) (\<lambda>node. ns_kind node = kind)"

text \<open>What follows an output that the store has accepted.\<close>

definition follow_up ::
  "('j, 'w) surroundings \<Rightarrow> string \<Rightarrow> worker_completion \<Rightarrow> ('j, 'w) world \<Rightarrow> ('j, 'w, unit) outcome" where
  "follow_up su run_id completion w0 =
     (let nid = wc_node_id completion; status = no_status (wc_output completion);
          w1 = upd (complete_node_with_usage (su_new_v4 su) nid status (Some (wc_usage completion))) w0;
          is_compensation = node_has_kind nid NK_Compensation (wo_sched w1);
          w2 = upd (note_completion is_compensation completion) w1
      in and_then (if status = NS_Succeeded \<and> node_has_kind nid NK_Loop (wo_sched w2)
                   then advance_loop_node su run_id completion w2 else (w2, Ok ())) (\<lambda>_ w.
         and_then (if status \<in> {NS_Failed, NS_TimedOut} then schedule_retry_for_completion su run_id completion w
                   else (w, Ok False)) (\<lambda>retry_scheduled w.
         let w = (if retry_scheduled then upd (set_status nid NS_Retrying) w else w)
         in if is_compensation \<and> \<not> retry_scheduled then finish_compensation_step su run_id completion w
            else (w, Ok ()))))"

definition accept_result ::
  "('j, 'w) surroundings \<Rightarrow> string \<Rightarrow> node_id \<times> u32 \<times> (worker_error, worker_completion) result \<Rightarrow> ('j, 'w) world
   \<Rightarrow> ('j, 'w, bool \<times> bool) outcome" where
  "accept_result su run_id result w =
     (case result of (nid, attempt, r) \<Rightarrow>
        let completion = (case r of Inr c \<Rightarrow> c | Inl err \<Rightarrow> worker_error_completion run_id nid attempt err);
            classification = classify_node_output (wc_output completion)
        in and_then (with_store su (\<lambda>now. accept_output_and_reconcile (su_engine su) run_id nid (wc_attempt completion)
               (wc_output completion) (Some (wc_usage completion)) now)
             (observe_completion su nid classification completion w)) (\<lambda>accepted w.
           if \<not> accepted
           then (w, Err (RF_Error (SE_Worker (WE_Rejected nid ''store rejected stale node output attempt''))))
           else and_then (follow_up su run_id completion w) (\<lambda>_ w.
             (w, Ok (no_status (wc_output completion) = NS_Succeeded, classification = FC_RateLimited)))))"

fun accept_results ::
  "('j, 'w) surroundings \<Rightarrow> string \<Rightarrow> bool \<times> bool \<Rightarrow> (node_id \<times> u32 \<times> (worker_error, worker_completion) result) list
   \<Rightarrow> ('j, 'w) world \<Rightarrow> ('j, 'w, bool \<times> bool) outcome" where
  "accept_results su run_id flags [] w = (w, Ok flags)"
| "accept_results su run_id flags (r # rs) w =
     and_then (accept_result su run_id r w) (\<lambda>(succeeded, rate_limited) w.
     accept_results su run_id (fst flags \<and> succeeded, snd flags \<or> rate_limited) rs w)"

definition swarm_ramp :: "bool \<times> bool \<Rightarrow> scheduler \<Rightarrow> scheduler" where
  "swarm_ramp flags s =
     (if ep_orchestration_policy (sb_execution (gs_spec (sc_spec s))) = OM_Swarm then
        let limit_cap = unat (max (cf_max_active_model_calls (sc_config s)) 1)
        in if snd flags then s\<lparr>sc_swarm_ramp_limit := max (sc_swarm_ramp_limit s div 2) 1\<rparr>
           else if fst flags then s\<lparr>sc_swarm_ramp_limit := min (min (sc_swarm_ramp_limit s * 2) usize_max) limit_cap\<rparr>
           else s
      else s)"

definition run_batch ::
  "('j, 'w) surroundings \<Rightarrow> string \<Rightarrow> selected_worker list \<Rightarrow> ('j, 'w) world \<Rightarrow> ('j, 'w, unit) outcome" where
  "run_batch su run_id pending w0 =
     (let w1 = upd (\<lambda>s. s\<lparr>sc_peak_active_workers := max (sc_peak_active_workers s) (length pending)\<rparr>) w0;
          body = gs_spec (sc_spec (wo_sched w1))
      in case run_workers su run_id (sb_defaults body) (sb_schemas body) pending (wo_outside w1) of
           (others, completed) \<Rightarrow>
             and_then (accept_results su run_id (True, False) (sort_key fst completed)
                 (await_others su (w1\<lparr>wo_outside := others\<rparr>))) (\<lambda>flags w.
             (upd (swarm_ramp flags) w, Ok ())))"

section \<open>Steps and runs\<close>

definition step_model_limit :: "scheduler \<Rightarrow> nat" where
  "step_model_limit s =
     min (unat (max (cf_max_active_model_calls (sc_config s)) 1)) (max (sc_swarm_ramp_limit s) 1)"

definition step_with_subagents ::
  "('j, 'w) surroundings \<Rightarrow> string \<Rightarrow> ('j, 'w) world \<Rightarrow> ('j, 'w, unit) outcome" where
  "step_with_subagents su run_id w =
     (if sc_run_status (wo_sched w) \<notin> {RS_Running, RS_Compensating} then (w, Ok ())
      else
        and_then (dispatch_nodes su run_id (step_model_limit (wo_sched w)) [] (run_ready_nodes (wo_sched w)) w) (\<lambda>pending w.
        and_then (if pending \<noteq> [] then run_batch su run_id pending w else (w, Ok ())) (\<lambda>_ w.
        let w = upd refresh_run_status w
        in if sc_run_status (wo_sched w) = RS_Failed then maybe_start_compensation su run_id w else (w, Ok ()))))"

definition restore_from_snapshot :: "graph_run_snapshot \<Rightarrow> scheduler \<Rightarrow> scheduler" where
  "restore_from_snapshot snap s =
     fold (\<lambda>node s. if bm_contains (sc_statuses s) (nss_node_id node)
            then s\<lparr>sc_statuses := bm_insert (nss_node_id node) (nss_status node) (sc_statuses s),
                   sc_attempts := bm_insert (nss_node_id node) (nss_attempt node) (sc_attempts s)\<rparr>
            else s)
       (grs_node_states snap)
       (s\<lparr>sc_run_status := grs_status snap, sc_completion_order := completed_node_order_from_events (grs_events snap)\<rparr>)"

text \<open>Whether the loop goes on, by the status of the run in the database; \<open>None\<close> is a run that is paused.\<close>

fun runnable_status :: "run_status \<Rightarrow> (run_status option \<times> bool) option" where
  "runnable_status RS_Cancelled = Some (Some RS_Cancelled, False)"
| "runnable_status RS_Paused = None"
| "runnable_status RS_Pausing = None"
| "runnable_status RS_Draining = Some (Some RS_Draining, False)"
| "runnable_status RS_Completed = Some (None, False)"
| "runnable_status RS_PartiallyCompleted = Some (None, False)"
| "runnable_status RS_Failed = Some (None, False)"
| "runnable_status RS_BudgetStopped = Some (None, False)"
| "runnable_status RS_Compensated = Some (None, False)"
| "runnable_status RS_CompensationFailed = Some (None, False)"
| "runnable_status RS_ManualInterventionRequired = Some (None, False)"
| "runnable_status RS_Draft = Some (Some RS_Running, True)"
| "runnable_status RS_Validating = Some (Some RS_Running, True)"
| "runnable_status RS_Validated = Some (Some RS_Running, True)"
| "runnable_status RS_AwaitingApproval = Some (Some RS_Running, True)"
| "runnable_status RS_Running = Some (Some RS_Running, True)"
| "runnable_status RS_Reducing = Some (Some RS_Running, True)"
| "runnable_status RS_Verifying = Some (Some RS_Running, True)"
| "runnable_status RS_Compensating = Some (Some RS_Compensating, True)"

definition adopt_status :: "run_status option \<Rightarrow> scheduler \<Rightarrow> scheduler" where
  "adopt_status status s = (case status of None \<Rightarrow> s | Some status' \<Rightarrow> s\<lparr>sc_run_status := status'\<rparr>)"

partial_function (option) wait_for_runnable_status ::
  "('j, 'w) surroundings \<Rightarrow> string \<Rightarrow> ('j, 'w) world \<Rightarrow> ('j, 'w, bool) outcome option" where
  "wait_for_runnable_status su run_id w =
     (case store_run_status (wo_store w) run_id of
        Inl e \<Rightarrow> Some (w, Err (RF_Error (SE_Store e)))
      | Inr persisted \<Rightarrow>
          (case runnable_status persisted of
             Some (status, go_on) \<Rightarrow> Some (upd (adopt_status status) w, Ok go_on)
           | None \<Rightarrow> wait_for_runnable_status su run_id (await_others su (upd (\<lambda>s. s\<lparr>sc_run_status := RS_Paused\<rparr>) w))))"

definition activate_retries ::
  "('j, 'w) surroundings \<Rightarrow> string \<Rightarrow> ('j, 'w) world \<Rightarrow> ('j, 'w, unit) outcome" where
  "activate_retries su run_id w =
     and_then (with_store su (\<lambda>now. activate_due_retries_for_run (su_engine su) run_id now) w) (\<lambda>schedules w.
     (upd (fold (\<lambda>due. set_status (rsch_node_id due) NS_Ready) schedules) w, Ok ()))"

fun durable_steps ::
  "('j, 'w) surroundings \<Rightarrow> string \<Rightarrow> nat \<Rightarrow> ('j, 'w) world \<Rightarrow> ('j, 'w, unit) outcome option" where
  "durable_steps su run_id 0 w = Some (w, Ok ())"
| "durable_steps su run_id (Suc n) w =
     (case activate_retries su run_id w of
        (w1, Inl e) \<Rightarrow> Some (w1, Err e)
      | (w1, Inr _) \<Rightarrow>
     (case wait_for_runnable_status su run_id w1 of
        None \<Rightarrow> None
      | Some (w2, Inl e) \<Rightarrow> Some (w2, Err e)
      | Some (w2, Inr False) \<Rightarrow> Some (w2, Ok ())
      | Some (w2, Inr True) \<Rightarrow>
     (case step_with_subagents su run_id w2 of
        (w3, Inl e) \<Rightarrow> Some (w3, Err e)
      | (w3, Inr _) \<Rightarrow>
          if run_is_terminal (sc_run_status (wo_sched w3)) then Some (w3, Ok ())
          else if terminal_nodes (wo_sched w3) = terminal_nodes (wo_sched w2) \<and> run_ready_nodes (wo_sched w3) = [] then
            (case next_retry_at (wo_store w3) run_id of
               Some deadline \<Rightarrow> durable_steps su run_id n (await_others su w3)
             | None \<Rightarrow> Some (upd refresh_run_status w3, Ok ()))
          else durable_steps su run_id n w3)))"

definition begin_durable ::
  "('j, 'w) surroundings \<Rightarrow> string \<Rightarrow> run_status \<Rightarrow> ('j, 'w) world \<Rightarrow> ('j, 'w, unit) outcome" where
  "begin_durable su run_id persisted w =
     (if persisted = RS_Compensating then
        and_then (ask_store (\<lambda>s. replay_run (su_engine su) s run_id) w) (\<lambda>snap w.
        and_then (ask_store (\<lambda>s. store_compensation_plan (su_engine su) s run_id)
            (upd (restore_from_snapshot snap) w)) (\<lambda>plan w.
        (upd (\<lambda>s. s\<lparr>sc_compensation_plan := plan\<rparr>) w, Ok ())))
      else with_store su (\<lambda>now. mark_run_status (su_engine su) run_id RS_Running now) (upd start_run w))"

definition finish_durable ::
  "('j, 'w) surroundings \<Rightarrow> string \<Rightarrow> ('j, 'w) world \<Rightarrow> ('j, 'w, scheduler_report) outcome" where
  "finish_durable su run_id w =
     (let report = report_of (wo_sched w)
      in and_then (with_store su (\<lambda>now. mark_run_status (su_engine su) run_id (sr_run_status report) now)
             (upd (release_all_host_admission (su_new_v4 su)) w)) (\<lambda>_ w.
         (w, Ok report)))"

definition run_to_completion_with_subagents ::
  "('j, 'w) surroundings \<Rightarrow> string \<Rightarrow> ('j, 'w) world \<Rightarrow> ('j, 'w, scheduler_report) outcome option" where
  "run_to_completion_with_subagents su run_id w =
     (case store_run_status (wo_store w) run_id of
        Inl e \<Rightarrow> Some (w, Err (RF_Error (SE_Store e)))
      | Inr persisted \<Rightarrow>
          (if persisted = RS_Cancelled then
            (let w1 = upd (\<lambda>s. s\<lparr>sc_run_status := RS_Cancelled\<rparr>) w in Some (w1, Ok (report_of (wo_sched w1))))
          else case begin_durable su run_id persisted w of
              (w1, Inl e) \<Rightarrow> Some (w1, Err e)
            | (w1, Inr _) \<Rightarrow>
                (case durable_steps su run_id (unat (maximum_scheduler_steps (wo_sched w1))) w1 of
                   None \<Rightarrow> None
                 | Some (w2, Inl e) \<Rightarrow> Some (w2, Err e)
                 | Some (w2, Inr _) \<Rightarrow> Some (finish_durable su run_id w2))))"

end
