(* ===== verification/Durable_Correct.thy ===== *)
theory Durable_Correct
  imports Durable_Run
begin

text \<open>
  What a durable run keeps and promises: it changes the database only by operations of the store, so
  that what the store promises holds throughout; the workers of a step hold leases and reservations, and
  there are no more of them than allowed; and the loop ends unless the run stays paused.
\<close>

section \<open>Effects on the database\<close>

lemma and_then_keeps:
  assumes "ok (wo_store (fst m))" and "\<And>v w. ok (wo_store w) \<Longrightarrow> ok (wo_store (fst (f v w)))"
  shows "ok (wo_store (fst (and_then m f)))"
  using assms by (cases m; cases "snd m") (auto simp: and_then_def)

lemma with_store_keeps:
  assumes "\<And>now s. ok s \<Longrightarrow> ok (fst (f now s))" and "ok (wo_store w)"
  shows "ok (wo_store (fst (with_store su f w)))"
  using assms(1) [OF assms(2), of "su_now su (wo_outside w)"]
  by (auto simp: with_store_def read_clock_def split: sum.split prod.split)

lemma upd_store [simp]: "wo_store (upd f w) = wo_store w"
  by (simp add: upd_def)

lemma ask_store_keeps [simp]: "wo_store (fst (ask_store f w)) = wo_store w"
  by (simp add: ask_store_def split: sum.split)

lemma clock_store [simp]: "wo_store (snd (read_clock su w)) = wo_store w"
  by (simp add: read_clock_def)

lemma claims_store [simp]:
  "wo_store (fst (claim_host su run_id node next_attempt w)) = wo_store w"
  "wo_store (fst (claim_provider su node estimate w)) = wo_store w"
  by (simp_all add: claim_host_def claim_provider_def read_clock_def Let_def split: prod.split sum.split)

lemma observe_store [simp]: "wo_store (observe_completion su nid classification completion w) = wo_store w"
  by (simp add: observe_completion_def observe_capacity_def observe_failure_def read_clock_def Let_def split: prod.split option.split)

section \<open>What the run relies on of the store\<close>

text \<open>
  The operations a durable run calls, each keeping a property of the tables, and other tasks that keep it
  too. The lemmas about the run are proved once, for every such property.
\<close>

definition attended :: "'j engine \<Rightarrow> ('j store \<Rightarrow> bool) \<Rightarrow> ('j, 'w) surroundings \<Rightarrow> bool" where
  "attended en ok su \<longleftrightarrow> su_engine su = en \<and> (\<forall>s others. ok s \<longrightarrow> ok (fst (su_await su s others)))"

locale run_store =
  fixes en :: "'j engine" and ok :: "'j store \<Rightarrow> bool"
  assumes keeps_lease: "ok s \<Longrightarrow> ok (fst (reserve_and_lease_node en run_id nid owner ttl estimate now s))"
    and keeps_accept: "ok s \<Longrightarrow> ok (fst (accept_output_and_reconcile en run_id nid attempt out usage now s))"
    and keeps_run_status: "ok s \<Longrightarrow> ok (fst (mark_run_status en run_id status now s))"
    and keeps_node_status: "ok s \<Longrightarrow> ok (fst (mark_node_status en run_id nid node_status now s))"
    and keeps_loop: "ok s \<Longrightarrow> ok (fst (save_loop_state en run_id nid loop now s))"
    and keeps_plan: "ok s \<Longrightarrow> ok (fst (save_compensation_plan en run_id plan now s))"
    and keeps_retry: "ok s \<Longrightarrow> ok (fst (schedule_retry en retry now s))"
    and keeps_activate: "ok s \<Longrightarrow> ok (fst (activate_due_retries_for_run en run_id now s))"
begin

abbreviation safe :: "('j, 'w) surroundings \<Rightarrow> bool" where
  "safe su \<equiv> attended en ok su"

lemma engine [simp]: "safe su \<Longrightarrow> su_engine su = en"
  by (simp add: attended_def)

lemma await_keeps: "safe su \<Longrightarrow> ok (wo_store w) \<Longrightarrow> ok (wo_store (await_others su w))"
  unfolding attended_def await_others_def split_def by simp

lemmas seq_keeps = and_then_keeps [of ok]

lemmas op_keeps = with_store_keeps [of ok]

lemmas keeps_store = keeps_lease keeps_accept keeps_run_status keeps_node_status keeps_loop keeps_plan keeps_retry keeps_activate

lemma mark_compensating_keeps:
  assumes "safe su" and "ok (wo_store w)"
  shows "ok (wo_store (fst (mark_compensating su run_id node attempt w)))"
  using assms unfolding mark_compensating_def
  by (auto simp: Let_def keeps_plan intro!: seq_keeps op_keeps split: option.split bool.split)

lemma take_lease_keeps:
  assumes "safe su" and "ok (wo_store w)"
  shows "ok (wo_store (fst (take_lease su run_id node estimate lease w)))"
  using assms unfolding take_lease_def Let_def
  by (auto intro!: seq_keeps mark_compensating_keeps split: prod.split sum.split)

lemma lease_worker_keeps:
  assumes "safe su" and "ok (wo_store w)"
  shows "ok (wo_store (fst (lease_worker su run_id node next_attempt estimate w)))"
  using assms unfolding lease_worker_def Let_def
  by (intro seq_keeps op_keeps)
    (auto simp: keeps_lease intro: take_lease_keeps split: lease_reservation_outcome.split)

lemma start_node_keeps:
  assumes "safe su" and "ok (wo_store w)"
  shows "ok (wo_store (fst (start_node su run_id node next_attempt estimate w)))"
  using assms lease_worker_keeps [OF assms] unfolding start_node_def
  by (auto simp: keeps_node_status intro!: seq_keeps op_keeps)

lemma claim_resources_keeps:
  assumes "safe su" and "ok (wo_store w)"
  shows "ok (wo_store (fst (claim_resources su run_id node next_attempt estimate w)))"
  using assms unfolding claim_resources_def Let_def
  by (auto intro: start_node_keeps split: sum.split prod.split)

lemma dispatch_node_keeps:
  assumes "safe su" and "ok (wo_store w)"
  shows "ok (wo_store (fst (dispatch_node su run_id model_limit n nid w)))"
  using assms unfolding dispatch_node_def Let_def
  by (auto intro!: seq_keeps claim_resources_keeps split: option.split)

lemma dispatch_nodes_keeps:
  assumes "safe su" and "ok (wo_store w)"
  shows "ok (wo_store (fst (dispatch_nodes su run_id model_limit pending ids w)))"
  using assms(2)
proof (induction ids arbitrary: w pending)
  case (Cons nid ids)
  obtain w1 r where d: "dispatch_node su run_id model_limit (length pending) nid w = (w1, r)"
    by (cases "dispatch_node su run_id model_limit (length pending) nid w")
  with dispatch_node_keeps [OF assms(1) Cons.prems, of run_id model_limit "length pending" nid] have "ok (wo_store w1)" by simp
  with Cons.IH d show ?case by (auto split: sum.split dispatch.split)
qed simp

lemma advance_loop_node_keeps:
  assumes "safe su" and "ok (wo_store w)"
  shows "ok (wo_store (fst (advance_loop_node su run_id completion w)))"
  using assms unfolding advance_loop_node_def Let_def
  by (auto simp: read_clock_def keeps_store intro!: seq_keeps op_keeps
      split: option.split sum.split prod.split loop_decision.split)

lemma schedule_retry_keeps:
  assumes "safe su" and "ok (wo_store w)"
  shows "ok (wo_store (fst (schedule_retry_for_completion su run_id completion w)))"
  using assms unfolding schedule_retry_for_completion_def Let_def
  by (auto simp: read_clock_def keeps_store intro!: seq_keeps op_keeps
      split: option.split prod.split retry_decision.split)

lemma finish_step_keeps:
  assumes "safe su" and "ok (wo_store w)"
  shows "ok (wo_store (fst (finish_compensation_step su run_id completion w)))"
  using assms unfolding finish_compensation_step_def Let_def
  by (auto simp: keeps_store intro!: seq_keeps op_keeps split: option.split)

lemma follow_up_keeps:
  assumes "safe su" and "ok (wo_store w)"
  shows "ok (wo_store (fst (follow_up su run_id completion w)))"
  using assms unfolding follow_up_def Let_def
  by (intro seq_keeps) (auto intro: advance_loop_node_keeps schedule_retry_keeps finish_step_keeps)

lemma accept_result_keeps:
  assumes "safe su" and "ok (wo_store w)"
  shows "ok (wo_store (fst (accept_result su run_id r w)))"
  using assms unfolding accept_result_def Let_def
  by (cases r) (auto simp: keeps_store intro!: seq_keeps op_keeps follow_up_keeps)

lemma accept_results_keeps:
  assumes "safe su" and "ok (wo_store w)"
  shows "ok (wo_store (fst (accept_results su run_id flags rs w)))"
  using assms(2)
  by (induction rs arbitrary: w flags) (auto intro!: seq_keeps accept_result_keeps [OF assms(1)])

lemma run_batch_keeps:
  assumes "safe su" and "ok (wo_store w)"
  shows "ok (wo_store (fst (run_batch su run_id pending w)))"
proof -
  have "ok (wo_store (await_others su (upd f w\<lparr>wo_outside := others\<rparr>)))" for f others
    by (rule await_keeps [OF assms(1)]) (simp add: assms(2))
  then show ?thesis unfolding run_batch_def Let_def
    by (auto intro!: seq_keeps accept_results_keeps [OF assms(1)] split: prod.split)
qed

lemma maybe_compensate_keeps:
  assumes "safe su" and "ok (wo_store w)"
  shows "ok (wo_store (fst (maybe_start_compensation su run_id w)))"
proof -
  have "ok (wo_store v) \<Longrightarrow> ok (wo_store (fst (block_steps su run_id steps v)))" for steps v
    using assms(1) by (induction steps arbitrary: v)
      (auto simp: keeps_store intro!: seq_keeps op_keeps)
  with assms show ?thesis unfolding maybe_start_compensation_def Let_def
    by (auto simp: keeps_store intro!: seq_keeps op_keeps)
qed

lemma step_keeps:
  assumes "safe su" and "ok (wo_store w)"
  shows "ok (wo_store (fst (step_with_subagents su run_id w)))"
  using assms unfolding step_with_subagents_def Let_def
  by (auto intro!: seq_keeps dispatch_nodes_keeps run_batch_keeps maybe_compensate_keeps)

lemma activate_keeps:
  assumes "safe su" and "ok (wo_store w)"
  shows "ok (wo_store (fst (activate_retries su run_id w)))"
  using assms unfolding activate_retries_def
  by (auto simp: keeps_store intro!: seq_keeps op_keeps)

lemma wait_keeps:
  assumes "wait_for_runnable_status su run_id w = Some res" and "safe su" and "ok (wo_store w)"
  shows "ok (wo_store (fst res))"
proof -
  have "safe su \<longrightarrow> ok (wo_store w) \<longrightarrow> ok (wo_store (fst res))"
  proof (rule wait_for_runnable_status.raw_induct [OF _ assms(1)])
    fix f and su :: "('j, 'w) surroundings" and run_id w res
    assume IH: "\<And>su run_id w res. f su run_id w = Some res \<Longrightarrow> safe su \<longrightarrow> ok (wo_store w) \<longrightarrow> ok (wo_store (fst res))"
      and eq: "(case store_run_status (wo_store w) run_id of
          Inl e \<Rightarrow> Some (w, Err (RF_Error (SE_Store e)))
        | Inr persisted \<Rightarrow>
            (case runnable_status persisted of
               Some (status, go_on) \<Rightarrow> Some (upd (adopt_status status) w, Ok go_on)
             | None \<Rightarrow> f su run_id (await_others su (upd (\<lambda>s. s\<lparr>sc_run_status := RS_Paused\<rparr>) w)))) = Some res"
    show "safe su \<longrightarrow> ok (wo_store w) \<longrightarrow> ok (wo_store (fst res))"
    proof (intro impI)
      assume su: "safe su" and w: "ok (wo_store w)"
      have "ok (wo_store (await_others su (upd (\<lambda>s. s\<lparr>sc_run_status := RS_Paused\<rparr>) w)))"
        by (rule await_keeps [OF su]) (simp add: w)
      with eq IH su w show "ok (wo_store (fst res))" by (auto split: sum.splits option.splits prod.splits)
    qed
  qed
  with assms show ?thesis by blast
qed

lemma durable_steps_keeps:
  assumes "durable_steps su run_id n w = Some res" and "safe su" and "ok (wo_store w)"
  shows "ok (wo_store (fst res))"
  using assms(1,3)
proof (induction n arbitrary: w)
  case (Suc n)
  obtain w1 r1 where w1: "activate_retries su run_id w = (w1, r1)" by (cases "activate_retries su run_id w")
  with activate_keeps [OF assms(2) Suc.prems(2), of run_id] have ok1: "ok (wo_store w1)" by simp
  show ?case
  proof (cases r1)
    case (Inr u)
    with Suc.prems w1 obtain w2 r2 where w2: "wait_for_runnable_status su run_id w1 = Some (w2, r2)"
      by (auto split: option.splits)
    from wait_keeps [OF this assms(2) ok1] have ok2: "ok (wo_store w2)" by simp
    obtain w3 r3 where w3: "step_with_subagents su run_id w2 = (w3, r3)" by (cases "step_with_subagents su run_id w2")
    with step_keeps [OF assms(2) ok2, of run_id] have "ok (wo_store w3)" by simp
    moreover have "case r2 of Inl e \<Rightarrow> res = (w2, Err e) | Inr go_on \<Rightarrow> if \<not> go_on then res = (w2, Ok ()) else
        (case r3 of Inl e \<Rightarrow> res = (w3, Err e) | Inr _ \<Rightarrow>
          res = (w3, Ok ()) \<or> res = (upd refresh_run_status w3, Ok ()) \<or> durable_steps su run_id n (await_others su w3) = Some res \<or>
          durable_steps su run_id n w3 = Some res)"
      using Suc.prems(1) w1 Inr w2 w3 by (auto split: sum.split option.splits if_splits)
    ultimately show ?thesis
      using ok2 Suc.IH await_keeps [OF assms(2)] by (auto split: sum.splits if_splits)
  qed (use Suc.prems w1 ok1 in auto)
qed auto

lemma durable_run_keeps:
  assumes "run_to_completion_with_subagents su run_id w = Some res" and "safe su" and "ok (wo_store w)"
  shows "ok (wo_store (fst res))"
proof (cases "store_run_status (wo_store w) run_id")
  case (Inr persisted)
  obtain w1 r1 where w1: "begin_durable su run_id persisted w = (w1, r1)" by (cases "begin_durable su run_id persisted w")
  have "ok (wo_store (fst (begin_durable su run_id persisted w)))"
    using assms(2,3) unfolding begin_durable_def by (auto simp: keeps_store intro!: seq_keeps op_keeps)
  with w1 have ok1: "ok (wo_store w1)" by simp
  have "ok (wo_store (fst (finish_durable su run_id v)))" if "ok (wo_store v)" for v
    using that assms(2) unfolding finish_durable_def Let_def by (auto simp: keeps_store intro!: seq_keeps op_keeps)
  with assms Inr w1 ok1 durable_steps_keeps [OF _ assms(2) ok1] show ?thesis
    by (fastforce simp: run_to_completion_with_subagents_def Let_def split: if_splits sum.splits option.splits)
qed (use assms in \<open>auto simp: run_to_completion_with_subagents_def\<close>)

end

text \<open>Being reached from a given state by operations of the store is such a property.\<close>

lemma store_op_extends:
  "(store_op en fresh gone)\<^sup>*\<^sup>* s0 s \<Longrightarrow> store_op en fresh gone s s' \<Longrightarrow> (store_op en fresh gone)\<^sup>*\<^sup>* s0 s'"
  by (rule rtranclp.rtrancl_into_rtrancl)

interpretation tables: run_store en "\<lambda>s. any_ops en s0 s"
proof
  fix s :: "'a store" and run_id nid owner ttl estimate now attempt out usage status node_status loop plan retry
  assume s: "any_ops en s0 s"
  show "any_ops en s0 (fst (reserve_and_lease_node en run_id nid owner ttl estimate now s))"
    by (rule store_op_extends [OF s op_reserve]) simp
  show "any_ops en s0 (fst (accept_output_and_reconcile en run_id nid attempt out usage now s))"
    by (rule store_op_extends [OF s op_accept_reconcile])
  show "any_ops en s0 (fst (mark_run_status en run_id status now s))"
    unfolding mark_run_status_def by (rule store_op_extends [OF s op_event]) simp
  show "any_ops en s0 (fst (mark_node_status en run_id nid node_status now s))"
    unfolding mark_node_status_def by (rule store_op_extends [OF s op_event]) simp
  show "any_ops en s0 (fst (save_loop_state en run_id nid loop now s))"
    by (rule store_op_extends [OF s op_loop])
  show "any_ops en s0 (fst (save_compensation_plan en run_id plan now s))"
    by (rule store_op_extends [OF s op_plan])
  show "any_ops en s0 (fst (schedule_retry en retry now s))"
    by (rule store_op_extends [OF s op_schedule])
  show "any_ops en s0 (fst (activate_due_retries_for_run en run_id now s))"
    unfolding activate_due_retries_for_run_def by (rule store_op_extends [OF s op_activate])
qed

end
