(* ===== verification/Durable_Properties.thy ===== *)
theory Durable_Properties
  imports Durable_Correct Scheduler_Run
begin

text \<open>
  Properties of durable runs: the workers a step starts, the end of the loop, and where the run and the
  recovery of runs get into each other's way.
\<close>

section \<open>Leases of the workers of a step\<close>

text \<open>The attempt of a worker is leased to it in the database, and its usage is reserved.\<close>

fun holds_lease :: "string \<Rightarrow> 'j store \<Rightarrow> selected_worker \<Rightarrow> bool" where
  "holds_lease run_id s (nid, node, attempt, owner) \<longleftrightarrow>
     (case bm_get (st_nodes s) (run_id, nid) of
        None \<Rightarrow> False
      | Some row \<Rightarrow> nr_status row = NS_Leased \<and> nr_attempt row = attempt \<and> nr_lease_owner row = Some owner) \<and>
     bm_contains (st_reservations s) (run_id, nid, attempt)"

text \<open>Nothing changes for the node \<open>k\<close>.\<close>

definition untouched :: "string \<times> node_id \<Rightarrow> 'j store \<Rightarrow> 'j store \<Rightarrow> bool" where
  "untouched k s s' \<longleftrightarrow> bm_get (st_nodes s') k = bm_get (st_nodes s) k \<and>
     (\<forall>a. bm_contains (st_reservations s') (fst k, snd k, a) \<longleftrightarrow> bm_contains (st_reservations s) (fst k, snd k, a))"

lemma untouched_refl: "untouched k s s"
  by (simp add: untouched_def)

lemma untouched_trans: "untouched k s s' \<Longrightarrow> untouched k s' s'' \<Longrightarrow> untouched k s s''"
  by (simp add: untouched_def)

lemma untouched_lease: "untouched (run_id, fst p) s s' \<Longrightarrow> holds_lease run_id s p \<Longrightarrow> holds_lease run_id s' p"
  by (cases p) (simp add: untouched_def)

lemma transaction_untouched:
  assumes "\<And>s' v. body s = Ok (s', v) \<Longrightarrow> untouched k s s'"
  shows "untouched k s (fst (transaction body s))"
  using assms by (auto simp: transaction_def untouched_refl split: sum.split prod.split)

lemma in_run_untouched: "untouched k s (fst (f s)) \<Longrightarrow> untouched k s (fst (in_run run_id f s))"
  by (simp add: in_run_def untouched_refl ensure_run_def)

text \<open>Events about other nodes, or about the run.\<close>

fun about :: "graph_event \<Rightarrow> node_id \<Rightarrow> bool" where
  "about (GE_NodeStatusChanged n _) nid \<longleftrightarrow> n = nid"
| "about (GE_NodeLeased n _ _ _) nid \<longleftrightarrow> n = nid"
| "about (GE_RunStatusChanged _) nid \<longleftrightarrow> False"
| "about (GE_CompensationUpdated _ _) nid \<longleftrightarrow> False"
| "about _ nid \<longleftrightarrow> True"

lemma record_event_untouched:
  assumes "record_event en run_id event now s = Ok s'" and "\<not> about event n"
  shows "untouched (run_id, n) s s'"
proof -
  from assms(1) obtain s1 where s1: "insert_event_tx en run_id event now s = Ok s1" "apply_event_tx en run_id event now s1 = Ok s'"
    by (auto simp: record_event_def bind_r_eq_Ok)
  have "st_nodes s1 = st_nodes s" "st_reservations s1 = st_reservations s" using insert_event_Ok [OF s1(1)] by auto
  with s1(2) assms(2) show ?thesis
    by (cases event) (auto simp: untouched_def update_simps get_update_row Let_def)
qed

lemma save_ledger_untouched: "save_ledger en run_id l now s = Ok s' \<Longrightarrow> untouched k s s'"
  by (drule save_ledger_saved, drule saved_fields) (simp add: untouched_def)

lemma mark_node_status_untouched: "n \<noteq> nid \<Longrightarrow> untouched (run_id, n) s (fst (mark_node_status en run_id nid status now s))"
  unfolding mark_node_status_def append_event_def
  by (intro in_run_untouched transaction_untouched) (auto intro: record_event_untouched)

lemma save_plan_untouched: "untouched (run_id, n) s (fst (save_compensation_plan en run_id plan now s))"
  unfolding save_compensation_plan_def
proof (rule in_run_untouched, rule transaction_untouched)
  fix s' v
  assume "bind_r (json (to_string (en_plan en) plan)) (\<lambda>text. with_unit (record_event en run_id
    (GE_CompensationUpdated (cpl_status plan) (cpl_cursor plan)) now (s\<lparr>st_plans := bm_insert run_id (text, now) (st_plans s)\<rparr>))) = Ok (s', v)"
  then obtain ps where "record_event en run_id (GE_CompensationUpdated (cpl_status plan) (cpl_cursor plan)) now (s\<lparr>st_plans := ps\<rparr>) = Ok s'"
    by (auto simp: bind_r_eq_Ok)
  from record_event_untouched [OF this, of n] show "untouched (run_id, n) s s'" by (simp add: untouched_def)
qed

lemma grant_lease_untouched:
  assumes "grant_lease en (run_id, nid, a) owner ttl estimate l now s = Ok (s', v)" and "n \<noteq> nid"
  shows "untouched (run_id, n) s s'"
proof -
  from assms(1) obtain s1 t e where s1: "save_ledger en run_id l now s = Ok s1"
    and s2: "record_event en run_id (GE_NodeLeased nid a owner e) now
      (s1\<lparr>st_reservations := bm_insert (run_id, nid, a) t (st_reservations s1)\<rparr>) = Ok s'"
    by (auto simp: grant_lease_def bind_r_eq_Ok Let_def)
  from record_event_untouched [OF s2, of n] save_ledger_untouched [OF s1, of "(run_id, n)"] assms(2)
  show ?thesis by (simp add: untouched_def bmap_simps)
qed

lemma stop_untouched:
  assumes "stop_run_budget en run_id l err now s = Ok (s', v)"
  shows "untouched (run_id, n) s s'"
proof -
  from assms obtain s1 where s1: "save_ledger en run_id (l\<lparr>bl_stopped := Some (Reason_Error err)\<rparr>) now s = Ok s1"
    and s2: "record_event en run_id (GE_RunStatusChanged RS_BudgetStopped) now s1 = Ok s'"
    by (auto simp: stop_run_budget_def bind_r_eq_Ok Let_def)
  show ?thesis by (rule untouched_trans [OF save_ledger_untouched [OF s1] record_event_untouched [OF s2]]) simp
qed

lemma reserve_tx_cases:
  assumes "reserve_and_lease_tx en run_id nid owner ttl estimate now s = Ok (s', v)"
  obtains "s' = s" "v = LRO_NotRunnable"
  | l a where "grant_lease en (run_id, nid, a) owner ttl estimate l now s = Ok (s', v)"
  | l e where "stop_run_budget en run_id l e now s = Ok (s', v)"
proof -
  from assms obtain row where row: "bm_get (st_nodes s) (run_id, nid) = Some row"
    by (auto simp: reserve_and_lease_tx_def split: option.splits)
  show thesis
  proof (cases "may_lease (nr_status row)")
    case True
    with assms row obtain l0 where l0: "load_ledger en run_id s = Ok l0"
      by (auto simp: reserve_and_lease_tx_def bind_r_eq_Ok)
    let ?k = "(run_id, nid, sat_add (nr_attempt row) 1)"
    obtain l r where r: "reserve l0 ?k estimate = (l, r)" by (cases "reserve l0 ?k estimate")
    have tx: "reserve_and_lease_tx en run_id nid owner ttl estimate now s =
        (case r of Inl (Budget_Exceeded a b c d) \<Rightarrow> stop_run_budget en run_id l (Budget_Exceeded a b c d) now s
         | Inl (Budget_Stopped reason) \<Rightarrow> stop_run_budget en run_id l (Budget_Stopped reason) now s
         | _ \<Rightarrow> grant_lease en ?k owner ttl estimate l now s)"
      using row True l0 r by (simp add: reserve_and_lease_tx_def Let_def)
    show thesis
      using assms that(2,3) unfolding tx by (cases r) (auto split: budget_error.splits)
  next
    case False
    with assms row that(1) show thesis by (auto simp: reserve_and_lease_tx_def)
  qed
qed

lemma lease_untouched:
  assumes "n \<noteq> nid"
  shows "untouched (run_id, n) s (fst (reserve_and_lease_node en run_id nid owner ttl estimate now s))"
  unfolding reserve_and_lease_node_def
proof (rule transaction_untouched)
  fix s' v
  assume "reserve_and_lease_tx en run_id nid owner ttl estimate now s = Ok (s', v)"
  then show "untouched (run_id, n) s s'"
    by (cases rule: reserve_tx_cases) (auto simp: untouched_refl intro: grant_lease_untouched [OF _ assms] stop_untouched)
qed

lemma grant_lease_holds:
  assumes "grant_lease en (run_id, nid, a) owner ttl estimate l now s = Ok (s', LRO_Leased lease)"
    and row: "bm_get (st_nodes s) (run_id, nid) = Some row"
  shows "holds_lease run_id s' (nid, node, nl_attempt lease, nl_owner lease)"
proof -
  from assms(1) obtain s1 t e where s1: "save_ledger en run_id l now s = Ok s1"
    and s2: "record_event en run_id (GE_NodeLeased nid a owner e) now
      (s1\<lparr>st_reservations := bm_insert (run_id, nid, a) t (st_reservations s1)\<rparr>) = Ok s'"
    and lease: "nl_attempt lease = a" "nl_owner lease = owner"
    by (auto simp: grant_lease_def bind_r_eq_Ok Let_def)
  from s2 obtain s3 where s3: "insert_event_tx en run_id (GE_NodeLeased nid a owner e) now
      (s1\<lparr>st_reservations := bm_insert (run_id, nid, a) t (st_reservations s1)\<rparr>) = Ok s3"
      "apply_event_tx en run_id (GE_NodeLeased nid a owner e) now s3 = Ok s'"
    by (auto simp: record_event_def bind_r_eq_Ok)
  have "bm_get (st_nodes s3) (run_id, nid) = Some row" "bm_contains (st_reservations s3) (run_id, nid, a)"
    using insert_event_Ok [OF s3(1)] saved_fields [OF save_ledger_saved [OF s1]] row by (auto simp: bmap_simps)
  with s3(2) lease show ?thesis by (auto simp: Let_def update_node_def get_update_row)
qed

lemma lease_holds:
  assumes "reserve_and_lease_node en run_id nid owner ttl estimate now s = (s', Ok (LRO_Leased lease))"
  shows "holds_lease run_id s' (nid, node, nl_attempt lease, nl_owner lease)"
proof -
  from assms have tx: "reserve_and_lease_tx en run_id nid owner ttl estimate now s = Ok (s', LRO_Leased lease)"
    by (auto simp: reserve_and_lease_node_def transaction_def split: sum.splits)
  then obtain row where row: "bm_get (st_nodes s) (run_id, nid) = Some row"
    by (auto simp: reserve_and_lease_tx_def split: option.splits)
  from tx show ?thesis
  proof (cases rule: reserve_tx_cases)
    case (2 l a)
    then show ?thesis by (rule grant_lease_holds [OF _ row])
  qed (auto simp: stop_run_budget_def Let_def bind_r_eq_Ok)
qed

section \<open>Dispatch\<close>

lemma and_then_OkE:
  assumes "and_then m f = (w, Ok v)"
  obtains w1 u where "m = (w1, Ok u)" "f u w1 = (w, Ok v)"
  using assms by (cases m; cases "snd m") (auto simp: and_then_def)

lemma with_store_Ok:
  assumes "with_store su f w = (w', Ok v)"
  shows "\<exists>now. f now (wo_store w) = (wo_store w', Ok v) \<and> wo_sched w' = wo_sched w"
  using assms by (auto simp: with_store_def read_clock_def split: prod.splits sum.splits)

lemma dispatch_untouched:
  assumes "n \<noteq> nid" and "\<And>node. bm_get (sc_nodes (wo_sched w)) nid = Some node \<Longrightarrow> ns_id node = nid"
  shows "untouched (run_id, n) (wo_store w) (wo_store (fst (dispatch_node su run_id bound sel nid w)))"
proof -
  let ?ok = "untouched (run_id, n) (wo_store w)"
  note seq = and_then_keeps [of ?ok] and op = with_store_keeps [of ?ok]
  have plan: "?ok s \<Longrightarrow> ?ok (fst (save_compensation_plan en run_id plan now s))" for s en plan now
    by (rule untouched_trans [OF _ save_plan_untouched])
  have status: "?ok s \<Longrightarrow> n \<noteq> k \<Longrightarrow> ?ok (fst (mark_node_status en run_id k st now s))" for s en st now k
    by (rule untouched_trans [OF _ mark_node_status_untouched])
  have lease: "?ok s \<Longrightarrow> n \<noteq> k \<Longrightarrow> ?ok (fst (reserve_and_lease_node en run_id k owner ttl estimate now s))" for s en owner ttl estimate now k
    by (rule untouched_trans [OF _ lease_untouched])
  have take: "?ok (wo_store v) \<Longrightarrow> ?ok (wo_store (fst (take_lease su run_id node estimate lease v)))" for v node estimate lease
    unfolding take_lease_def mark_compensating_def Let_def
    by (auto simp: plan intro!: seq op split: prod.split sum.split option.split bool.split)
  have worker: "?ok (wo_store v) \<Longrightarrow> n \<noteq> ns_id node \<Longrightarrow> ?ok (wo_store (fst (start_node su run_id node a estimate v)))" for v node estimate a
    unfolding start_node_def lease_worker_def Let_def
    by (auto simp: lease status intro!: seq op take split: lease_reservation_outcome.split)
  have claim: "?ok (wo_store v) \<Longrightarrow> n \<noteq> ns_id node \<Longrightarrow> ?ok (wo_store (fst (claim_resources su run_id node a estimate v)))" for v node estimate a
    unfolding claim_resources_def Let_def by (auto intro: worker split: sum.split prod.split)
  show ?thesis
    unfolding dispatch_node_def Let_def using assms
    by (auto simp: untouched_refl intro!: seq claim split: option.split)
qed

lemma take_lease_selected:
  assumes "take_lease su run_id node estimate lease w = (w', Ok (DP_Selected n nd a owner))"
    and "holds_lease run_id (wo_store w) (ns_id node, node, nl_attempt lease, nl_owner lease)"
  shows "n = ns_id node \<and> nd = node \<and> holds_lease run_id (wo_store w') (n, nd, a, owner)"
proof -
  from assms(1) obtain v w1 where m: "mark_compensating su run_id node (nl_attempt lease) v = (w1, Ok ())" "wo_store v = wo_store w"
    and d: "w' = w1" "n = ns_id node" "nd = node" "a = nl_attempt lease" "owner = nl_owner lease"
    by (auto simp: take_lease_def Let_def elim!: and_then_OkE split: prod.splits sum.splits)
  have "untouched (run_id, ns_id node) (wo_store v) (wo_store (fst (mark_compensating su run_id node (nl_attempt lease) v)))"
    unfolding mark_compensating_def Let_def
    by (auto simp: untouched_refl intro!: and_then_keeps [of "untouched (run_id, ns_id node) (wo_store v)"]
        with_store_keeps [of "untouched (run_id, ns_id node) (wo_store v)"] untouched_trans [OF _ save_plan_untouched]
        split: option.split bool.split)
  with m have "untouched (run_id, ns_id node) (wo_store w) (wo_store w1)" by simp
  from untouched_lease [of run_id "(ns_id node, node, nl_attempt lease, nl_owner lease)", simplified fst_conv, OF this assms(2)] d
  show ?thesis by simp
qed

lemma dispatch_selected:
  assumes "dispatch_node su run_id bound sel nid w = (w', Ok (DP_Selected n nd a owner))"
    and named: "\<And>node. bm_get (sc_nodes (wo_sched w)) nid = Some node \<Longrightarrow> ns_id node = nid"
  shows "n = nid \<and> is_model_worker nd \<and> bm_get (sc_nodes (wo_sched w)) nid = Some nd \<and> sel < bound \<and>
    holds_lease run_id (wo_store w') (n, nd, a, owner)"
proof -
  from assms(1) obtain node where node: "bm_get (sc_nodes (wo_sched w)) nid = Some node" and free: "\<not> (is_model_worker node \<and> bound \<le> sel)"
    by (auto simp: dispatch_node_def split: option.splits if_splits)
  from assms(1) node free obtain v att est where "claim_resources su run_id node att est v = (w', Ok (DP_Selected n nd a owner))"
    by (auto simp: dispatch_node_def Let_def elim!: and_then_OkE split: if_splits)
  then obtain v1 where "start_node su run_id node att est v1 = (w', Ok (DP_Selected n nd a owner))"
    by (auto simp: claim_resources_def Let_def split: sum.splits prod.splits if_splits)
  then have worker: "is_model_worker node" and "lease_worker su run_id node att est v1 = (w', Ok (DP_Selected n nd a owner))"
    by (auto simp: start_node_def elim!: and_then_OkE split: if_splits)
  from this(2) obtain v2 lease wid where l: "with_store su (\<lambda>now. reserve_and_lease_node (su_engine su) run_id (ns_id node) wid
      default_lease_ttl_ms est now) v1 = (v2, Ok (LRO_Leased lease))"
    and t: "take_lease su run_id node est lease v2 = (w', Ok (DP_Selected n nd a owner))"
    by (auto simp: lease_worker_def Let_def elim!: and_then_OkE split: lease_reservation_outcome.splits)
  from with_store_Ok [OF l] lease_holds have "holds_lease run_id (wo_store v2) (ns_id node, node, nl_attempt lease, nl_owner lease)"
    by metis
  from take_lease_selected [OF t this] node worker free named [OF node] show ?thesis by auto
qed

lemma and_then_nodes:
  assumes "sc_nodes (wo_sched (fst m)) = ns" and "\<And>v w. sc_nodes (wo_sched w) = ns \<Longrightarrow> sc_nodes (wo_sched (fst (f v w))) = ns"
  shows "sc_nodes (wo_sched (fst (and_then m f))) = ns"
  using assms by (cases m; cases "snd m") (auto simp: and_then_def)

lemma with_store_sched [simp]: "wo_sched (fst (with_store su f w)) = wo_sched w"
  by (simp add: with_store_def read_clock_def split: prod.split sum.split)

lemma upd_sched [simp]: "wo_sched (upd f w) = f (wo_sched w)"
  by (simp add: upd_def)

lemma drop_nodes [simp]:
  "sc_nodes (drop_ticket nid s) = sc_nodes s" "sc_nodes (drop_admissions v nid s) = sc_nodes s"
  "sc_nodes (queue_worker nid s) = sc_nodes s" "sc_nodes (set_status nid status s) = sc_nodes s"
  "sc_nodes (complete_node v nid status s) = sc_nodes s"
  by (simp_all add: drop_ticket_def drop_admissions_def queue_worker_def set_status_def complete_node_def complete_fields split: option.split)

lemma claims_nodes [simp]:
  "sc_nodes (wo_sched (fst (claim_host su run_id node next_attempt w))) = sc_nodes (wo_sched w)"
  "sc_nodes (wo_sched (fst (claim_provider su node estimate w))) = sc_nodes (wo_sched w)"
  by (auto simp: claim_host_def claim_provider_def acquire_host_admission_def acquire_provider_admission_def read_clock_def Let_def
      split: prod.splits sum.splits option.splits admission_result.splits provider_admission.splits if_splits)

lemma take_lease_nodes [simp]: "sc_nodes (wo_sched (fst (take_lease su run_id node estimate lease w))) = sc_nodes (wo_sched w)"
  unfolding take_lease_def mark_compensating_def Let_def
  by (auto intro!: and_then_nodes split: prod.split sum.split option.split bool.split)

lemma claim_resources_nodes [simp]:
  "sc_nodes (wo_sched (fst (claim_resources su run_id node next_attempt estimate w))) = sc_nodes (wo_sched w)"
proof -
  have "sc_nodes (wo_sched (fst (start_node su run_id node a estimate v))) = sc_nodes (wo_sched v)" for v a
    unfolding start_node_def lease_worker_def Let_def
    by (auto intro!: and_then_nodes split: lease_reservation_outcome.split)
  then show ?thesis
    unfolding claim_resources_def Let_def by (auto split: sum.split prod.split)
qed

lemma dispatch_nodes_kept: "sc_nodes (wo_sched (fst (dispatch_node su run_id bound sel nid w))) = sc_nodes (wo_sched w)"
  unfolding dispatch_node_def Let_def by (auto intro!: and_then_nodes split: option.split)

text \<open>The workers a step has chosen so far: as many as allowed, of distinct nodes, each with a lease.\<close>

definition started_ok :: "string \<Rightarrow> nat \<Rightarrow> 'j store \<Rightarrow> selected_worker list \<Rightarrow> bool" where
  "started_ok run_id bound s pending \<longleftrightarrow> length pending \<le> bound \<and> distinct (map fst pending) \<and>
     list_all (\<lambda>p. is_model_worker (fst (snd p)) \<and> holds_lease run_id s p) pending"

lemma started_ok_frame:
  assumes "started_ok run_id bound s pending" and "\<And>n. n \<in> fst ` set pending \<Longrightarrow> untouched (run_id, n) s s'"
  shows "started_ok run_id bound s' pending"
  using assms untouched_lease by (fastforce simp: started_ok_def list_all_iff)

lemma started_ok_snoc:
  assumes "started_ok run_id bound s pending" and "length pending < bound" and "fst p \<notin> fst ` set pending"
    and "is_model_worker (fst (snd p))" and "holds_lease run_id s p"
  shows "started_ok run_id bound s (pending @ [p])"
  using assms by (simp add: started_ok_def)

lemma dispatch_nodes_started:
  assumes "dispatch_nodes su run_id bound pending ids w = (w', Ok pending')"
    and "\<And>nid node. bm_get (sc_nodes (wo_sched w)) nid = Some node \<Longrightarrow> ns_id node = nid"
    and "distinct ids" and "fst ` set pending \<inter> set ids = {}" and "started_ok run_id bound (wo_store w) pending"
  shows "started_ok run_id bound (wo_store w') pending'"
  using assms
proof (induction ids arbitrary: w pending)
  case (Cons nid ids)
  obtain w1 r where d: "dispatch_node su run_id bound (length pending) nid w = (w1, r)"
    by (cases "dispatch_node su run_id bound (length pending) nid w")
  have nodes: "sc_nodes (wo_sched w1) = sc_nodes (wo_sched w)"
    using dispatch_nodes_kept [of su run_id bound "length pending" nid w] d by simp
  have frame: "untouched (run_id, n) (wo_store w) (wo_store w1)" if "n \<in> fst ` set pending" for n
    using dispatch_untouched [of n nid w run_id su bound "length pending"] Cons.prems(2,4) that d by auto
  have kept: "started_ok run_id bound (wo_store w1) pending"
    by (rule started_ok_frame [OF Cons.prems(5) frame])
  from Cons.prems(1) d obtain turn where r: "r = Ok turn" by (cases r) auto
  show ?case
  proof (cases turn)
    case DP_Continue
    with Cons.prems d r nodes kept show ?thesis by (intro Cons.IH [of pending w1]) auto
  next
    case DP_Break
    with Cons.prems(1) d r kept show ?thesis by simp
  next
    case (DP_Selected n node attempt owner)
    from dispatch_selected [OF d [unfolded r DP_Selected] Cons.prems(2)]
    have sel: "n = nid" "is_model_worker node" "length pending < bound" "holds_lease run_id (wo_store w1) (n, node, attempt, owner)"
      by auto
    have "started_ok run_id bound (wo_store w1) (pending @ [(n, node, attempt, owner)])"
      by (rule started_ok_snoc [OF kept]) (use sel Cons.prems(4) in auto)
    with Cons.prems d r DP_Selected nodes sel(1) show ?thesis
      by (intro Cons.IH [of "pending @ [(n, node, attempt, owner)]" w1]) auto
  qed
qed simp

lemma ready_ids_distinct: "distinct (bm_keys (sc_nodes s)) \<Longrightarrow> distinct (run_ready_nodes s)"
  by (simp add: run_ready_nodes_def split: option.split)

text \<open>
  C9. The workers a step starts hold their leases. When the dispatch loop of a step ends, the nodes it has
  chosen are distinct model workers, no more than the model calls the configuration allows at once, and
  the database has each attempt leased to its worker and the usage of the attempt reserved, all of it
  before any worker starts.
\<close>

theorem started_workers_leased:
  assumes "dispatch_nodes su run_id (step_model_limit (wo_sched w)) [] (run_ready_nodes (wo_sched w)) w = (w', Ok pending)"
    and "sc_nodes (wo_sched w) = sc_nodes (initial_scheduler host spec config)"
  shows "length pending \<le> unat (max (cf_max_active_model_calls (sc_config (wo_sched w))) 1) \<and> distinct (map fst pending) \<and>
    list_all (\<lambda>p. is_model_worker (fst (snd p)) \<and> holds_lease run_id (wo_store w') p) pending"
proof -
  have nodes: "sc_nodes (wo_sched w) = bm_of_list (map (\<lambda>node. (ns_id node, node)) (sb_nodes (gs_spec spec)))"
    using assms(2) by (simp add: initial_scheduler_def Let_def)
  then have "distinct (run_ready_nodes (wo_sched w))"
    by (simp add: ready_ids_distinct bm_keys_def bm_wf_of_list [unfolded bm_wf_def])
  moreover have "ns_id node = nid" if "bm_get (sc_nodes (wo_sched w)) nid = Some node" for nid node
  proof -
    from that have "(nid, node) \<in> set (map (\<lambda>node. (ns_id node, node)) (sb_nodes (gs_spec spec)))"
      unfolding nodes bm_get_Some_iff [OF bm_wf_of_list] using set_bm_of_list by (rule subsetD [rotated])
    then show ?thesis by auto
  qed
  ultimately have "started_ok run_id (step_model_limit (wo_sched w)) (wo_store w') pending"
    by (intro dispatch_nodes_started [OF assms(1)]) (auto simp: started_ok_def)
  then show ?thesis by (auto simp: started_ok_def step_model_limit_def)
qed

section \<open>The run ends\<close>

text \<open>What other tasks have made of the database after \<open>k\<close> awaits.\<close>

definition after_awaits :: "('j, 'w) surroundings \<Rightarrow> nat \<Rightarrow> 'j store \<times> 'w \<Rightarrow> 'j store \<times> 'w" where
  "after_awaits su k = (\<lambda>(s, others). su_await su s others) ^^ k"

definition is_paused :: "string \<Rightarrow> 'j store \<Rightarrow> bool" where
  "is_paused run_id s \<longleftrightarrow> store_run_status s run_id \<in> {Ok RS_Paused, Ok RS_Pausing}"

lemma not_paused_runnable:
  "store_run_status s run_id = Ok status \<Longrightarrow> \<not> is_paused run_id s \<Longrightarrow> runnable_status status \<noteq> None"
  by (cases status) (simp_all add: is_paused_def)

lemma wait_returns:
  assumes "\<not> is_paused run_id (fst (after_awaits su k (wo_store w, wo_outside w)))"
  shows "\<exists>res. wait_for_runnable_status su run_id w = Some res"
  using assms
proof (induction k arbitrary: w)
  case 0
  then have "\<not> is_paused run_id (wo_store w)" by (simp add: after_awaits_def)
  with not_paused_runnable [of "wo_store w" run_id] show ?case
    by (subst wait_for_runnable_status.simps) (auto split: sum.split)
next
  case (Suc k)
  let ?w = "await_others su (upd (\<lambda>s. s\<lparr>sc_run_status := RS_Paused\<rparr>) w)"
  have "(wo_store ?w, wo_outside ?w) = su_await su (wo_store w) (wo_outside w)"
    by (simp add: await_others_def upd_def split: prod.split)
  with Suc.prems have "\<not> is_paused run_id (fst (after_awaits su k (wo_store ?w, wo_outside ?w)))"
    by (simp add: after_awaits_def funpow_swap1)
  from Suc.IH [OF this] show ?case
    by (subst wait_for_runnable_status.simps) (auto split: sum.split option.split)
qed

lemma durable_steps_return:
  assumes "\<And>s others. \<exists>k. \<not> is_paused run_id (fst (after_awaits su k (s, others)))"
  shows "\<exists>res. durable_steps su run_id n w = Some res"
proof (induction n arbitrary: w)
  case (Suc n)
  obtain w1 r1 where w1: "activate_retries su run_id w = (w1, r1)" by (cases "activate_retries su run_id w")
  from assms wait_returns obtain w2 r2 where w2: "wait_for_runnable_status su run_id w1 = Some (w2, r2)" by (metis surj_pair)
  obtain w3 r3 where w3: "step_with_subagents su run_id w2 = (w3, r3)" by (cases "step_with_subagents su run_id w2")
  show ?case using w1 w2 w3 Suc.IH by (auto split: sum.split option.split bool.split)
qed simp

lemma run_ends_with_steps:
  assumes "\<And>n w. \<exists>res. durable_steps su run_id n w = Some res"
  shows "\<exists>res. run_to_completion_with_subagents su run_id w = Some res"
proof (cases "store_run_status (wo_store w) run_id")
  case (Inr persisted)
  obtain w1 r1 where w1: "begin_durable su run_id persisted w = (w1, r1)" by (cases "begin_durable su run_id persisted w")
  obtain w2 r2 where "durable_steps su run_id (unat (maximum_scheduler_steps (wo_sched w1))) w1 = Some (w2, r2)"
    using assms by (metis surj_pair)
  with Inr w1 show ?thesis by (auto simp: run_to_completion_with_subagents_def Let_def split: sum.split)
qed (simp add: run_to_completion_with_subagents_def)

text \<open>
  C11. A durable run returns. Whatever the workers answer and whatever other tasks write, the run comes to
  a report or an error, as long as each time the run is paused the pause ends after some number of awaits.
\<close>

theorem durable_run_returns:
  assumes "\<And>s others. \<exists>k. \<not> is_paused run_id (fst (after_awaits su k (s, others)))"
  shows "\<exists>res. run_to_completion_with_subagents su run_id w = Some res"
  by (rule run_ends_with_steps) (rule durable_steps_return [OF assms])

text \<open>A run with one agent, whose place on the host is waiting for it; other tasks resume the run whenever it waits.\<close>

definition waiting_ticket :: admission_ticket where
  "waiting_ticket = \<lparr>at_id = ''t'', at_request_id = (''run'', ''a'', 1), at_claims = [(''local-execution'', 1), (''model-calls'', 1)]\<rparr>"

definition resuming :: "(kept_text, unit) surroundings" where
  "resuming =
     \<lparr>su_engine = plain_engine, su_texts = plain_texts worker_output, su_loop_env = null_env, su_loop_json_error = ''json'',
      su_service = plain_service plain_result, su_observations = \<lambda>_. [], su_backend = new_subagent_backend ''session'' ''/repo'',
      su_new_v4 = \<lambda>_. ''id'', su_uuid = \<lambda>_. ''uuid'', su_now = \<lambda>_. 0, su_tick = id,
      su_await = \<lambda>s others. (fst (mark_run_status plain_engine ''run'' RS_Running 0 s), others), su_host = \<lambda>c _. c\<rparr>"

definition one_agent :: "(kept_text, unit) world" where
  "one_agent =
     \<lparr>wo_sched = initial_scheduler (new_controller [] [] 1\<lparr>ac_admitted := [((''run'', ''a'', 1), waiting_ticket)]\<rparr>) stored_graph (config_from_graph stored_graph),
      wo_store = stored_run, wo_outside = ()\<rparr>"

lemma resumed: "\<not> is_paused ''run'' (fst (mark_run_status plain_engine ''run'' RS_Running 0 s))"
proof (cases "bm_get (st_runs s) ''run''")
  case None
  then show ?thesis
    by (simp add: mark_run_status_def append_event_def in_run_def bm_contains_def ensure_run_def is_paused_def store_run_status_def ok_or_def)
next
  case (Some run)
  then show ?thesis
    by (simp add: mark_run_status_def append_event_def in_run_def bm_contains_def ensure_run_def transaction_def
        with_unit_def record_event_def insert_event_tx_def constraint_def json_def references_def is_paused_def
        store_run_status_def set_run_status_def update_run_def get_update_row ok_or_def)
qed

lemma resuming_pauses_end: "\<exists>k. \<not> is_paused ''run'' (fst (after_awaits resuming k (s, others)))"
  by (rule exI [of _ 1]) (simp add: after_awaits_def resuming_def resumed)

theorem durable_run_returns_witness: "\<exists>res. run_to_completion_with_subagents resuming ''run'' one_agent = Some res"
  by (rule durable_run_returns) (rule resuming_pauses_end)

text \<open>
  C10. A durable run keeps the database sound. Started on tables that operations of the store have built,
  with other tasks writing to them at every await by operations of the store, a run that returns, with a
  report or with an error, leaves the tables consistent, and no run has charged more than its integer
  limits.
\<close>

theorem durable_run_keeps_store_sound:
  assumes "run_to_completion_with_subagents su run_id w = Some (w', r)"
    and "any_ops (su_engine su) empty_store (wo_store w)" and "\<And>s others. any_ops (su_engine su) s (fst (su_await su s others))"
    and "en_foreign_keys (su_engine su)" and "reads_back (su_engine su)"
  shows "store_wf (wo_store w') \<and>
    (case load_ledger (su_engine su) run_id' (wo_store w') of Inl _ \<Rightarrow> True | Inr l \<Rightarrow> within_u64 (bl_limits l) (bl_charged l))"
proof -
  have "attended (su_engine su) (any_ops (su_engine su) empty_store) su"
    unfolding attended_def by (metis assms(3) rtranclp_trans)
  from tables.durable_run_keeps [OF assms(1) this assms(2)]
  have "any_ops (su_engine su) empty_store (wo_store w')" by simp
  from store_reachable_inv [OF this assms(4,5) empty_store_inv] show ?thesis
    by (auto simp: store_inv_def ledgers_ok_def ledger_ok_def split: sum.split)
qed

theorem durable_run_keeps_store_sound_witness:
  "\<exists>w' r. run_to_completion_with_subagents resuming ''run'' one_agent = Some (w', r) \<and> store_wf (wo_store w')"
proof -
  from run_ends_with_steps [OF durable_steps_return [OF resuming_pauses_end]]
  obtain w' r where run: "run_to_completion_with_subagents resuming ''run'' one_agent = Some (w', r)" by fast
  have "store_wf (wo_store w')"
    using durable_run_keeps_store_sound [OF run] stored_reachable plain_engine_reads_back
    by (auto simp: resuming_def one_agent_def mark_run_status_def intro!: r_into_rtranclp op_event)
  with run show ?thesis by blast
qed

text \<open>The first step of the run with one agent, evaluated.\<close>

definition lone_agent :: node_spec where
  "lone_agent = minimal_node ''a'' NK_Agent ''x''"

abbreviation lone_start :: scheduler where
  "lone_start \<equiv> start_run (wo_sched one_agent)"

lemma lone_agent_facts [simp]: "ns_id lone_agent = ''a''" "is_model_worker lone_agent" "ns_kind lone_agent = NK_Agent"
  by (simp_all add: lone_agent_def minimal_node_def is_model_worker_def)

lemma lone_start_sel:
  "sc_nodes lone_start = bm_of_list [(''a'', lone_agent)]" "sc_attempts lone_start = []" "sc_compensation_plan lone_start = None"
  "sc_budget lone_start = new_ledger default_graph_budgets" "sc_config lone_start = config_from_graph stored_graph"
  "sc_run_status lone_start = RS_Running" "sc_statuses lone_start = [(''a'', initial_status lone_agent)]"
  "sc_dependencies lone_start = build_dependency_map stored_graph"
  by (simp_all add: one_agent_def start_run_def initial_scheduler_def Let_def lone_agent_def bm_of_list_def bm_insert_def bm_remove_def)

lemma lone_start_facts:
  "run_ready_nodes lone_start = [''a'']" "0 < step_model_limit lone_start"
  "bm_get (sc_nodes lone_start) ''a'' = Some lone_agent" "bm_get (sc_attempts lone_start) ''a'' = None"
  "bm_contains (sc_statuses lone_start) ''a''" "sc_compensation_plan lone_start = None"
  "bl_stopped (sc_budget lone_start) = None" "bl_limits (sc_budget lone_start) = default_graph_budgets"
  "cf_plan_mode (sc_config lone_start) = False"
proof -
  have "dependencies_satisfied lone_start ''a''"
    unfolding dependencies_satisfied_def lone_start_sel by code_simp
  then show "run_ready_nodes lone_start = [''a'']"
    by (simp add: run_ready_nodes_def runnable_node_def lone_start_sel initial_status_def bm_of_list_def bm_insert_def bm_remove_def
        bm_keys_def bm_get_def)
  show "0 < step_model_limit lone_start"
    by (auto simp: step_model_limit_def max_def unat_gt_0)
qed (simp_all add: lone_start_sel bm_of_list_def bm_get_def bm_insert_def bm_remove_def bm_contains_def new_ledger_def config_from_graph_def)

lemma lone_start_place: "\<not> bm_contains (sc_host_tickets lone_start) ''a''" "bm_get (ac_admitted (sc_host lone_start)) (''run'', ''a'', 1) = Some waiting_ticket"
  by (simp_all add: one_agent_def start_run_def initial_scheduler_def Let_def bm_get_def bm_contains_def)

lemma ensured_admitted: "ac_admitted (ensure_host_capacities spec c) = ac_admitted c"
proof -
  have "ac_admitted (ensure_capacity resource amount c) = ac_admitted c" for resource amount c
    by (simp add: ensure_capacity_def)
  then show ?thesis by (simp add: ensure_host_capacities_def fold_keeps split_def)
qed

text \<open>A request that the host has admitted while it was queued is taken up by the next submission.\<close>

lemma waiting_place_taken:
  assumes "\<not> bm_contains (sc_host_tickets s) (ns_id node)" and "bm_get (ac_admitted (sc_host s)) (run_id, ns_id node, attempt) = Some ticket"
  shows "\<exists>host requests tickets. acquire_host_admission v run_id node attempt s =
    (s\<lparr>sc_host := host, sc_host_requests := requests, sc_host_tickets := tickets\<rparr>, Ok True)"
proof -
  let ?request = "\<lparr>aq_id = (run_id, ns_id node, attempt), aq_class = host_class (sc_spec s) node, aq_claims = host_claims (sc_spec s) node\<rparr>"
  obtain host where "submit v (ensure_host_capacities (sc_spec s) (sc_host s)) ?request = (host, AR_Acquired ticket)"
    using assms(2) by (simp add: submit_def ensured_admitted)
  then have "acquire_host_admission v run_id node attempt s = (s\<lparr>sc_host := host, sc_host_requests := bm_remove (ns_id node) (sc_host_requests s),
      sc_host_tickets := bm_insert (ns_id node) ticket (sc_host_tickets s)\<rparr>, Ok True)"
    using assms(1) by (simp add: acquire_host_admission_def)
  then show ?thesis by (intro exI)
qed

lemma lone_agent_resources: "\<exists>m' ticket. try_acquire m lone_agent defaults False = Ok (m', ticket)"
  by (simp add: try_acquire_def check_tools_def normalized_write_set_def check_writes_def lone_agent_def minimal_node_def Let_def)

lemma lone_lease:
  "\<exists>s lease. reserve_and_lease_node plain_engine ''run'' ''a'' owner ttl estimate 0 stored_run = (s, Ok (LRO_Leased lease))"
  by (simp add: lease_eval stored_ledger new_ledger_def)

lemma lone_worker_started:
  assumes "wo_store w = stored_run" and "bl_stopped (sc_budget (wo_sched w)) = None"
    and "bl_limits (sc_budget (wo_sched w)) = default_graph_budgets"
  shows "\<exists>w' attempt owner. start_node resuming ''run'' lone_agent a estimate w = (w', Ok (DP_Selected ''a'' lone_agent attempt owner))"
proof -
  obtain s lease where l: "reserve_and_lease_node plain_engine ''run'' ''a'' (graph_worker_id ''uuid'' ''run'' ''a'' a)
      default_lease_ttl_ms estimate 0 stored_run = (s, Ok (LRO_Leased lease))" using lone_lease by blast
  have "with_store resuming (\<lambda>now. reserve_and_lease_node (su_engine resuming) ''run'' ''a''
      (graph_worker_id (su_uuid resuming (wo_outside w)) ''run'' ''a'' a) default_lease_ttl_ms estimate now) w =
      (w\<lparr>wo_store := s\<rparr>, Ok (LRO_Leased lease))"
    using l assms(1) by (simp add: with_store_def read_clock_def resuming_def)
  then show ?thesis
    using assms(2,3)
    by (simp add: start_node_def lease_worker_def and_then_def take_lease_def mark_compensating_def reserve_unlimited Let_def)
qed

lemma lone_agent_dispatched:
  "\<exists>w' attempt owner. dispatch_node resuming ''run'' (step_model_limit lone_start) 0 ''a'' (upd start_run one_agent) =
     (w', Ok (DP_Selected ''a'' lone_agent attempt owner))"
proof -
  from waiting_place_taken [of lone_start lone_agent "''run''" 1] lone_start_place obtain s1
    where s1: "acquire_host_admission (\<lambda>_. ''id'') ''run'' lone_agent 1 lone_start = (s1, Ok True)"
      and same: "sc_statuses s1 = sc_statuses lone_start" "sc_budget s1 = sc_budget lone_start" "sc_config s1 = sc_config lone_start"
    by fastforce
  let ?w = "upd start_run one_agent\<lparr>wo_sched := s1\<rparr>"
  have host: "claim_host resuming ''run'' lone_agent 1 (upd start_run one_agent) = (?w, Ok True)"
    using s1 by (simp add: claim_host_def resuming_def)
  have provider: "claim_provider resuming lone_agent estimate ?w = (?w, Ok True)" for estimate
    by (simp add: claim_provider_def read_clock_def resuming_def provider_route_for_node_def new_subagent_backend_def
        acquire_provider_admission_def Let_def)
  have "\<exists>w' attempt owner. claim_resources resuming ''run'' lone_agent 1 estimate ?w = (w', Ok (DP_Selected ''a'' lone_agent attempt owner))" for estimate
  proof -
    obtain m ticket where t: "try_acquire (sc_resources s1) lone_agent (sb_defaults (gs_spec (sc_spec s1))) (cf_plan_mode (sc_config s1)) = Ok (m, ticket)"
      using lone_agent_resources lone_start_facts(9) same(3) by metis
    show ?thesis
      using t same lone_start_facts
      by (simp add: claim_resources_def Let_def) (rule lone_worker_started; simp add: one_agent_def set_status_def)
  qed
  with host provider lone_start_facts(2,3,4) show ?thesis by (simp add: dispatch_node_def and_then_def Let_def)
qed

theorem started_workers_leased_witness:
  "\<exists>w' attempt owner. dispatch_nodes resuming ''run'' (step_model_limit lone_start) [] (run_ready_nodes lone_start) (upd start_run one_agent) =
     (w', Ok [(''a'', lone_agent, attempt, owner)]) \<and> holds_lease ''run'' (wo_store w') (''a'', lone_agent, attempt, owner)"
proof -
  obtain w' attempt owner where "dispatch_node resuming ''run'' (step_model_limit lone_start) 0 ''a'' (upd start_run one_agent) =
     (w', Ok (DP_Selected ''a'' lone_agent attempt owner))" using lone_agent_dispatched by blast
  then have run: "dispatch_nodes resuming ''run'' (step_model_limit lone_start) [] (run_ready_nodes lone_start) (upd start_run one_agent) =
     (w', Ok [(''a'', lone_agent, attempt, owner)])" by (simp add: lone_start_facts(1))
  have "sc_nodes lone_start = sc_nodes (initial_scheduler (new_controller [] [] 1) stored_graph (config_from_graph stored_graph))"
    by (simp add: one_agent_def start_run_def initial_scheduler_def Let_def)
  with started_workers_leased [of resuming "''run''" "upd start_run one_agent"] run show ?thesis by fastforce
qed

section \<open>Where a durable run differs from what it means to do\<close>

text \<open>
  Recovery ends the lease of a live worker and settles its reservation. When the worker answers, its output
  is refused with an error, which ends the step, and with it the run.
\<close>

lemma settled_output_fails:
  assumes "store_inv (su_engine su) (wo_store w)"
    and "\<not> bm_contains (st_reservations (wo_store w)) (run_id, nid, wc_attempt c)"
  shows "\<exists>w' e. accept_result su run_id (nid, attempt, Ok c) w = (w', Err e)"
proof -
  let ?v = "observe_completion su nid (classify_node_output (wc_output c)) c w"
  let ?f = "\<lambda>now. accept_output_and_reconcile (su_engine su) run_id nid (wc_attempt c) (wc_output c) (Some (wc_usage c)) now"
  have no: "snd (?f now (wo_store w)) \<noteq> Ok True" for now using settled_not_again [OF assms] by blast
  obtain v' r where v: "with_store su ?f ?v = (v', r)" by (cases "with_store su ?f ?v")
  have "r \<noteq> Ok True"
  proof
    assume "r = Ok True"
    with with_store_Ok [of su ?f ?v v' True] v obtain now where "?f now (wo_store w) = (wo_store v', Ok True)" by auto
    with no [of now] show False by simp
  qed
  with v show ?thesis by (cases r) (auto simp: accept_result_def Let_def and_then_def)
qed

text \<open>An error leaves the run before the places on the host are given back.\<close>

lemma failed_run_keeps_places:
  assumes "store_run_status (wo_store w) run_id = Ok persisted" and "persisted \<noteq> RS_Cancelled"
    and "begin_durable su run_id persisted w = (w1, Ok u)"
    and "durable_steps su run_id (unat (maximum_scheduler_steps (wo_sched w1))) w1 = Some (w2, Err e)"
  shows "run_to_completion_with_subagents su run_id w = Some (w2, Err e)"
  using assms by (simp add: run_to_completion_with_subagents_def)

end
