(* ===== verification/Spec2Isabelle.thy ===== *)
theory Spec2Isabelle
  imports Budget Retry Admission Topology Predicate_Eval Resources Loop_Controller Compensation Rate_Limit Normalization Validation Worker Scheduler Scheduler_Run Scheduler_Correct Scheduler_Live Scheduler_Properties Approval Store Store_Correct Store_Properties Runtime Model_Selector Output_Verification Subagent_Worker Durable_Run Durable_Correct Durable_Properties
begin

text \<open>
  The AgentGraph control plane of Bandicot.

  AgentGraph runs a declared graph of work (agents, tools, checks, joins, loops) on model workers.
  A specification is normalized, hashed and validated; an accepted graph is compiled and handed to
  a scheduler, which starts the nodes whose dependencies are satisfied as far as the budget of the
  run, its resource locks and write sets, the admission controller of the host and the windows of
  the model providers allow, hands them to a worker backend, and records their outputs. Failed
  nodes are retried, loops run for a bounded number of rounds, side effects of a failed run are
  undone. The code is in
  \<^verbatim>\<open>src/crates/codegen/xai-grok-shell/src/control_plane/agent_graph/\<close>; file names below are relative
  to that directory.

  \<^bold>\<open>Theories and source files.\<close>

  \<^item> \<open>Prelude\<close>: machine integers with their saturating and converting operations (\<open>u32\<close>, \<open>u64\<close> and
  \<open>usize\<close> are words, \<open>i64\<close> is \<open>int\<close> with its bounds written out), \<open>f64\<close> with rounding, NaN and
  infinities, results as sums, \<open>BTreeMap\<close> and \<open>BTreeSet\<close> as sorted lists, and the
  locales \<open>ordered_map\<close> and \<open>permit_pool\<close>. \<open>Rust_Strings\<close>: the string functions of the standard
  library the code calls.
  \<^item> \<open>Graph_Types\<close>: \<^verbatim>\<open>types.rs\<close>. One record per struct, one datatype per enum. A JSON value is a
  datatype whose objects are association lists.
  \<^item> \<open>Normalization\<close>: \<^verbatim>\<open>normalization.rs\<close>. \<open>Topology\<close>: \<^verbatim>\<open>topology.rs\<close>. \<open>Predicate_Eval\<close>:
  \<^verbatim>\<open>predicate.rs\<close>. \<open>Validation\<close>: \<^verbatim>\<open>validation.rs\<close>, every check with its error in the order of the code.
  \<^item> \<open>Budget\<close>: \<^verbatim>\<open>budget.rs\<close>. \<open>Retry\<close>: \<^verbatim>\<open>retry.rs\<close>. \<open>Loop_Controller\<close>: \<^verbatim>\<open>loop_controller.rs\<close>.
  \<open>Compensation\<close>: \<^verbatim>\<open>compensation.rs\<close>.
  \<^item> \<open>Resources\<close>: \<^verbatim>\<open>resources.rs\<close>. \<open>Admission\<close>: \<^verbatim>\<open>admission.rs\<close>. \<open>Rate_Limit\<close>: \<^verbatim>\<open>rate_limit.rs\<close>.
  \<^item> \<open>Worker\<close>: the worker interface and the in-memory backend of \<^verbatim>\<open>worker.rs\<close>. The trait is a record of
  operations over a state of any type; the locale \<open>faithful_backend\<close> says what the scheduler relies
  on (a completion is one that was started and not reported before), and the in-memory backend is
  an interpretation of it. \<open>Subagent_Worker\<close>: the other backend of that file, which spawns a subagent for
  a node and makes a completion of its answer.
  \<^item> \<open>Model_Selector\<close>: \<^verbatim>\<open>model_selector.rs\<close>. \<open>Output_Verification\<close>: \<^verbatim>\<open>verification.rs\<close>.
  \<^item> \<open>Scheduler\<close>: \<^verbatim>\<open>scheduler.rs\<close>, the synchronous engine: state, construction, ready nodes, joins,
  \<open>step\<close>, \<open>run_to_completion\<close>, cancellation, status, report. \<open>Scheduler_Run\<close> splits every operation
  into primitive changes of the state and shows the invariants for each; \<open>Scheduler_Correct\<close> lifts
  them to sequences of the public operations; \<open>Scheduler_Live\<close> shows progress;
  \<open>Scheduler_Properties\<close> holds the properties of whole runs.
  \<^item> \<open>Approval\<close>: \<^verbatim>\<open>approval.rs\<close>.
  \<^item> \<open>Store\<close>: \<^verbatim>\<open>store.rs\<close>. The record \<open>store\<close> has one field per table of the database, a sorted
  association list from primary key to row; a statement is an update of it, and a transaction that
  returns an error leaves the tables as they were. \<open>Store_Correct\<close> gives the primitive writes, what
  each operation writes, and the invariants; \<open>Store_Properties\<close> the properties.
  \<^item> \<open>Runtime\<close>: \<^verbatim>\<open>runtime.rs\<close>, the recovery of interrupted runs and the heartbeat.
  \<^item> \<open>Durable_Run\<close>: \<^verbatim>\<open>scheduler.rs\<close>, the asynchronous engine (\<open>run_to_completion_with_subagents\<close>) over subagent
  workers and the database. Its state is the scheduler, the tables and everything outside; an operation
  returns the new state with its result, an error or a failed \<^verbatim>\<open>expect\<close>. \<open>Durable_Correct\<close> states in the
  locale \<open>run_store\<close> what the run relies on of the store and shows that a run keeps every property of the
  tables that each operation keeps; \<open>Durable_Properties\<close> holds the properties.

  \<^bold>\<open>What is shown.\<close>

  \<^item> Whole runs: on an accepted graph a step fails only with an error of the backend; nodes start
  after their dependencies; workers, permits, write sets and budget stay within their limits at
  every moment; a completed run has every node succeeded; cancellation gives everything back; with
  workers that succeed at once, \<open>run_to_completion\<close> completes a graph that sets no budget limits and has
  no compensation nodes, zero iteration bounds or unreachable joins, within its own step bound.
  \<^item> The database: after any sequence of operations the tables refer to each other consistently and
  the durable budget is within its limits; an attempt is settled once, the output of a superseded
  attempt is refused, a due retry is activated once, and a coordinator lease excludes other owners;
  a recovery leaves no lease behind on a live run; an approval holds only for the authority it was
  given for.
  \<^item> Durable runs: the workers of a step are distinct, within the limit, and each holds a lease and a
  reservation before it starts; a run leaves the tables consistent and every ledger within its limits,
  however it ends and whatever other tasks write; it returns unless it stays paused.
  \<^item> Workers: a subagent is spawned only for a node that may have one, with no more authority than the
  node declares; its answer is a success only after verification, which confines the paths it names (a
  write set that is not empty also confines the changed files); a
  model selector resolves to the first candidate on offer.
  \<^item> Budget: no reservation oversubscribes an integer or a cost limit, usage is charged once, a stop is final, and the
  persistent form restores the ledger.
  \<^item> Admission, resources and provider windows: what is in use is exactly what the tickets
  outstanding claim, after any sequence of operations, and within the limits; a request that fits is
  admitted at once; write sets of active nodes are disjoint; an open circuit stays open.
  \<^item> Specifications: a graph is accepted exactly when it is valid; its order respects its
  dependencies, its critical path is a longest chain, its predicates evaluate without error, its
  paths stay below the root, its retries and loops are bounded; the hash does not depend on the
  order of declarations.
  \<^item> Retries, loops and compensation: a retry is scheduled only within every configured limit and
  with a bounded delay; a loop continues only below its limits; a plan undoes exactly what was
  completed, in reverse order.

  \<^bold>\<open>Loops and bounds.\<close> Every function is total, but for \<open>wait_for_runnable_status\<close>, which has no value while
  a run stays paused (\<open>partial_function (option)\<close>). Loops over collections are structural; the
  scheduling loop of \<open>Admission\<close> and the sort of \<open>Topology\<close> have termination proofs;
  \<open>run_steps\<close>, the loop of \<open>run_to_completion\<close>, counts down \<open>maximum_scheduler_steps\<close> as the code does,
  and \<open>Scheduler_Live\<close> shows that the bound is enough; \<open>durable_steps\<close> counts down the same bound.

  \<^bold>\<open>Arguments that stand for other code.\<close> \<^verbatim>\<open>serde_json\<close> serialization, SHA-256, the \<^verbatim>\<open>Debug\<close> text of
  values, identifiers drawn by \<^verbatim>\<open>uuid\<close>, the clock, \<^verbatim>\<open>git\<close>, the JSON schema validator, the subagent service
  (record \<open>subagent_service\<close>), what other tasks do during an await, and of SQLite the order of unordered rows and
  whether foreign keys are enforced (record \<open>engine\<close>) are arguments of the definitions that use
  them. Properties that need something of them say so as a hypothesis.

  \<^bold>\<open>Not modelled.\<close> The timer tasks of \<^verbatim>\<open>runtime.rs\<close>, which call the modelled operations; \<^verbatim>\<open>service.rs\<close>,
  \<^verbatim>\<open>commands.rs\<close>, \<^verbatim>\<open>codex_app_server.rs\<close> and \<^verbatim>\<open>benchmark.rs\<close> (processes, files and text around the modelled
  operations); the rest of the repository, the terminal interface and the agent shell. Mutexes are not
  modelled: each operation holds its lock from beginning to end, so operations are atomic. Likewise
  each transaction of the database is atomic; disk errors and busy timeouts are left out.
\<close>

end
